(* ===== verification/JsPrelude.thy ===== *)
theory JsPrelude
  imports Main "HOL-Library.AList" "HOL-Library.Multiset"
begin

text \<open>
  What the front end uses of JavaScript itself, shared by every component theory: truthiness of
  optional strings, plain objects and \<open>Map\<close>s as association lists in insertion order, the
  enumeration order of object keys, and the decimal and base-36 rendering of numbers that goes
  into generated ids.

  An object used as a dictionary (\<open>Record<string, T>\<close>) and a \<open>Map<string, T>\<close> are both lists of
  pairs with distinct keys: \<open>map_of\<close> reads a key, \<open>AList.update\<close> writes it (in place when the key
  exists, at the end when it is new, as JavaScript does), \<open>AList.delete\<close> removes it. Only own
  properties are modelled: a key that names a member of \<open>Object.prototype\<close> is not a server id.
\<close>

section \<open>Collections of hints\<close>

named_theorems tree_simps \<open>equations of the panel tree operations\<close>
named_theorems reducer_defs \<open>definitions of the store's reducers\<close>
named_theorems activity_defs \<open>definitions of the idle tracker\<close>

section \<open>Truthiness\<close>

text \<open>
  A value of type \<open>string | null | undefined\<close> is truthy when it is a string other than the empty
  one. The model writes \<open>None\<close> for both \<open>null\<close> and \<open>undefined\<close>.
\<close>

definition truthy :: "string option \<Rightarrow> bool" where
  "truthy v = (case v of None \<Rightarrow> False | Some s \<Rightarrow> s \<noteq> [])"

lemma truthy_simps [simp]:
  "\<not> truthy None" "truthy (Some s) \<longleftrightarrow> s \<noteq> []"
  by (simp_all add: truthy_def)

lemma truthyE:
  assumes "truthy v"
  obtains s where "v = Some s" "s \<noteq> []"
  using assms by (cases v) auto

section \<open>Objects and maps\<close>

type_synonym 'v obj = "(string \<times> 'v) list"

abbreviation obj_set :: "string \<Rightarrow> 'v \<Rightarrow> 'v obj \<Rightarrow> 'v obj" where
  "obj_set \<equiv> AList.update"

abbreviation obj_del :: "string \<Rightarrow> 'v obj \<Rightarrow> 'v obj" where
  "obj_del \<equiv> AList.delete"

text \<open>
  \<open>{...m, [k]: v}\<close> where \<open>v\<close> may be \<open>undefined\<close>: reading a key that holds \<open>undefined\<close> gives the
  same as reading an absent one.
\<close>

definition obj_put :: "string \<Rightarrow> 'v option \<Rightarrow> 'v obj \<Rightarrow> 'v obj" where
  "obj_put k v m = (case v of None \<Rightarrow> obj_del k m | Some x \<Rightarrow> obj_set k x m)"

definition has_key :: "string \<Rightarrow> 'v obj \<Rightarrow> bool" where
  "has_key k m = (map_of m k \<noteq> None)"

lemma map_of_obj_set [simp]: "map_of (obj_set k v m) = (map_of m)(k \<mapsto> v)"
  by (simp add: update_conv')

lemma map_of_obj_del [simp]: "map_of (obj_del k m) = (map_of m)(k := None)"
  by (simp add: delete_conv')

lemma map_of_obj_put [simp]: "map_of (obj_put k v m) = (map_of m)(k := v)"
  by (cases v) (simp_all add: obj_put_def)

lemma distinct_keys_set [intro]:
  "distinct (map fst m) \<Longrightarrow> distinct (map fst (obj_set k v m))"
  by (rule distinct_update)

lemma distinct_keys_del [intro]:
  "distinct (map fst m) \<Longrightarrow> distinct (map fst (obj_del k m))"
  by (rule distinct_delete)

lemma has_key_iff: "has_key k m \<longleftrightarrow> k \<in> fst ` set m"
  by (auto simp: has_key_def map_of_eq_None_iff)

section \<open>Rendering numbers\<close>

text \<open>
  \<open>n.toString(radix)\<close> for a non-negative integer and a radix of at most 36: digits \<open>0\<close> to \<open>9\<close>, then
  the lower-case letters.
\<close>

definition digit_char :: "nat \<Rightarrow> char" where
  "digit_char d = (if d < 10 then char_of (48 + d) else char_of (87 + d))"

fun to_radix :: "nat \<Rightarrow> nat \<Rightarrow> string" where
  "to_radix b n =
     (if b < 2 \<or> n < b then [digit_char n] else to_radix b (n div b) @ [digit_char (n mod b)])"

declare to_radix.simps [simp del]

abbreviation dec :: "nat \<Rightarrow> string" where
  "dec \<equiv> to_radix 10"

abbreviation base36 :: "nat \<Rightarrow> string" where
  "base36 \<equiv> to_radix 36"

definition dec_int :: "int \<Rightarrow> string" where
  "dec_int i = (if i < 0 then ''-'' @ dec (nat (- i)) else dec (nat i))"

fun radix_value :: "(char \<Rightarrow> nat) \<Rightarrow> nat \<Rightarrow> string \<Rightarrow> nat" where
  "radix_value f b s = foldl (\<lambda>acc c. acc * b + f c) 0 s"

definition char_digit :: "char \<Rightarrow> nat" where
  "char_digit c = (if of_char c < (58::nat) then of_char c - 48 else of_char c - 87)"

lemma char_digit_digit_char: "d < 36 \<Longrightarrow> char_digit (digit_char d) = d"
  by (auto simp: char_digit_def digit_char_def)

lemma digit_char_not_dash: "d < 36 \<Longrightarrow> digit_char d \<noteq> CHR ''-''"
proof
  assume "d < 36" "digit_char d = CHR ''-''"
  then have "of_char (digit_char d) = (45::nat)" by simp
  with \<open>d < 36\<close> show False by (auto simp: digit_char_def split: if_splits)
qed

lemma to_radix_no_dash: "2 \<le> b \<Longrightarrow> b \<le> 36 \<Longrightarrow> CHR ''-'' \<notin> set (to_radix b n)"
proof (induction b n rule: to_radix.induct)
  case (1 b n)
  then have "n mod b < 36" by (intro less_le_trans [OF mod_less_divisor]) auto
  with 1 show ?case
    by (subst to_radix.simps) (auto dest: digit_char_not_dash [symmetric] simp: not_less)
qed

lemma radix_value_to_radix:
  assumes "2 \<le> b" "b \<le> 36"
  shows "radix_value char_digit b (to_radix b n) = n"
  using assms
proof (induction b n rule: to_radix.induct)
  case (1 b n)
  show ?case
  proof (cases "n < b")
    case True
    with 1 show ?thesis by (subst to_radix.simps) (simp add: char_digit_digit_char)
  next
    case False
    have "n mod b < 36" using 1 by (intro less_le_trans [OF mod_less_divisor]) auto
    with 1 False show ?thesis
      by (subst to_radix.simps) (simp add: char_digit_digit_char)
  qed
qed

lemma to_radix_inject:
  "2 \<le> b \<Longrightarrow> b \<le> 36 \<Longrightarrow> to_radix b m = to_radix b n \<longleftrightarrow> m = n"
  by (metis radix_value_to_radix)

text \<open>Two strings joined by a separator that neither first part contains split uniquely.\<close>

lemma append_sep_inject:
  assumes "c \<notin> set xs" "c \<notin> set ys"
  shows "xs @ c # as = ys @ c # bs \<longleftrightarrow> xs = ys \<and> as = bs"
  using assms
proof (induction xs arbitrary: ys)
  case Nil
  then show ?case by (cases ys) auto
next
  case (Cons x xs)
  then show ?case by (cases ys) auto
qed

section \<open>Enumeration order of object keys\<close>

text \<open>
  \<open>Object.keys\<close> and \<open>Object.entries\<close> list the array-index keys first, in ascending order, and the
  other keys in insertion order.
\<close>

definition is_index_key :: "string \<Rightarrow> bool" where
  "is_index_key k =
     (let n = radix_value char_digit 10 k in dec n = k \<and> n < 2 ^ 32 - 1)"

definition obj_entries :: "'v obj \<Rightarrow> (string \<times> 'v) list" where
  "obj_entries m =
     sort_key (\<lambda>e. radix_value char_digit 10 (fst e)) (filter (\<lambda>e. is_index_key (fst e)) m)
     @ filter (\<lambda>e. \<not> is_index_key (fst e)) m"

definition obj_keys :: "'v obj \<Rightarrow> string list" where
  "obj_keys m = map fst (obj_entries m)"

lemma set_obj_entries [simp]: "set (obj_entries m) = set m"
  by (auto simp: obj_entries_def)

lemma set_obj_keys [simp]: "set (obj_keys m) = fst ` set m"
  by (simp add: obj_keys_def)

lemma mset_obj_entries: "mset (obj_entries m) = mset m"
  by (simp add: obj_entries_def)

lemma distinct_obj_keys [simp]: "distinct (obj_keys m) \<longleftrightarrow> distinct (map fst m)"
  unfolding obj_keys_def
  by (rule mset_eq_imp_distinct_iff) (simp add: mset_obj_entries)

lemma map_of_obj_entries:
  "distinct (map fst m) \<Longrightarrow> map_of (obj_entries m) = map_of m"
  by (metis distinct_obj_keys map_of_inject_set obj_keys_def set_obj_entries)

section \<open>Lists\<close>

text \<open>\<open>xs.slice(-n)\<close>: the last \<open>n\<close> elements, or all of them.\<close>

definition take_last :: "nat \<Rightarrow> 'a list \<Rightarrow> 'a list" where
  "take_last n xs = drop (length xs - n) xs"

lemma length_take_last: "length (take_last n xs) \<le> n"
  by (simp add: take_last_def)

lemma set_take_last: "set (take_last n xs) \<subseteq> set xs"
  by (simp add: take_last_def set_drop_subset)

lemma take_last_snoc: "0 < n \<Longrightarrow> last (take_last n (xs @ [x])) = x \<and> take_last n (xs @ [x]) \<noteq> []"
  by (auto simp: take_last_def last_drop)

lemma distinct_map_take_last: "distinct (map f xs) \<Longrightarrow> distinct (map f (take_last n xs))"
  by (simp add: take_last_def flip: drop_map)

lemma distinct_map_filterI: "distinct (map f xs) \<Longrightarrow> distinct (map f (filter P xs))"
  by (rule distinct_map_filter)

lemma find_filter_not: "find P xs = None \<Longrightarrow> filter P xs = []"
  by (simp add: find_None_iff filter_empty_conv)

lemma map_filter_inj:
  "distinct (List.map_filter f xs) \<Longrightarrow> x \<in> set xs \<Longrightarrow> y \<in> set xs \<Longrightarrow> f x = Some s \<Longrightarrow> f y = Some s \<Longrightarrow> x = y"
proof (induction xs)
  case (Cons z zs)
  have "s \<in> set (List.map_filter f zs)" if "u \<in> set zs" "f u = Some s" for u
    using that by (force simp: List.map_filter_def image_iff)
  then show ?case using Cons by (auto simp: map_filter_simps split: option.splits)
qed simp

section \<open>Transition systems\<close>

text \<open>
  A component with state is a set of start states and a step relation; its reachable states are those
  a finite run leads to. An invariant is kept by every step and so holds in all of them, whatever
  the component: the store, the session lock and the terminal connections use this one lemma.
\<close>

definition reachable_from :: "('s \<Rightarrow> bool) \<Rightarrow> ('s \<Rightarrow> 's \<Rightarrow> bool) \<Rightarrow> 's \<Rightarrow> bool" where
  "reachable_from start step s \<longleftrightarrow> (\<exists>s0. start s0 \<and> step\<^sup>*\<^sup>* s0 s)"

lemma reachable_start: "start s \<Longrightarrow> reachable_from start step s"
  by (auto simp: reachable_from_def)

lemma reachable_step:
  "reachable_from start step s \<Longrightarrow> step s t \<Longrightarrow> reachable_from start step t"
  by (auto simp: reachable_from_def intro: rtranclp.rtrancl_into_rtrancl)

locale invariant_system =
  fixes start :: "'s \<Rightarrow> bool"
    and step :: "'s \<Rightarrow> 's \<Rightarrow> bool"
    and inv :: "'s \<Rightarrow> bool"
  assumes start_inv: "start s \<Longrightarrow> inv s"
    and step_inv: "step s t \<Longrightarrow> inv s \<Longrightarrow> inv t"
begin

lemma run_inv: "step\<^sup>*\<^sup>* s t \<Longrightarrow> inv s \<Longrightarrow> inv t"
  by (induction rule: rtranclp.induct) (auto intro: step_inv)

lemma reachable_inv: "reachable_from start step s \<Longrightarrow> inv s"
  by (auto simp: reachable_from_def intro: run_inv start_inv)

end

text \<open>
  A system whose steps, seen through \<open>view\<close>, are steps of another system (any number of them) or a new start of it has the
  other's invariant too: a page with its storage over the store, terminals over the session lock, windows with a clock
  over windows without one, all windows with their panels over the lock.
\<close>

lemma reachable_run: "reachable_from start step s \<Longrightarrow> step\<^sup>*\<^sup>* s t \<Longrightarrow> reachable_from start step t"
  by (auto simp: reachable_from_def intro: rtranclp_trans)

lemma step_or_stay: "step s t \<or> t = s \<Longrightarrow> step\<^sup>*\<^sup>* s t"
  by auto

locale refining_system =
  abs: invariant_system astart astep ainv
  for astart :: "'a \<Rightarrow> bool" and astep :: "'a \<Rightarrow> 'a \<Rightarrow> bool" and ainv :: "'a \<Rightarrow> bool" +
  fixes start :: "'s \<Rightarrow> bool"
    and step :: "'s \<Rightarrow> 's \<Rightarrow> bool"
    and good :: "'s \<Rightarrow> bool"
    and view :: "'s \<Rightarrow> 'a"
  assumes start_good: "start s \<Longrightarrow> good s \<and> astart (view s)"
    and step_good: "step s t \<Longrightarrow> good s \<Longrightarrow> ainv (view s) \<Longrightarrow> good t"
    and step_view: "step s t \<Longrightarrow> good s \<Longrightarrow> ainv (view s) \<Longrightarrow> astep\<^sup>*\<^sup>* (view s) (view t) \<or> astart (view t)"

sublocale refining_system \<subseteq> conc: invariant_system start step "\<lambda>s. good s \<and> reachable_from astart astep (view s)"
proof
  show "good s \<and> reachable_from astart astep (view s)" if "start s" for s
    using start_good [OF that] by (simp add: reachable_start)
  show "good t \<and> reachable_from astart astep (view t)"
    if "step s t" "good s \<and> reachable_from astart astep (view s)" for s t
    using step_good [OF that(1)] step_view [OF that(1)] abs.reachable_inv that(2)
    by (metis reachable_start reachable_run)
qed

end
