(* ===== verification/PanelLayout.thy ===== *)
theory PanelLayout
  imports JsPrelude Complex_Main "HOL-Library.Sublist"
begin

text \<open>
  \<open>frontend/src/lib/panelLayout.ts\<close>: the tree of terminal panels of one workspace. A leaf shows
  at most one session; a split arranges two or more children in a row or a column, with one size
  (a percentage) per child.

  Sizes are JavaScript numbers; the model computes with exact rationals, so statements about sums
  of sizes hold up to floating-point rounding in the program. The operations that rebuild the tree
  only where something changed (\<open>mapTree\<close> and what is built on it) return, beside the node, whether
  it is a fresh object: callers compare the result with \<open>===\<close>. \<open>Math.random\<close> is a parameter
  \<open>rnd\<close>: the draw made while the id counter has a given value.
\<close>

section \<open>Data\<close>

datatype split_direction = Row | Column

datatype split_placement = Before | After

record panel_leaf =
  leaf_id :: string
  leaf_session :: "string option"

datatype panel_node =
    PLeaf panel_leaf
  | PSplit (split_id: string) split_direction (split_sizes: "rat list") (split_children: "panel_node list")

fun node_id :: "panel_node \<Rightarrow> string" where
  "node_id (PLeaf l) = leaf_id l"
| "node_id (PSplit i d sz cs) = i"

section \<open>Identifiers\<close>

text \<open>
  \<open>nextPanelId\<close> increments the module's counter and appends a random suffix; it returns the id and
  the new counter.
\<close>

definition nextPanelId :: "(nat \<Rightarrow> nat) \<Rightarrow> string \<Rightarrow> nat \<Rightarrow> string \<times> nat" where
  "nextPanelId rnd pfx c =
     (let c' = c + 1 in (pfx @ ''-'' @ dec c' @ ''-'' @ base36 (rnd c'), c'))"

definition createLeaf ::
    "(nat \<Rightarrow> nat) \<Rightarrow> string option \<Rightarrow> string option \<Rightarrow> nat \<Rightarrow> panel_leaf \<times> nat" where
  "createLeaf rnd sessionId ident c =
     (case ident of
        Some i \<Rightarrow> (\<lparr>leaf_id = i, leaf_session = sessionId\<rparr>, c)
      | None \<Rightarrow> (let (i, c') = nextPanelId rnd ''leaf'' c
                 in (\<lparr>leaf_id = i, leaf_session = sessionId\<rparr>, c')))"

definition createSplit ::
    "(nat \<Rightarrow> nat) \<Rightarrow> split_direction \<Rightarrow> panel_node list \<Rightarrow> rat list option \<Rightarrow> string option \<Rightarrow> nat
     \<Rightarrow> panel_node \<times> nat" where
  "createSplit rnd direction children sizes ident c =
     (let finalSizes = (case sizes of Some sz \<Rightarrow> sz
                        | None \<Rightarrow> map (\<lambda>_. 100 / of_nat (max 1 (length children))) children)
      in case ident of
           Some i \<Rightarrow> (PSplit i direction finalSizes children, c)
         | None \<Rightarrow> (let (i, c') = nextPanelId rnd ''split'' c
                    in (PSplit i direction finalSizes children, c')))"

section \<open>Searching\<close>

fun findLeafById :: "panel_node \<Rightarrow> string \<Rightarrow> panel_leaf option"
  and findLeafByIds :: "panel_node list \<Rightarrow> string \<Rightarrow> panel_leaf option" where
  "findLeafById (PLeaf l) leafId = (if leaf_id l = leafId then Some l else None)"
| "findLeafById (PSplit i d sz cs) leafId = findLeafByIds cs leafId"
| "findLeafByIds [] leafId = None"
| "findLeafByIds (c # cs) leafId =
     (case findLeafById c leafId of Some l \<Rightarrow> Some l | None \<Rightarrow> findLeafByIds cs leafId)"

fun findLeafBySessionId :: "panel_node \<Rightarrow> string \<Rightarrow> panel_leaf option"
  and findLeafBySessionIds :: "panel_node list \<Rightarrow> string \<Rightarrow> panel_leaf option" where
  "findLeafBySessionId (PLeaf l) sid = (if leaf_session l = Some sid then Some l else None)"
| "findLeafBySessionId (PSplit i d sz cs) sid = findLeafBySessionIds cs sid"
| "findLeafBySessionIds [] sid = None"
| "findLeafBySessionIds (c # cs) sid =
     (case findLeafBySessionId c sid of Some l \<Rightarrow> Some l | None \<Rightarrow> findLeafBySessionIds cs sid)"

fun listLeaves :: "panel_node \<Rightarrow> panel_leaf list" where
  "listLeaves (PLeaf l) = [l]"
| "listLeaves (PSplit i d sz cs) = concat (map listLeaves cs)"

definition listVisibleSessionIds :: "panel_node \<Rightarrow> string list" where
  "listVisibleSessionIds rootn =
     map the (filter (\<lambda>i. i \<noteq> None) (map leaf_session (listLeaves rootn)))"

text \<open>\<open>firstLeaf\<close> reads \<open>children[0]\<close>: on a split without children it raises a TypeError (\<open>None\<close>).\<close>

fun firstLeaf :: "panel_node \<Rightarrow> panel_leaf option" where
  "firstLeaf (PLeaf l) = Some l"
| "firstLeaf (PSplit i d sz []) = None"
| "firstLeaf (PSplit i d sz (c # cs)) = firstLeaf c"

section \<open>Rewriting the tree\<close>

text \<open>
  \<open>mapTree\<close> applies \<open>fn\<close> bottom-up. The Boolean of a result says that it is a new object; a split
  whose children all came back as the same objects is passed to \<open>fn\<close> as it is.
\<close>

fun mapTree :: "(panel_node \<Rightarrow> panel_node \<times> bool) \<Rightarrow> panel_node \<Rightarrow> panel_node \<times> bool" where
  "mapTree fn (PLeaf l) = fn (PLeaf l)"
| "mapTree fn (PSplit i d sz cs) =
     (let mappedChildren = map (mapTree fn) cs;
          same = list_all (\<lambda>r. \<not> snd r) mappedChildren;
          next = (if same then PSplit i d sz cs else PSplit i d sz (map fst mappedChildren));
          r = fn next
      in (fst r, snd r \<or> \<not> same))"

definition setLeafSession_fn :: "string \<Rightarrow> string option \<Rightarrow> panel_node \<Rightarrow> panel_node \<times> bool" where
  "setLeafSession_fn leafId sessionId n =
     (case n of
        PLeaf l \<Rightarrow>
          if leaf_id l = leafId then
            (if leaf_session l = sessionId then (n, False)
             else (PLeaf (l\<lparr>leaf_session := sessionId\<rparr>), True))
          else (n, False)
      | PSplit i d sz cs \<Rightarrow> (n, False))"

definition setLeafSession :: "panel_node \<Rightarrow> string \<Rightarrow> string option \<Rightarrow> panel_node \<times> bool" where
  "setLeafSession rootn leafId sessionId = mapTree (setLeafSession_fn leafId sessionId) rootn"

definition detachSession_fn :: "string \<Rightarrow> panel_node \<Rightarrow> panel_node \<times> bool" where
  "detachSession_fn sessionId n =
     (case n of
        PLeaf l \<Rightarrow>
          if leaf_session l = Some sessionId then (PLeaf (l\<lparr>leaf_session := None\<rparr>), True)
          else (n, False)
      | PSplit i d sz cs \<Rightarrow> (n, False))"

definition detachSession :: "panel_node \<Rightarrow> string \<Rightarrow> panel_node \<times> bool" where
  "detachSession rootn sessionId = mapTree (detachSession_fn sessionId) rootn"

definition setSplitSizes_fn :: "string \<Rightarrow> rat list \<Rightarrow> panel_node \<Rightarrow> panel_node \<times> bool" where
  "setSplitSizes_fn splitId sizes n =
     (case n of
        PSplit i d sz cs \<Rightarrow>
          if i = splitId then
            (if length sz \<noteq> length sizes then (n, False)
             else if list_all2 (=) sz sizes then (n, False)
             else (PSplit i d sizes cs, True))
          else (n, False)
      | PLeaf l \<Rightarrow> (n, False))"

definition setSplitSizes :: "panel_node \<Rightarrow> string \<Rightarrow> rat list \<Rightarrow> panel_node \<times> bool" where
  "setSplitSizes rootn splitId sizes = mapTree (setSplitSizes_fn splitId sizes) rootn"

definition pruneSessionIds_fn :: "string set \<Rightarrow> panel_node \<Rightarrow> panel_node \<times> bool" where
  "pruneSessionIds_fn valid n =
     (case n of
        PLeaf l \<Rightarrow>
          if truthy (leaf_session l) \<and> the (leaf_session l) \<notin> valid
          then (PLeaf (l\<lparr>leaf_session := None\<rparr>), True)
          else (n, False)
      | PSplit i d sz cs \<Rightarrow> (n, False))"

definition pruneSessionIds :: "panel_node \<Rightarrow> string set \<Rightarrow> panel_node \<times> bool" where
  "pruneSessionIds rootn valid = mapTree (pruneSessionIds_fn valid) rootn"

section \<open>Splitting and removing\<close>

text \<open>\<open>replaceNode\<close>: \<open>None\<close> when no node with the id was found below.\<close>

fun replaceNode :: "panel_node \<Rightarrow> string \<Rightarrow> panel_node \<Rightarrow> panel_node option" where
  "replaceNode (PLeaf l) targetId replacement =
     (if leaf_id l = targetId then Some replacement else None)"
| "replaceNode (PSplit i d sz cs) targetId replacement =
     (if i = targetId then Some replacement
      else
        let rs = map (\<lambda>c. replaceNode c targetId replacement) cs;
            changed = list_ex (\<lambda>r. r \<noteq> None) rs
        in if \<not> changed then None
           else Some (PSplit i d sz
             (map2 (\<lambda>c r. case r of Some x \<Rightarrow> x | None \<Rightarrow> c) cs rs)))"

definition splitLeaf ::
    "(nat \<Rightarrow> nat) \<Rightarrow> panel_node \<Rightarrow> string \<Rightarrow> split_direction \<Rightarrow> split_placement \<Rightarrow> string option \<Rightarrow> nat
     \<Rightarrow> (panel_node \<times> string) option \<times> nat" where
  "splitLeaf rnd rootn leafId direction placement newLeafId c =
     (case findLeafById rootn leafId of
        None \<Rightarrow> (None, c)
      | Some target \<Rightarrow>
          (let (newLeaf, c1) = createLeaf rnd None newLeafId c;
               children = (case placement of
                   Before \<Rightarrow> [PLeaf newLeaf, PLeaf target]
                 | After \<Rightarrow> [PLeaf target, PLeaf newLeaf]);
               (replacement, c2) = createSplit rnd direction children None None c1
           in case replaceNode rootn leafId replacement of
                None \<Rightarrow> (None, c2)
              | Some next \<Rightarrow> (Some (next, leaf_id newLeaf), c2)))"

text \<open>
  \<open>removeLeaf\<close>: the survivors of a split with their old sizes (\<open>root.sizes[i] ?? 0\<close>); a split that
  keeps one child is replaced by it, one that keeps more gets its sizes scaled back to 100.
\<close>

definition size_at :: "rat list \<Rightarrow> nat \<Rightarrow> rat" where
  "size_at sz i = (if i < length sz then sz ! i else 0)"

definition survivors :: "rat list \<Rightarrow> panel_node option list \<Rightarrow> (panel_node \<times> rat) list" where
  "survivors sz rs =
     map (\<lambda>(i, r). (the r, size_at sz i)) (filter (\<lambda>(i, r). r \<noteq> None) (enumerate 0 rs))"

definition rescale :: "rat list \<Rightarrow> rat list" where
  "rescale olds =
     (let total = sum_list olds
      in if total > 0 then map (\<lambda>s. s / total * 100) olds
         else map (\<lambda>_. 100 / of_nat (length olds)) olds)"

fun removeLeaf :: "panel_node \<Rightarrow> string \<Rightarrow> panel_node option" where
  "removeLeaf (PLeaf l) leafId = (if leaf_id l = leafId then None else Some (PLeaf l))"
| "removeLeaf (PSplit i d sz cs) leafId =
     (let sv = survivors sz (map (\<lambda>c. removeLeaf c leafId) cs)
      in case sv of
           [] \<Rightarrow> None
         | [p] \<Rightarrow> Some (fst p)
         | _ \<Rightarrow> Some (PSplit i d (rescale (map snd sv)) (map fst sv)))"

section \<open>Shape of a tree\<close>

text \<open>
  All node ids in preorder; the arity a valid tree has (what \<open>isValidPanelNode\<close> checks of a split);
  and the sizes of every split adding up to 100.
\<close>

fun node_ids :: "panel_node \<Rightarrow> string list" where
  "node_ids (PLeaf l) = [leaf_id l]"
| "node_ids (PSplit i d sz cs) = i # concat (map node_ids cs)"

fun split_ids :: "panel_node \<Rightarrow> string list" where
  "split_ids (PLeaf l) = []"
| "split_ids (PSplit i d sz cs) = i # concat (map split_ids cs)"

fun arity_ok :: "panel_node \<Rightarrow> bool" where
  "arity_ok (PLeaf l) = True"
| "arity_ok (PSplit i d sz cs) =
     (2 \<le> length cs \<and> length sz = length cs \<and> list_all arity_ok cs)"

fun sizes_ok :: "panel_node \<Rightarrow> bool" where
  "sizes_ok (PLeaf l) = True"
| "sizes_ok (PSplit i d sz cs) = (sum_list sz = 100 \<and> list_all sizes_ok cs)"

definition leaf_ids :: "panel_node \<Rightarrow> string list" where
  "leaf_ids t = map leaf_id (listLeaves t)"

definition tree_ok :: "panel_node \<Rightarrow> bool" where
  "tree_ok t \<longleftrightarrow> arity_ok t \<and> distinct (node_ids t) \<and> distinct (listVisibleSessionIds t)"

fun map_leaves :: "(panel_leaf \<Rightarrow> panel_leaf) \<Rightarrow> panel_node \<Rightarrow> panel_node" where
  "map_leaves g (PLeaf l) = PLeaf (g l)"
| "map_leaves g (PSplit i d sz cs) = PSplit i d sz (map (map_leaves g) cs)"

section \<open>Searching is searching the list of leaves\<close>

lemma find_append: "find P (xs @ ys) = (case find P xs of None \<Rightarrow> find P ys | Some x \<Rightarrow> Some x)"
  by (induction xs) auto

lemma findLeafById_eq [tree_simps]:
  "findLeafById t i = find (\<lambda>l. leaf_id l = i) (listLeaves t)"
  and findLeafByIds_eq:
  "findLeafByIds ts i = find (\<lambda>l. leaf_id l = i) (concat (map listLeaves ts))"
  by (induction t i and ts i rule: findLeafById_findLeafByIds.induct)
    (auto simp: find_append split: option.splits)

lemma findLeafBySessionId_eq [tree_simps]:
  "findLeafBySessionId t s = find (\<lambda>l. leaf_session l = Some s) (listLeaves t)"
  and findLeafBySessionIds_eq:
  "findLeafBySessionIds ts s = find (\<lambda>l. leaf_session l = Some s) (concat (map listLeaves ts))"
  by (induction t s and ts s rule: findLeafBySessionId_findLeafBySessionIds.induct)
    (auto simp: find_append split: option.splits)

lemma set_listVisibleSessionIds [tree_simps]:
  "s \<in> set (listVisibleSessionIds t) \<longleftrightarrow> (\<exists>l \<in> set (listLeaves t). leaf_session l = Some s)"
  by (force simp: listVisibleSessionIds_def image_iff)

lemma findLeafBySessionId_None:
  "findLeafBySessionId t s = None \<longleftrightarrow> s \<notin> set (listVisibleSessionIds t)"
  by (auto simp: tree_simps find_None_iff)

lemma findLeafById_None: "findLeafById t i = None \<longleftrightarrow> i \<notin> set (leaf_ids t)"
  by (auto simp: tree_simps find_None_iff leaf_ids_def)

lemma findLeafById_SomeD:
  "findLeafById t i = Some l \<Longrightarrow> leaf_id l = i \<and> l \<in> set (listLeaves t)"
  by (auto simp: tree_simps find_Some_iff)

lemma findLeafBySessionId_SomeD:
  "findLeafBySessionId t s = Some l \<Longrightarrow> leaf_session l = Some s \<and> l \<in> set (listLeaves t)"
  by (auto simp: tree_simps find_Some_iff)

lemma find_distinct:
  "distinct (map f xs) \<Longrightarrow> x \<in> set xs \<Longrightarrow> find (\<lambda>y. f y = f x) xs = Some x"
  by (induction xs) (auto simp: image_iff)

lemma findLeafById_mem:
  "distinct (leaf_ids t) \<Longrightarrow> l \<in> set (listLeaves t) \<Longrightarrow> findLeafById t (leaf_id l) = Some l"
  by (simp add: tree_simps leaf_ids_def find_distinct)

lemma leaf_ids_simps [tree_simps]:
  "leaf_ids (PLeaf l) = [leaf_id l]"
  "leaf_ids (PSplit i d sz cs) = concat (map leaf_ids cs)"
  by (simp_all add: leaf_ids_def [abs_def] map_concat comp_def)

lemma subseq_distinctI: "subseq xs ys \<Longrightarrow> distinct ys \<Longrightarrow> distinct xs"
  by (induction rule: list_emb.induct) (auto dest: list_emb_set)

lemma subseq_concat_map:
  "(\<And>x. x \<in> set xs \<Longrightarrow> subseq (f x) (g x)) \<Longrightarrow> subseq (concat (map f xs)) (concat (map g xs))"
  by (induction xs) (auto intro: list_emb_append_mono)

lemma subseq_leaf_ids: "subseq (leaf_ids t) (node_ids t)"
  by (induction t) (auto simp: tree_simps intro!: subseq_concat_map)

lemma distinct_leaf_ids: "distinct (node_ids t) \<Longrightarrow> distinct (leaf_ids t)"
  by (rule subseq_distinctI [OF subseq_leaf_ids])

lemma subseq_split_ids: "subseq (split_ids t) (node_ids t)"
  by (induction t) (auto intro!: subseq_concat_map)

lemma set_node_ids: "set (node_ids t) = set (leaf_ids t) \<union> set (split_ids t)"
  by (induction t) (auto simp: tree_simps)

lemma mset_node_ids: "mset (node_ids t) = mset (leaf_ids t) + mset (split_ids t)"
proof (induction t)
  case (PSplit i d sz cs)
  then have "mset (concat (map node_ids cs)) =
      mset (concat (map leaf_ids cs)) + mset (concat (map split_ids cs))"
    by (induction cs) auto
  then show ?case by (simp add: tree_simps)
qed (simp add: tree_simps)

lemma leaf_split_disjoint:
  "distinct (node_ids t) \<Longrightarrow> i \<in> set (leaf_ids t) \<Longrightarrow> i \<notin> set (split_ids t)"
proof
  assume d: "distinct (node_ids t)" and i: "i \<in> set (leaf_ids t)" "i \<in> set (split_ids t)"
  then have "count (mset (node_ids t)) i \<ge> 2"
    by (simp add: mset_node_ids) (metis add_mono count_greater_eq_one_iff one_add_one set_mset_mset)
  moreover have "count (mset (node_ids t)) i \<le> 1"
    using d by (simp add: distinct_count_atmost_1)
  ultimately show False by simp
qed

lemma arity_ok_leaves: "arity_ok t \<Longrightarrow> listLeaves t \<noteq> []"
proof (induction t)
  case (PSplit i d sz cs)
  then obtain c cs' where "cs = c # cs'" by (cases cs) auto
  with PSplit show ?case by simp
qed simp

lemma firstLeaf_hd: "arity_ok t \<Longrightarrow> firstLeaf t = Some (hd (listLeaves t))"
proof (induction t rule: firstLeaf.induct)
  case (3 i d sz c cs)
  then show ?case using arity_ok_leaves [of c] by (simp add: hd_append)
qed simp_all

section \<open>Rewriting the leaves\<close>

lemma map_fix_iff: "map f xs = xs \<longleftrightarrow> (\<forall>x \<in> set xs. f x = x)"
  by (induction xs) auto

lemma map_leaves_fix: "map_leaves g t = t \<longleftrightarrow> (\<forall>l \<in> set (listLeaves t). g l = l)"
  by (induction t) (auto simp: map_fix_iff)

text \<open>
  The interface between \<open>mapTree\<close> and its clients: a rewriting function that leaves splits alone,
  keeps the id of every leaf, and says truthfully whether it made a new object.
\<close>

locale leaf_rewrite =
  fixes fn :: "panel_node \<Rightarrow> panel_node \<times> bool"
    and g :: "panel_leaf \<Rightarrow> panel_leaf"
  assumes fn_split: "fn (PSplit i d sz cs) = (PSplit i d sz cs, False)"
    and fn_leaf: "fn (PLeaf l) = (PLeaf (g l), g l \<noteq> l)"
    and keeps_id: "leaf_id (g l) = leaf_id l"
begin

lemma mapTree_eq: "mapTree fn t = (map_leaves g t, map_leaves g t \<noteq> t)"
proof (induction t)
  case (PLeaf l)
  then show ?case by (simp add: fn_leaf)
next
  case (PSplit i d sz cs)
  have all: "list_all (\<lambda>r. \<not> snd r) (map (mapTree fn) cs) \<longleftrightarrow> map (map_leaves g) cs = cs"
    using PSplit by (simp add: list_all_iff map_fix_iff)
  have fsts: "map fst (map (mapTree fn) cs) = map (map_leaves g) cs"
    using PSplit by simp
  show ?case
    by (simp only: mapTree.simps Let_def all fsts) (simp add: fn_split)
qed

lemma fst_mapTree [simp]: "fst (mapTree fn t) = map_leaves g t"
  by (simp add: mapTree_eq)

lemma snd_mapTree: "snd (mapTree fn t) \<longleftrightarrow> map_leaves g t \<noteq> t"
  by (simp add: mapTree_eq)

lemma listLeaves_map [simp]: "listLeaves (map_leaves g t) = map g (listLeaves t)"
  by (induction t) (auto simp: map_concat intro!: arg_cong [where f = concat])

lemma node_ids_map [simp]: "node_ids (map_leaves g t) = node_ids t"
  by (induction t) (auto simp: keeps_id intro!: arg_cong [where f = concat])

lemma leaf_ids_map [simp]: "leaf_ids (map_leaves g t) = leaf_ids t"
  by (simp add: leaf_ids_def keeps_id)

lemma arity_ok_map [simp]: "arity_ok (map_leaves g t) = arity_ok t"
  by (induction t) (auto simp: list_all_iff)

lemma sizes_ok_map [simp]: "sizes_ok (map_leaves g t) = sizes_ok t"
  by (induction t) (auto simp: list_all_iff)

lemmas rewrite_shape = listLeaves_map node_ids_map leaf_ids_map arity_ok_map sizes_ok_map

end

definition put_session :: "string \<Rightarrow> string option \<Rightarrow> panel_leaf \<Rightarrow> panel_leaf" where
  "put_session i s l = (if leaf_id l = i then l\<lparr>leaf_session := s\<rparr> else l)"

definition drop_session :: "string \<Rightarrow> panel_leaf \<Rightarrow> panel_leaf" where
  "drop_session s l = (if leaf_session l = Some s then l\<lparr>leaf_session := None\<rparr> else l)"

definition keep_sessions :: "string set \<Rightarrow> panel_leaf \<Rightarrow> panel_leaf" where
  "keep_sessions V l =
     (if truthy (leaf_session l) \<and> the (leaf_session l) \<notin> V then l\<lparr>leaf_session := None\<rparr> else l)"

lemma leaf_session_update_eq: "l\<lparr>leaf_session := s\<rparr> = l \<longleftrightarrow> leaf_session l = s"
  by (metis panel_leaf.select_convs(2) panel_leaf.surjective panel_leaf.update_convs(2))

interpretation setl: leaf_rewrite "setLeafSession_fn i s" "put_session i s" for i s
  by unfold_locales
    (auto simp: setLeafSession_fn_def put_session_def leaf_session_update_eq)

interpretation det: leaf_rewrite "detachSession_fn s" "drop_session s" for s
  by unfold_locales
    (auto simp: detachSession_fn_def drop_session_def leaf_session_update_eq)

interpretation prune: leaf_rewrite "pruneSessionIds_fn V" "keep_sessions V" for V
  by unfold_locales
    (auto simp: pruneSessionIds_fn_def keep_sessions_def leaf_session_update_eq elim: truthyE)

lemma setLeafSession_eq [tree_simps]:
  "fst (setLeafSession t i s) = map_leaves (put_session i s) t"
  by (simp add: setLeafSession_def)

lemma detachSession_eq [tree_simps]: "fst (detachSession t s) = map_leaves (drop_session s) t"
  by (simp add: detachSession_def)

lemma pruneSessionIds_eq [tree_simps]: "fst (pruneSessionIds t V) = map_leaves (keep_sessions V) t"
  by (simp add: pruneSessionIds_def)

text \<open>A rewrite returns the same object exactly when nothing changed.\<close>

lemma rewrite_fresh_iff:
  "snd (setLeafSession t i s) \<longleftrightarrow> fst (setLeafSession t i s) \<noteq> t"
  "snd (detachSession t s') \<longleftrightarrow> fst (detachSession t s') \<noteq> t"
  "snd (pruneSessionIds t V) \<longleftrightarrow> fst (pruneSessionIds t V) \<noteq> t"
  by (simp_all add: setLeafSession_def detachSession_def pruneSessionIds_def
      setl.snd_mapTree det.snd_mapTree prune.snd_mapTree)

section \<open>Which sessions are visible after a rewrite\<close>

lemma visible_eq: "listVisibleSessionIds t = List.map_filter leaf_session (listLeaves t)"
  by (auto simp: listVisibleSessionIds_def List.map_filter_def filter_map comp_def)

lemma map_filter_drop_session:
  "List.map_filter leaf_session (map (drop_session s) ls) =
     filter (\<lambda>x. x \<noteq> s) (List.map_filter leaf_session ls)"
  by (induction ls) (auto simp: drop_session_def List.map_filter_simps split: option.splits)

lemma visible_detach [tree_simps]:
  "listVisibleSessionIds (map_leaves (drop_session s) t) =
     filter (\<lambda>x. x \<noteq> s) (listVisibleSessionIds t)"
  by (simp add: visible_eq map_filter_drop_session)

lemma map_filter_keep_sessions:
  "List.map_filter leaf_session (map (keep_sessions V) ls) =
     filter (\<lambda>x. x = [] \<or> x \<in> V) (List.map_filter leaf_session ls)"
  by (induction ls) (auto simp: keep_sessions_def List.map_filter_simps split: option.splits)

lemma visible_prune [tree_simps]:
  "listVisibleSessionIds (map_leaves (keep_sessions V) t) =
     filter (\<lambda>x. x = [] \<or> x \<in> V) (listVisibleSessionIds t)"
  by (simp add: visible_eq map_filter_keep_sessions)

lemma map_filter_put_absent:
  "i \<notin> set (map leaf_id ls) \<Longrightarrow> map (put_session i s) ls = ls"
  by (induction ls) (auto simp: put_session_def)

text \<open>Putting a session that is not visible yet into one leaf keeps the visible ones distinct.\<close>

lemma distinct_map_filter_put:
  assumes "distinct (map leaf_id ls)" "distinct (List.map_filter leaf_session ls)"
    and "\<And>x. s = Some x \<Longrightarrow> x \<notin> set (List.map_filter leaf_session ls)"
  shows "distinct (List.map_filter leaf_session (map (put_session i s) ls)) \<and>
    set (List.map_filter leaf_session (map (put_session i s) ls)) \<subseteq>
      set (List.map_filter leaf_session ls) \<union> set_option s"
  using assms
proof (induction ls)
  case Nil
  then show ?case by (simp add: List.map_filter_simps)
next
  case (Cons l ls)
  show ?case
  proof (cases "leaf_id l = i")
    case True
    then have "map (put_session i s) ls = ls"
      using Cons.prems(1) by (intro map_filter_put_absent) auto
    moreover have "put_session i s l = l\<lparr>leaf_session := s\<rparr>"
      using True by (simp add: put_session_def)
    ultimately show ?thesis
      using Cons.prems(2,3) by (cases s; cases "leaf_session l") (auto simp: List.map_filter_simps)
  next
    case False
    then have "put_session i s l = l"
      by (simp add: put_session_def)
    with Cons show ?thesis
      by (cases "leaf_session l") (auto simp: List.map_filter_simps)
  qed
qed

lemma tree_ok_leaf_ids: "tree_ok t \<Longrightarrow> distinct (leaf_ids t)"
  by (simp add: tree_ok_def distinct_leaf_ids)

lemma tree_ok_put:
  assumes "tree_ok t" "\<And>x. s = Some x \<Longrightarrow> x \<notin> set (listVisibleSessionIds t)"
  shows "tree_ok (map_leaves (put_session i s) t)"
  using assms tree_ok_leaf_ids [OF assms(1)]
    distinct_map_filter_put [of "listLeaves t" s i]
  by (simp add: tree_ok_def visible_eq leaf_ids_def)

lemma tree_ok_detach: "tree_ok t \<Longrightarrow> tree_ok (map_leaves (drop_session s) t)"
  by (simp add: tree_ok_def visible_detach)

lemma tree_ok_prune: "tree_ok t \<Longrightarrow> tree_ok (map_leaves (keep_sessions V) t)"
  by (simp add: tree_ok_def visible_prune)

text \<open>\<open>detachSession\<close> then \<open>setLeafSession\<close>: the move every store action makes.\<close>

definition move_session :: "panel_node \<Rightarrow> string \<Rightarrow> string \<Rightarrow> panel_node" where
  "move_session t s i = fst (setLeafSession (fst (detachSession t s)) i (Some s))"

lemma move_session_eq:
  "move_session t s i = map_leaves (put_session i (Some s)) (map_leaves (drop_session s) t)"
  by (simp add: move_session_def tree_simps)

lemma tree_ok_move: "tree_ok t \<Longrightarrow> tree_ok (move_session t s i)"
  unfolding move_session_eq
  by (rule tree_ok_put [OF tree_ok_detach]) (auto simp: tree_simps)

lemma leaf_ids_move [simp]: "leaf_ids (move_session t s i) = leaf_ids t"
  by (simp add: move_session_eq)

lemma find_move:
  assumes "i \<in> set (leaf_ids t)"
  shows "\<exists>l. findLeafById (move_session t s i) i = Some l \<and> leaf_session l = Some s"
proof -
  have "findLeafById (move_session t s i) i \<noteq> None"
    using assms by (simp only: findLeafById_None leaf_ids_move) simp
  then obtain l where l: "findLeafById (move_session t s i) i = Some l" by blast
  then obtain l' where l': "l = put_session i (Some s) l'"
    using findLeafById_SomeD [of "move_session t s i" i l] by (auto simp: move_session_eq)
  moreover have "leaf_id l' = i"
    using findLeafById_SomeD [OF l] l' setl.keeps_id by metis
  ultimately have "leaf_session l = Some s"
    by (simp add: put_session_def)
  with l show ?thesis by blast
qed

end
