(* ===== verification/PanelSplit.thy ===== *)
theory PanelSplit
  imports PanelLayout
begin

text \<open>
  Splitting, removing and resizing panels (\<open>splitLeaf\<close>, \<open>removeLeaf\<close>, \<open>setSplitSizes\<close> of
  \<open>frontend/src/lib/panelLayout.ts\<close>): the effect of each on the list of leaves, on the ids and on the
  sizes, and generated ids being distinct.
\<close>

section \<open>Generated ids\<close>

lemma nextPanelId_inject:
  assumes "CHR ''-'' \<notin> set p" "CHR ''-'' \<notin> set q"
    and "fst (nextPanelId rnd p c) = fst (nextPanelId rnd' q c')"
  shows "p = q \<and> c = c'"
  using assms
  by (simp add: nextPanelId_def Let_def append_sep_inject to_radix_no_dash to_radix_inject)

section \<open>Resizing\<close>

lemma list_all2_eq_iff: "list_all2 (=) xs ys \<longleftrightarrow> xs = ys"
  by (simp add: list.rel_eq)

fun resize :: "string \<Rightarrow> rat list \<Rightarrow> panel_node \<Rightarrow> panel_node" where
  "resize i sizes (PLeaf l) = PLeaf l"
| "resize i sizes (PSplit j d sz cs) =
     PSplit j d (if j = i \<and> length sz = length sizes then sizes else sz) (map (resize i sizes) cs)"

lemma setSplitSizes_eq:
  "setSplitSizes t i sizes = (resize i sizes t, resize i sizes t \<noteq> t)"
  unfolding setSplitSizes_def
proof (induction t)
  case (PLeaf l)
  then show ?case by (simp add: setSplitSizes_fn_def)
next
  case (PSplit j d sz cs)
  have all: "list_all (\<lambda>r. \<not> snd r) (map (mapTree (setSplitSizes_fn i sizes)) cs)
      \<longleftrightarrow> map (resize i sizes) cs = cs"
    using PSplit by (simp add: list_all_iff map_fix_iff)
  have fsts: "map fst (map (mapTree (setSplitSizes_fn i sizes)) cs) = map (resize i sizes) cs"
    using PSplit by simp
  show ?case
    by (simp only: mapTree.simps Let_def all fsts)
      (auto simp: setSplitSizes_fn_def list_all2_eq_iff)
qed

lemma resize_leaves [simp]: "listLeaves (resize i sizes t) = listLeaves t"
  by (induction t) (auto intro!: arg_cong [where f = concat])

lemma resize_node_ids [simp]: "node_ids (resize i sizes t) = node_ids t"
  by (induction t) (auto intro!: arg_cong [where f = concat])

lemma resize_arity [simp]: "arity_ok (resize i sizes t) = arity_ok t"
  by (induction t) (auto simp: list_all_iff)

lemma tree_ok_resize [simp]: "tree_ok (resize i sizes t) = tree_ok t"
  by (simp add: tree_ok_def visible_eq)

section \<open>Survivors of a removal\<close>

lemma survivors_Nil [simp]: "survivors sz [] = []"
  by (simp add: survivors_def)

lemma enumerate_shift:
  "enumerate (Suc n) xs = map (\<lambda>(i, x). (Suc i, x)) (enumerate n xs)"
  by (induction xs arbitrary: n) auto

lemma size_at_Cons [simp]: "size_at (s # sz) 0 = s" "size_at (s # sz) (Suc i) = size_at sz i"
  by (simp_all add: size_at_def)

lemma survivors_Cons [simp]:
  "survivors (s # sz) (r # rs) =
     (case r of None \<Rightarrow> survivors sz rs | Some x \<Rightarrow> (x, s) # survivors sz rs)"
  by (auto simp: survivors_def enumerate_shift filter_map comp_def case_prod_unfold
      split: option.splits)

lemma map_fst_survivors: "map fst (survivors sz rs) = List.map_filter (\<lambda>r. r) rs"
proof -
  have "map fst (survivors sz rs) = map the (map snd (filter (\<lambda>(i, r). r \<noteq> None) (enumerate 0 rs)))"
    by (simp add: survivors_def comp_def case_prod_beta)
  also have "map snd (filter (\<lambda>(i, r). r \<noteq> None) (enumerate 0 rs)) = filter (\<lambda>r. r \<noteq> None) rs"
    by (metis (no_types, lifting) case_prod_beta' filter_cong filter_map comp_def map_snd_enumerate)
  finally show ?thesis
    by (auto simp: List.map_filter_def)
qed

lemma length_survivors: "length (survivors sz rs) = length (List.map_filter (\<lambda>r. r) rs)"
  by (metis length_map map_fst_survivors)

lemma survivors_all:
  assumes "length sz = length cs"
  shows "survivors sz (map Some cs) = zip cs sz"
  using assms by (induction sz cs rule: list_induct2) auto

section \<open>Scaling sizes back to 100\<close>

lemma sum_list_scale: "sum_list (map (\<lambda>s. s * 100 / (t::rat)) xs) = sum_list xs * 100 / t"
  by (induction xs) (auto simp: field_simps add_divide_distrib)

lemma sum_list_const: "sum_list (map (\<lambda>_. (c::rat)) xs) = of_nat (length xs) * c"
  by (induction xs) (auto simp: algebra_simps)

lemma sum_rescale: "olds \<noteq> [] \<Longrightarrow> sum_list (rescale olds) = 100"
  by (auto simp: rescale_def Let_def sum_list_scale sum_list_const)

lemma length_rescale [simp]: "length (rescale olds) = length olds"
  by (simp add: rescale_def Let_def)

lemma rescale_id: "sum_list olds = 100 \<Longrightarrow> rescale olds = olds"
  by (simp add: rescale_def map_idI)

lemma rescale_ratio:
  assumes "sum_list olds > 0" "i < length olds"
  shows "rescale olds ! i = olds ! i / sum_list olds * 100"
  using assms by (simp add: rescale_def)

section \<open>Removing a leaf\<close>

lemma removeLeaf_split_cases:
  "removeLeaf (PSplit i d sz cs) x =
     (let rs = List.map_filter (\<lambda>c. removeLeaf c x) cs in
      case rs of [] \<Rightarrow> None | [c] \<Rightarrow> Some c
      | _ \<Rightarrow> Some (PSplit i d (rescale (map snd (survivors sz (map (\<lambda>c. removeLeaf c x) cs)))) rs))"
proof -
  let ?sv = "survivors sz (map (\<lambda>c. removeLeaf c x) cs)"
  have "map fst ?sv = List.map_filter (\<lambda>c. removeLeaf c x) cs"
    by (simp add: map_fst_survivors List.map_filter_def filter_map comp_def)
  moreover have "removeLeaf (PSplit i d sz cs) x =
     (case map fst ?sv of [] \<Rightarrow> None | [c] \<Rightarrow> Some c
      | _ \<Rightarrow> Some (PSplit i d (rescale (map snd ?sv)) (map fst ?sv)))"
    by (simp add: Let_def split: list.split)
  ultimately show ?thesis by (simp only: Let_def)
qed

declare removeLeaf.simps(2) [simp del]

definition remove_leaves :: "panel_node option \<Rightarrow> panel_leaf list" where
  "remove_leaves r = (case r of None \<Rightarrow> [] | Some t \<Rightarrow> listLeaves t)"

lemma concat_map_filter_leaves:
  "concat (map listLeaves (List.map_filter f cs)) = concat (map (\<lambda>c. remove_leaves (f c)) cs)"
  by (induction cs) (auto simp: remove_leaves_def List.map_filter_simps split: option.splits)

lemma remove_leaves_case:
  "remove_leaves (case rs of [] \<Rightarrow> None | [c] \<Rightarrow> Some c | _ \<Rightarrow> Some (PSplit i d sz rs)) =
     concat (map listLeaves rs)"
  by (auto simp: remove_leaves_def split: list.split)

text \<open>Removal is removal from the list of leaves, in order.\<close>

lemma removeLeaf_leaves:
  "remove_leaves (removeLeaf t x) = filter (\<lambda>l. leaf_id l \<noteq> x) (listLeaves t)"
proof (induction t)
  case (PLeaf l)
  then show ?case by (simp add: remove_leaves_def)
next
  case (PSplit i d sz cs)
  then have "concat (map (\<lambda>c. remove_leaves (removeLeaf c x)) cs) =
      concat (map (\<lambda>c. filter (\<lambda>l. leaf_id l \<noteq> x) (listLeaves c)) cs)"
    by (intro arg_cong [where f = concat] map_cong) auto
  then show ?case
    by (simp add: removeLeaf_split_cases Let_def remove_leaves_case concat_map_filter_leaves
        filter_concat comp_def)
qed


text \<open>The tree dissolves exactly when no leaf survives.\<close>

lemma removeLeaf_nonempty: "removeLeaf t x = Some r \<Longrightarrow> listLeaves r \<noteq> []"
proof (induction t arbitrary: r)
  case (PLeaf l)
  then show ?case by (auto split: if_splits)
next
  case (PSplit i d sz cs)
  let ?rs = "List.map_filter (\<lambda>c. removeLeaf c x) cs"
  have ne: "listLeaves c \<noteq> []" if "c \<in> set ?rs" for c
    using that PSplit.IH by (auto simp: List.map_filter_def)
  show ?case
    using PSplit.prems ne by (cases ?rs) (auto simp: removeLeaf_split_cases Let_def split: list.splits)
qed

lemma removeLeaf_None: "removeLeaf t x = None \<longleftrightarrow> (\<forall>l \<in> set (listLeaves t). leaf_id l = x)"
proof (cases "removeLeaf t x")
  case None
  then show ?thesis
    using removeLeaf_leaves [of t x]
    by (auto simp: remove_leaves_def filter_empty_conv dest!: sym [of "[]"])
next
  case (Some r)
  then show ?thesis
    using removeLeaf_leaves [of t x] removeLeaf_nonempty [OF Some]
    by (auto simp: remove_leaves_def filter_empty_conv)
qed

lemma removeLeaf_Some_leaves:
  "removeLeaf t x = Some r \<Longrightarrow> listLeaves r = filter (\<lambda>l. leaf_id l \<noteq> x) (listLeaves t)"
  using removeLeaf_leaves [of t x] by (simp add: remove_leaves_def)

text \<open>
  Whatever the tree was, what is left has splits of at least two children with one size each, and
  the sizes of every split add up to 100.
\<close>

lemma removeLeaf_normal: "removeLeaf t x = Some r \<Longrightarrow> arity_ok r \<and> sizes_ok r"
proof (induction t arbitrary: r)
  case (PLeaf l)
  then show ?case by (auto split: if_splits)
next
  case (PSplit i d sz cs)
  let ?rs = "List.map_filter (\<lambda>c. removeLeaf c x) cs"
  let ?sv = "survivors sz (map (\<lambda>c. removeLeaf c x) cs)"
  have len: "length ?sv = length ?rs"
    by (simp add: length_survivors List.map_filter_def filter_map comp_def)
  have ok: "list_all arity_ok ?rs \<and> list_all sizes_ok ?rs"
    using PSplit.IH by (auto simp: List.map_filter_def list_all_iff)
  consider "?rs = []" | c where "?rs = [c]" | c c' cs' where "?rs = c # c' # cs'"
    by (metis list.exhaust)
  then show ?case
  proof cases
    case 3
    then have "?sv \<noteq> []" using len by auto
    moreover have "r = PSplit i d (rescale (map snd ?sv)) ?rs"
      using 3 PSplit.prems by (simp add: removeLeaf_split_cases Let_def)
    ultimately show ?thesis using 3 len ok by (simp add: sum_rescale)
  qed (use PSplit.prems ok in \<open>auto simp: removeLeaf_split_cases Let_def\<close>)
qed

lemma subseq_concat_filter:
  "(\<And>c. c \<in> set cs \<Longrightarrow> subseq (case f c of None \<Rightarrow> [] | Some r \<Rightarrow> g r) (g c)) \<Longrightarrow>
    subseq (concat (map g (List.map_filter f cs))) (concat (map g cs))"
proof (induction cs)
  case (Cons c cs)
  then have "subseq (concat (map g (List.map_filter f cs))) (concat (map g cs))" by simp
  with Cons.prems [of c] show ?case
    by (auto simp: List.map_filter_simps intro: list_emb_append_mono list_emb_append2
        split: option.splits)
qed (simp add: List.map_filter_simps)

lemma removeLeaf_ids:
  "subseq (case removeLeaf t x of None \<Rightarrow> [] | Some r \<Rightarrow> node_ids r) (node_ids t)"
proof (induction t)
  case (PSplit i d sz cs)
  let ?rs = "List.map_filter (\<lambda>c. removeLeaf c x) cs"
  have sub: "subseq (concat (map node_ids ?rs)) (concat (map node_ids cs))"
    using PSplit by (rule subseq_concat_filter)
  consider "?rs = []" | c where "?rs = [c]" | c c' cs' where "?rs = c # c' # cs'"
    by (metis list.exhaust)
  then show ?case
    using sub by cases (auto simp: removeLeaf_split_cases Let_def)
qed simp

lemma map_filter_eq: "List.map_filter f xs = map (the \<circ> f) (filter (\<lambda>x. f x \<noteq> None) xs)"
  by (simp add: List.map_filter_def)

lemma subseq_map_filter: "subseq xs ys \<Longrightarrow> subseq (List.map_filter f xs) (List.map_filter f ys)"
  by (simp only: map_filter_eq subseq_map subseq_filter)

lemma visible_removeLeaf:
  "removeLeaf t x = Some r \<Longrightarrow> subseq (listVisibleSessionIds r) (listVisibleSessionIds t)"
  by (simp only: visible_eq removeLeaf_Some_leaves) (rule subseq_map_filter, rule subseq_filter_left)

lemma tree_ok_removeLeaf:
  assumes "tree_ok t" "removeLeaf t x = Some r"
  shows "tree_ok r"
  using assms removeLeaf_normal [OF assms(2)] removeLeaf_ids [of t x] visible_removeLeaf [OF assms(2)]
  by (auto simp: tree_ok_def intro: subseq_distinctI)

lemma removeLeaf_all_kept:
  assumes rs: "map (\<lambda>c. removeLeaf c x) cs' = map Some cs"
    and "2 \<le> length cs" "length sz = length cs" "sum_list sz = 100"
  shows "removeLeaf (PSplit i d sz cs') x = Some (PSplit i d sz cs)"
proof -
  have sv: "survivors sz (map Some cs) = zip cs sz"
    using assms by (simp add: survivors_all)
  obtain c c' cs'' where cs: "cs = c # c' # cs''"
    using assms(2) by (cases cs rule: remdups_adj.cases) auto
  obtain s s' sz' where sz: "sz = s # s' # sz'"
    using assms(3) cs by (cases sz rule: remdups_adj.cases) auto
  have zs: "zip cs sz = (c, s) # (c', s') # zip cs'' sz'" and len: "length sz' = length cs''"
    using assms(3) by (simp_all add: cs sz)
  have "removeLeaf (PSplit i d sz cs') x =
      Some (PSplit i d (rescale (s # s' # map snd (zip cs'' sz'))) (c # c' # map fst (zip cs'' sz')))"
    by (simp only: removeLeaf.simps rs sv zs) simp
  then show ?thesis
    using assms(4) len by (simp add: cs sz rescale_id)
qed

text \<open>Removing an id no leaf has gives back the same tree, when its sizes already add up to 100.\<close>

lemma removeLeaf_absent:
  "x \<notin> set (leaf_ids t) \<Longrightarrow> arity_ok t \<Longrightarrow> sizes_ok t \<Longrightarrow> removeLeaf t x = Some t"
proof (induction t)
  case (PSplit i d sz cs)
  then have "map (\<lambda>c. removeLeaf c x) cs = map Some cs"
    by (auto simp: tree_simps list_all_iff)
  then show ?case
    using PSplit.prems by (intro removeLeaf_all_kept) auto
qed (simp add: tree_simps)

section \<open>Splitting a leaf\<close>

text \<open>\<open>replaceNode\<close> as a total substitution.\<close>

fun subst_node :: "string \<Rightarrow> panel_node \<Rightarrow> panel_node \<Rightarrow> panel_node" where
  "subst_node x rep (PLeaf l) = (if leaf_id l = x then rep else PLeaf l)"
| "subst_node x rep (PSplit i d sz cs) =
     (if i = x then rep else PSplit i d sz (map (subst_node x rep) cs))"

lemma subst_node_absent: "x \<notin> set (node_ids t) \<Longrightarrow> subst_node x rep t = t"
  by (induction t) (auto simp: map_fix_iff)

lemma map2_map_right: "map2 f xs (map g xs) = map (\<lambda>x. f x (g x)) xs"
  by (induction xs) auto

lemma replaceNode_eq:
  "replaceNode t x rep = (if x \<in> set (node_ids t) then Some (subst_node x rep t) else None)"
proof (induction t)
  case (PSplit i d sz cs)
  let ?rs = "map (\<lambda>c. replaceNode c x rep) cs"
  have ex: "list_ex (\<lambda>r. r \<noteq> None) ?rs \<longleftrightarrow> x \<in> set (concat (map node_ids cs))"
    using PSplit by (auto simp: list_ex_iff)
  have ch: "map2 (\<lambda>c r. case r of Some y \<Rightarrow> y | None \<Rightarrow> c) cs ?rs = map (subst_node x rep) cs"
    unfolding map2_map_right using PSplit by (auto simp: subst_node_absent)
  show ?case
    by (simp only: replaceNode.simps Let_def ex ch) auto
qed simp

lemma concat_map_nested:
  "concat (map f (concat (map g cs))) = concat (map (\<lambda>c. concat (map f (g c))) cs)"
  by (induction cs) auto

lemma subst_leaves:
  "x \<notin> set (split_ids t) \<Longrightarrow>
    listLeaves (subst_node x rep t) =
      concat (map (\<lambda>l. if leaf_id l = x then listLeaves rep else [l]) (listLeaves t))"
proof (induction t)
  case (PSplit i d sz cs)
  then have "map (\<lambda>c. listLeaves (subst_node x rep c)) cs =
      map (\<lambda>c. concat (map (\<lambda>l. if leaf_id l = x then listLeaves rep else [l]) (listLeaves c))) cs"
    by auto
  then show ?case
    using PSplit.prems by (auto simp: concat_map_nested comp_def cong: map_cong)
qed simp

lemma subst_node_ids:
  "x \<notin> set (split_ids t) \<Longrightarrow>
    node_ids (subst_node x rep t) =
      concat (map (\<lambda>j. if j = x then node_ids rep else [j]) (node_ids t))"
proof (induction t)
  case (PSplit i d sz cs)
  then have "map (\<lambda>c. node_ids (subst_node x rep c)) cs =
      map (\<lambda>c. concat (map (\<lambda>j. if j = x then node_ids rep else [j]) (node_ids c))) cs"
    by auto
  then show ?case
    using PSplit.prems by (auto simp: concat_map_nested comp_def cong: map_cong)
qed simp

lemma subst_arity: "arity_ok t \<Longrightarrow> arity_ok rep \<Longrightarrow> arity_ok (subst_node x rep t)"
  by (induction t) (auto simp: list_all_iff)

lemma distinct_concat_subst:
  assumes "distinct xs" "distinct ys" "\<And>y. y \<in> set ys \<Longrightarrow> y \<in> set xs \<Longrightarrow> y = x"
  shows "distinct (concat (map (\<lambda>j. if j = x then ys else [j]) xs))"
  using assms
proof (induction xs)
  case (Cons j xs)
  have "set (concat (map (\<lambda>j. if j = x then ys else [j]) xs)) \<subseteq> (set xs - {x}) \<union> (if x \<in> set xs then set ys else {})"
    by (auto split: if_splits)
  then show ?case
    using Cons by (auto split: if_splits)
qed simp

text \<open>In a list with distinct ids, replacing the element with a given id changes one place.\<close>

lemma concat_subst_at:
  assumes "distinct (map leaf_id (xs @ (l :: panel_leaf) # ys))"
  shows "concat (map (\<lambda>m. if leaf_id m = leaf_id l then zs else [m]) (xs @ l # ys)) = xs @ zs @ ys"
proof -
  have "concat (map (\<lambda>m. if leaf_id m = leaf_id l then zs else [m]) us) = us"
    if "leaf_id l \<notin> leaf_id ` set us" for us :: "panel_leaf list"
    using that by (induction us) auto
  then show ?thesis using assms by auto
qed

definition pair_leaves :: "split_placement \<Rightarrow> panel_leaf \<Rightarrow> panel_leaf \<Rightarrow> panel_leaf list" where
  "pair_leaves p new target =
     (case p of Before \<Rightarrow> [new, target] | After \<Rightarrow> [target, new])"

definition split_replacement ::
    "string \<Rightarrow> split_direction \<Rightarrow> split_placement \<Rightarrow> panel_leaf \<Rightarrow> panel_leaf \<Rightarrow> panel_node" where
  "split_replacement sid d p new target =
     PSplit sid d [50, 50] (map PLeaf (pair_leaves p new target))"

lemma node_ids_leaf_mem: "findLeafById t i = Some l \<Longrightarrow> i \<in> set (node_ids t)"
  using findLeafById_None [of t i] by (auto simp: set_node_ids)

text \<open>The result of \<open>splitLeaf\<close> in closed form.\<close>

lemma splitLeaf_eq:
  assumes "findLeafById t i = Some target"
  shows "splitLeaf rnd t i d p None c =
    (let nid = fst (nextPanelId rnd ''leaf'' c); sid = fst (nextPanelId rnd ''split'' (c + 1))
     in (Some (subst_node i (split_replacement sid d p \<lparr>leaf_id = nid, leaf_session = None\<rparr> target) t,
               nid), c + 2))"
  using assms node_ids_leaf_mem [OF assms]
  by (cases p) (simp_all add: splitLeaf_def createLeaf_def createSplit_def nextPanelId_def Let_def
      replaceNode_eq split_replacement_def pair_leaves_def)

lemma splitLeaf_None: "findLeafById t i = None \<Longrightarrow> splitLeaf rnd t i d p n c = (None, c)"
  by (simp add: splitLeaf_def)

lemma tree_ok_findLeaf:
  assumes "tree_ok t" "findLeafById t i = Some target"
  shows "leaf_id target = i" "i \<in> set (leaf_ids t)" "i \<notin> set (split_ids t)"
proof -
  show "leaf_id target = i" using findLeafById_SomeD [OF assms(2)] by simp
  show *: "i \<in> set (leaf_ids t)" using findLeafById_None [of t i] assms(2) by auto
  show "i \<notin> set (split_ids t)" using leaf_split_disjoint * assms(1) by (simp add: tree_ok_def)
qed

lemma split_leaves:
  assumes ok: "tree_ok t" and target: "findLeafById t i = Some target"
    and at: "listLeaves t = xs @ target # ys"
  shows "listLeaves (subst_node i (split_replacement sid d p new target) t) =
    xs @ pair_leaves p new target @ ys"
proof -
  have "concat (map listLeaves (map PLeaf ls)) = ls" for ls
    by (induction ls) auto
  then have "listLeaves (split_replacement sid d p new target) = pair_leaves p new target"
    by (simp add: split_replacement_def)
  then show ?thesis
    using concat_subst_at [of xs target ys "pair_leaves p new target"]
      tree_ok_leaf_ids [OF ok] tree_ok_findLeaf [OF ok target]
    by (simp add: subst_leaves leaf_ids_def at cong: if_cong)
qed

lemma split_leaves_ex:
  assumes "tree_ok t" "findLeafById t i = Some target"
  obtains xs ys where "listLeaves t = xs @ target # ys"
    and "\<And>sid d p new. listLeaves (subst_node i (split_replacement sid d p new target) t) =
      xs @ pair_leaves p new target @ ys"
proof -
  obtain xs ys where "listLeaves t = xs @ target # ys"
    using findLeafById_SomeD [OF assms(2)] by (meson split_list)
  with split_leaves [OF assms this] that show thesis by blast
qed

lemma tree_ok_split:
  assumes ok: "tree_ok t" and target: "findLeafById t i = Some target"
    and fresh: "leaf_id new \<notin> set (node_ids t)" "sid \<notin> set (node_ids t)" "sid \<noteq> leaf_id new"
    and empty: "leaf_session new = None"
  shows "tree_ok (subst_node i (split_replacement sid d p new target) t)"
proof -
  let ?rep = "split_replacement sid d p new target"
  have i: "leaf_id target = i" "i \<in> set (leaf_ids t)" "i \<notin> set (split_ids t)"
    by (rule tree_ok_findLeaf [OF ok target])+
  have "i \<in> set (node_ids t)" using i by (simp add: set_node_ids)
  then have ids: "distinct (node_ids ?rep)"
      "\<And>y. y \<in> set (node_ids ?rep) \<Longrightarrow> y \<in> set (node_ids t) \<Longrightarrow> y = i"
    using i fresh by (cases p; auto simp: split_replacement_def pair_leaves_def)+
  have "arity_ok ?rep"
    by (cases p) (auto simp: split_replacement_def pair_leaves_def)
  moreover have "distinct (node_ids (subst_node i ?rep t))"
    unfolding subst_node_ids [OF i(3)]
    by (rule distinct_concat_subst) (use ok ids in \<open>auto simp: tree_ok_def\<close>)
  moreover have "listVisibleSessionIds (subst_node i ?rep t) = listVisibleSessionIds t"
  proof -
    obtain xs ys where "listLeaves t = xs @ target # ys"
      "listLeaves (subst_node i ?rep t) = xs @ pair_leaves p new target @ ys"
      using split_leaves_ex [OF ok target] by metis
    then show ?thesis
      using empty by (cases p)
        (simp_all add: visible_eq map_filter_eq pair_leaves_def)
  qed
  ultimately show ?thesis
    using ok by (simp add: tree_ok_def subst_arity)
qed

text \<open>Closing a panel that was just split off gives back the tree.\<close>

lemma remove_split:
  assumes "arity_ok t" "sizes_ok t" "x \<notin> set (node_ids t)" "leaf_id target \<noteq> x" "leaf_id new = x"
    and "distinct (leaf_ids t)" "findLeafById t i = Some target" "i \<notin> set (split_ids t)"
  shows "removeLeaf (subst_node i (split_replacement sid d p new target) t) x = Some t"
  using assms
proof (induction t)
  case (PLeaf l)
  then have "l = target" "leaf_id l = i" by (auto split: if_splits)
  with PLeaf.prems show ?case
    by (cases p) (simp_all add: split_replacement_def pair_leaves_def removeLeaf.simps)
next
  case (PSplit j d' sz cs)
  let ?rep = "split_replacement sid d p new target"
  have kept: "removeLeaf (subst_node i ?rep c) x = Some c" if c: "c \<in> set cs" for c
  proof (cases "i \<in> set (leaf_ids c)")
    case True
    obtain l where l: "findLeafById c i = Some l"
      using True findLeafById_None by blast
    then have "l \<in> set (listLeaves (PSplit j d' sz cs))" "leaf_id l = i"
      using c by (auto dest: findLeafById_SomeD)
    then have "l = target"
      using findLeafById_mem [OF PSplit.prems(6)] PSplit.prems(7) by fastforce
    moreover have "distinct (leaf_ids c)"
      using PSplit.prems(6) c by (auto simp: tree_simps distinct_concat_iff)
    ultimately show ?thesis
      using PSplit.IH [OF c] PSplit.prems l c by (auto simp: list_all_iff)
  next
    case False
    moreover have "i \<notin> set (split_ids c)" using PSplit.prems(8) c by auto
    ultimately have "subst_node i ?rep c = c"
      by (intro subst_node_absent) (simp add: set_node_ids)
    moreover have "x \<notin> set (leaf_ids c)" "arity_ok c" "sizes_ok c"
      using PSplit.prems(1-3) c by (auto simp: set_node_ids list_all_iff)
    ultimately show ?thesis by (simp add: removeLeaf_absent)
  qed
  have "removeLeaf (PSplit j d' sz (map (subst_node i ?rep) cs)) x = Some (PSplit j d' sz cs)"
    using kept PSplit.prems(1,2) by (intro removeLeaf_all_kept) auto
  then show ?case using PSplit.prems(8) by auto
qed

end
