(* ===== verification/PanelPersistence.thy ===== *)
theory PanelPersistence
  imports PanelSplit
begin

text \<open>
  \<open>frontend/src/lib/panelPersistence.ts\<close> and the validator \<open>isValidPanelNode\<close> of
  \<open>frontend/src/lib/panelLayout.ts\<close>: layouts saved in the browser's \<open>localStorage\<close> and restored at
  start-up, pruned against the sessions that still exist.

  A parsed document is a value of type \<open>json\<close>. The text itself is not modelled, because the decimal
  rendering of a double has no counterpart over the rationals: \<open>JSON.stringify\<close> and \<open>JSON.parse\<close>
  are the parameters \<open>stringify\<close> and \<open>parse\<close> (\<open>None\<close>: a SyntaxError), and a theorem that needs it
  assumes that parsing what was stringified gives the document back.
\<close>

section \<open>JSON values\<close>

datatype js_number = Finite rat | PosInfinity | NegInfinity

datatype json =
    JNull
  | JBool bool
  | JNum js_number
  | JString string
  | JArray "json list"
  | JObject "json obj"

text \<open>Reading a property (\<open>None\<close>: \<open>undefined\<close>); only objects have the properties read below.\<close>

definition jprop :: "json \<Rightarrow> string \<Rightarrow> json option" where
  "jprop v k = (case v of JObject m \<Rightarrow> map_of m k | _ \<Rightarrow> None)"

definition json_truthy :: "json \<Rightarrow> bool" where
  "json_truthy v =
     (case v of JNull \<Rightarrow> False | JBool b \<Rightarrow> b | JNum n \<Rightarrow> n \<noteq> Finite 0 | JString s \<Rightarrow> s \<noteq> []
      | JArray xs \<Rightarrow> True | JObject m \<Rightarrow> True)"

definition typeof_object :: "json \<Rightarrow> bool" where
  "typeof_object v = (case v of JNull \<Rightarrow> True | JArray xs \<Rightarrow> True | JObject m \<Rightarrow> True | _ \<Rightarrow> False)"

text \<open>\<open>Object.entries\<close> of any truthy value.\<close>

definition json_entries :: "json \<Rightarrow> (string \<times> json) list" where
  "json_entries v =
     (case v of
        JObject m \<Rightarrow> obj_entries m
      | JArray xs \<Rightarrow> map (\<lambda>(i, x). (dec i, x)) (enumerate 0 xs)
      | JString s \<Rightarrow> map (\<lambda>(i, c). (dec i, JString [c])) (enumerate 0 s)
      | _ \<Rightarrow> [])"

definition is_string :: "json option \<Rightarrow> bool" where
  "is_string v = (case v of Some (JString s) \<Rightarrow> True | _ \<Rightarrow> False)"

definition is_finite_number :: "json \<Rightarrow> bool" where
  "is_finite_number v = (case v of JNum (Finite r) \<Rightarrow> True | _ \<Rightarrow> False)"

lemma size_jprop:
  assumes "jprop v k = Some x"
  shows "size x < size v"
proof -
  obtain m where v: "v = JObject m" and m: "(k, x) \<in> set m"
    using assms by (auto simp: jprop_def split: json.splits dest!: map_of_SomeD)
  have "size x \<le> size_list (size_prod (\<lambda>_. 0) size) m"
    by (rule size_list_estimation' [OF m]) simp
  then show ?thesis by (simp add: v)
qed

section \<open>Validation\<close>

function isValidPanelNode :: "json \<Rightarrow> bool" where
  "isValidPanelNode value =
     (if \<not> json_truthy value \<or> \<not> typeof_object value then False
      else if jprop value ''kind'' = Some (JString ''leaf'') then
        is_string (jprop value ''id'') \<and>
        (jprop value ''sessionId'' = Some JNull \<or> is_string (jprop value ''sessionId''))
      else if jprop value ''kind'' = Some (JString ''split'') then
        is_string (jprop value ''id'') \<and>
        (jprop value ''direction'' = Some (JString ''row'') \<or>
         jprop value ''direction'' = Some (JString ''column'')) \<and>
        (case jprop value ''children'' of
           Some (JArray children) \<Rightarrow>
             2 \<le> length children \<and> list_all isValidPanelNode children \<and>
             (case jprop value ''sizes'' of
                Some (JArray sizes) \<Rightarrow>
                  length sizes = length children \<and> list_all is_finite_number sizes
              | _ \<Rightarrow> False)
         | _ \<Rightarrow> False)
      else False)"
  by pat_completeness auto
termination
proof (relation "measure size")
  fix v v2 children z
  assume "jprop v ''children'' = Some v2" "v2 = JArray children" "z \<in> set children"
  then have "size v2 < size v" "size z < size v2"
    using size_jprop [of v "''children''" v2]
    by (auto simp: less_Suc_eq_le intro: size_list_estimation')
  then show "(z, v) \<in> measure size" by simp
qed simp

declare isValidPanelNode.simps [simp del]

text \<open>
  What TypeScript reads a validated value as: the node whose fields are the value's properties
  (\<open>None\<close> where the value is not such a node).
\<close>

definition json_number :: "json \<Rightarrow> rat" where
  "json_number v = (case v of JNum (Finite r) \<Rightarrow> r | _ \<Rightarrow> 0)"

definition json_string :: "json option \<Rightarrow> string" where
  "json_string v = (case v of Some (JString s) \<Rightarrow> s | _ \<Rightarrow> [])"

definition json_items :: "json option \<Rightarrow> json list" where
  "json_items v = (case v of Some (JArray xs) \<Rightarrow> xs | _ \<Rightarrow> [])"

definition json_direction :: "json option \<Rightarrow> split_direction" where
  "json_direction v = (if v = Some (JString ''row'') then Row else Column)"

definition json_session :: "json option \<Rightarrow> string option" where
  "json_session v = (case v of Some (JString s) \<Rightarrow> Some s | _ \<Rightarrow> None)"

function as_node :: "json \<Rightarrow> panel_node" where
  "as_node v =
     (if jprop v ''kind'' = Some (JString ''split'') then
        PSplit (json_string (jprop v ''id'')) (json_direction (jprop v ''direction''))
          (map json_number (json_items (jprop v ''sizes'')))
          (map as_node (json_items (jprop v ''children'')))
      else
        PLeaf \<lparr>leaf_id = json_string (jprop v ''id''), leaf_session = json_session (jprop v ''sessionId'')\<rparr>)"
  by pat_completeness auto
termination
proof (relation "measure size")
  fix v z
  assume "z \<in> set (json_items (jprop v ''children''))"
  then obtain xs where xs: "jprop v ''children'' = Some (JArray xs)" "z \<in> set xs"
    by (cases "jprop v ''children''"; cases "the (jprop v ''children'')")
      (auto simp: json_items_def)
  have "size (JArray xs) < size v" using xs(1) by (rule size_jprop)
  moreover have "size z < size (JArray xs)"
    using xs(2) by (auto simp: less_Suc_eq_le intro: size_list_estimation')
  ultimately show "(z, v) \<in> measure size" by simp
qed simp

declare as_node.simps [simp del]

section \<open>Storage\<close>

text \<open>
  \<open>localStorage\<close>: not defined at all, present but throwing on every access (blocked by the browser),
  or working; a working one may be over quota, and then \<open>setItem\<close> throws.
\<close>

datatype storage = NoStorage | Blocked | Working (full: bool) (items: "string obj")

definition layout_key :: string where
  "layout_key = ''mansio.panelLayout.v1''"

record persisted_layout =
  pl_layout :: panel_node
  pl_focused :: string

type_synonym persisted_layouts = "persisted_layout obj"

definition accept_entry :: "json \<Rightarrow> persisted_layout option" where
  "accept_entry entry =
     (if json_truthy entry \<and> typeof_object entry
         \<and> (case jprop entry ''layout'' of None \<Rightarrow> False | Some l \<Rightarrow> isValidPanelNode l)
         \<and> is_string (jprop entry ''focusedPanelId'')
      then Some \<lparr>pl_layout = as_node (the (jprop entry ''layout'')),
                 pl_focused = json_string (jprop entry ''focusedPanelId'')\<rparr>
      else None)"

definition parsed_layouts :: "json \<Rightarrow> persisted_layouts" where
  "parsed_layouts parsed =
     (if \<not> json_truthy parsed \<or> jprop parsed ''version'' \<noteq> Some (JNum (Finite 1)) then []
      else case jprop parsed ''workspaces'' of
             None \<Rightarrow> []
           | Some ws \<Rightarrow>
               if \<not> json_truthy ws then []
               else fold (\<lambda>(wid, entry) out.
                      case accept_entry entry of None \<Rightarrow> out | Some e \<Rightarrow> obj_set wid e out)
                    (json_entries ws) [])"

definition loadLayouts :: "(string \<Rightarrow> json option) \<Rightarrow> storage \<Rightarrow> persisted_layouts" where
  "loadLayouts parse st =
     (case st of
        NoStorage \<Rightarrow> []
      | Blocked \<Rightarrow> []
      | Working f m \<Rightarrow>
          (let raw = map_of m layout_key in
           if \<not> truthy raw then []
           else case parse (the raw) of None \<Rightarrow> [] | Some parsed \<Rightarrow> parsed_layouts parsed))"

fun json_of_node :: "panel_node \<Rightarrow> json" where
  "json_of_node (PLeaf l) =
     JObject [(''kind'', JString ''leaf''), (''id'', JString (leaf_id l)),
       (''sessionId'', case leaf_session l of None \<Rightarrow> JNull | Some s \<Rightarrow> JString s)]"
| "json_of_node (PSplit i d sz cs) =
     JObject [(''kind'', JString ''split''), (''id'', JString i),
       (''direction'', JString (case d of Row \<Rightarrow> ''row'' | Column \<Rightarrow> ''column'')),
       (''children'', JArray (map json_of_node cs)),
       (''sizes'', JArray (map (\<lambda>s. JNum (Finite s)) sz))]"

definition layouts_file :: "persisted_layouts \<Rightarrow> json" where
  "layouts_file layouts =
     JObject [(''version'', JNum (Finite 1)),
       (''workspaces'', JObject (map (\<lambda>(wid, e).
          (wid, JObject [(''layout'', json_of_node (pl_layout e)),
                         (''focusedPanelId'', JString (pl_focused e))])) layouts))]"

definition saveLayouts :: "(json \<Rightarrow> string) \<Rightarrow> persisted_layouts \<Rightarrow> storage \<Rightarrow> storage" where
  "saveLayouts stringify layouts st =
     (case st of
        NoStorage \<Rightarrow> NoStorage
      | Blocked \<Rightarrow> Blocked
      | Working f m \<Rightarrow>
          if f then Working f m
          else Working f (obj_set layout_key (stringify (layouts_file layouts)) m))"

definition clearStoredLayouts :: "storage \<Rightarrow> storage" where
  "clearStoredLayouts st =
     (case st of NoStorage \<Rightarrow> NoStorage | Blocked \<Rightarrow> Blocked
      | Working f m \<Rightarrow> Working f (obj_del layout_key m))"

section \<open>Restoring a layout against the live sessions\<close>

definition reconcileLayout :: "persisted_layout \<Rightarrow> string set \<Rightarrow> persisted_layout option" where
  "reconcileLayout saved validSessionIds =
     (let layout = fst (pruneSessionIds (pl_layout saved) validSessionIds)
      in if findLeafById layout (pl_focused saved) \<noteq> None
         then Some \<lparr>pl_layout = layout, pl_focused = pl_focused saved\<rparr>
         else case firstLeaf layout of
                None \<Rightarrow> None
              | Some l \<Rightarrow> Some \<lparr>pl_layout = layout, pl_focused = leaf_id l\<rparr>)"

section \<open>What validation guarantees\<close>

lemma jprop_JObject [simp]: "jprop (JObject m) k = map_of m k"
  by (simp add: jprop_def)

lemma json_items_JArray [simp]: "json_items (Some (JArray xs)) = xs"
  by (simp add: json_items_def)

lemma valid_split_children:
  assumes "isValidPanelNode v" "jprop v ''kind'' = Some (JString ''split'')"
  obtains cs sz where "jprop v ''children'' = Some (JArray cs)" "2 \<le> length cs"
    "list_all isValidPanelNode cs" "jprop v ''sizes'' = Some (JArray sz)" "length sz = length cs"
    "list_all is_finite_number sz"
proof -
  note v = assms(1) [unfolded isValidPanelNode.simps [of v]]
  have c: "case jprop v ''children'' of
           Some (JArray children) \<Rightarrow>
             2 \<le> length children \<and> list_all isValidPanelNode children \<and>
             (case jprop v ''sizes'' of
                Some (JArray sizes) \<Rightarrow>
                  length sizes = length children \<and> list_all is_finite_number sizes
              | _ \<Rightarrow> False)
         | _ \<Rightarrow> False"
    using v assms(2) by (simp split: if_splits)
  then show thesis
    using that
    by (cases "jprop v ''children''"; cases "the (jprop v ''children'')";
        cases "jprop v ''sizes''"; cases "the (jprop v ''sizes'')") simp_all
qed

lemma valid_arity: "isValidPanelNode v \<Longrightarrow> arity_ok (as_node v)"
proof (induction v rule: as_node.induct)
  case (1 v)
  show ?case
  proof (cases "jprop v ''kind'' = Some (JString ''split'')")
    case True
    with "1.prems" obtain cs sz where cs: "jprop v ''children'' = Some (JArray cs)" "2 \<le> length cs"
        "list_all isValidPanelNode cs" "jprop v ''sizes'' = Some (JArray sz)" "length sz = length cs"
      by (rule valid_split_children)
    have "list_all arity_ok (map as_node cs)"
      using "1.IH" [OF True] cs by (auto simp: list_all_iff)
    with cs True show ?thesis by (subst as_node.simps) simp
  next
    case False
    then show ?thesis by (subst as_node.simps) simp
  qed
qed

lemma valid_json_of_node: "isValidPanelNode (json_of_node t) \<longleftrightarrow> arity_ok t"
proof (induction t)
  case (PLeaf l)
  then show ?case
    by (subst isValidPanelNode.simps)
      (cases "leaf_session l"; simp add: json_truthy_def typeof_object_def is_string_def)
next
  case (PSplit i d sz cs)
  have "list_all is_finite_number (map (\<lambda>s. JNum (Finite s)) sz)"
    by (simp add: list_all_iff is_finite_number_def)
  moreover have "list_all isValidPanelNode (map json_of_node cs) \<longleftrightarrow> list_all arity_ok cs"
    using PSplit by (simp add: list_all_iff)
  ultimately show ?case
    by (subst isValidPanelNode.simps)
      (cases d; auto simp: json_truthy_def typeof_object_def is_string_def)
qed

lemma as_node_json_of_node: "as_node (json_of_node t) = t"
proof (induction t)
  case (PLeaf l)
  then show ?case
    by (subst as_node.simps) (cases "leaf_session l"; simp add: json_string_def json_session_def)
next
  case (PSplit i d sz cs)
  then have "map as_node (map json_of_node cs) = cs"
    by (simp add: map_fix_iff)
  then show ?case
    by (subst as_node.simps)
      (cases d; simp add: json_string_def json_direction_def json_number_def comp_def)
qed

section \<open>Loading and saving\<close>

lemma fold_entries_P:
  assumes "\<And>w e. map_of out w = Some e \<Longrightarrow> P e"
    and "\<And>x e. accept x = Some e \<Longrightarrow> P e"
    and "map_of (fold (\<lambda>(wid, x) out. case accept x of None \<Rightarrow> out | Some e \<Rightarrow> obj_set wid e out)
           xs out) w = Some e"
  shows "P e"
  using assms
proof (induction xs arbitrary: out)
  case (Cons a xs)
  obtain k x where a: "a = (k, x)" by (cases a)
  let ?out = "case accept x of None \<Rightarrow> out | Some e \<Rightarrow> obj_set k e out"
  have "P e'" if "map_of ?out w' = Some e'" for w' e'
    using that Cons.prems(1,2) by (auto split: option.splits if_splits)
  then show ?case
    using Cons.IH [of ?out] Cons.prems(2,3) by (simp add: a)
qed simp

lemma fold_entries_map_of:
  assumes "distinct (map fst xs)"
  shows "map_of (fold (\<lambda>(wid, x) out. case accept x of None \<Rightarrow> out | Some e \<Rightarrow> obj_set wid e out)
      xs out) k =
    (case Option.bind (map_of xs k) accept of None \<Rightarrow> map_of out k | Some e \<Rightarrow> Some e)"
  using assms
proof (induction xs arbitrary: out)
  case (Cons a xs)
  obtain j x where a: "a = (j, x)" by (cases a)
  have "map_of xs j = None" if "j = k"
    using Cons.prems by (auto simp: a map_of_eq_None_iff)
  with Cons show ?case
    by (auto simp: a split: option.splits)
qed simp

lemma loadLayouts_arity:
  assumes "map_of (loadLayouts parse st) w = Some e"
  shows "arity_ok (pl_layout e)"
proof -
  have acc: "arity_ok (pl_layout e)" if "accept_entry x = Some e" for x e
    using that by (auto simp: accept_entry_def valid_arity split: if_splits option.splits)
  have "arity_ok (pl_layout e)" if "map_of (parsed_layouts j) w = Some e" for j
    using that acc fold_entries_P [where P = "\<lambda>e. arity_ok (pl_layout e)" and out = "[]" and accept = accept_entry]
    by (auto simp: parsed_layouts_def split: if_splits option.splits)
  with assms show ?thesis
    by (auto simp: loadLayouts_def Let_def split: storage.splits if_splits option.splits)
qed

lemma parsed_layouts_file:
  assumes "distinct (map fst ls)" "\<And>w e. (w, e) \<in> set ls \<Longrightarrow> arity_ok (pl_layout e)"
  shows "map_of (parsed_layouts (layouts_file ls)) = map_of ls"
proof
  fix k
  let ?f = "\<lambda>e. JObject [(''layout'', json_of_node (pl_layout e)), (''focusedPanelId'', JString (pl_focused e))]"
  let ?m = "map (\<lambda>(wid, e). (wid, ?f e)) ls"
  have keys: "map fst ?m = map fst ls" by (induction ls) auto
  have get: "map_of (obj_entries ?m) k = map_option ?f (map_of ls k)"
    using assms(1) keys by (simp only: map_of_obj_entries map_of_map comp_apply)
  have acc: "accept_entry (?f e) = Some e" if "arity_ok (pl_layout e)" for e :: persisted_layout
    using that
    by (simp add: accept_entry_def json_truthy_def typeof_object_def valid_json_of_node
        as_node_json_of_node is_string_def json_string_def)
  have "distinct (obj_keys ?m)"
    using assms(1) by (simp only: distinct_obj_keys keys)
  then have d: "distinct (map fst (obj_entries ?m))"
    by (simp only: obj_keys_def)
  have "parsed_layouts (layouts_file ls) =
      fold (\<lambda>(wid, x) out. case accept_entry x of None \<Rightarrow> out | Some e \<Rightarrow> obj_set wid e out)
        (obj_entries ?m) []"
    by (simp add: parsed_layouts_def layouts_file_def json_truthy_def json_entries_def)
  then have "map_of (parsed_layouts (layouts_file ls)) k =
      (case Option.bind (map_of (obj_entries ?m) k) accept_entry of None \<Rightarrow> None | Some e \<Rightarrow> Some e)"
    by (simp only: fold_entries_map_of [OF d] map_of.simps)
  also have "\<dots> = map_of ls k"
    using get acc assms(2) by (cases "map_of ls k") (auto dest!: map_of_SomeD)
  finally show "map_of (parsed_layouts (layouts_file ls)) k = map_of ls k" .
qed

lemma load_save:
  assumes "distinct (map fst ls)" "\<And>w e. (w, e) \<in> set ls \<Longrightarrow> arity_ok (pl_layout e)"
    and "stringify (layouts_file ls) \<noteq> []"
    and "parse (stringify (layouts_file ls)) = Some (layouts_file ls)"
  shows "map_of (loadLayouts parse (saveLayouts stringify ls (Working False m))) = map_of ls"
  using assms by (simp add: loadLayouts_def saveLayouts_def parsed_layouts_file)

section \<open>Reconciling\<close>

lemma reconcile_Some:
  assumes "arity_ok (pl_layout saved)"
  shows "\<exists>r. reconcileLayout saved V = Some r \<and>
    pl_layout r = map_leaves (keep_sessions V) (pl_layout saved) \<and>
    pl_focused r \<in> set (leaf_ids (pl_layout r))"
proof -
  let ?t = "map_leaves (keep_sessions V) (pl_layout saved)"
  have ok: "arity_ok ?t" using assms by simp
  have "leaf_id (hd (listLeaves ?t)) \<in> set (leaf_ids ?t)"
    using arity_ok_leaves [OF ok] by (simp only: leaf_ids_def set_map) (meson hd_in_set imageI)
  then show ?thesis
    using firstLeaf_hd [OF ok] findLeafById_None [of ?t "pl_focused saved"]
    by (auto simp: reconcileLayout_def Let_def pruneSessionIds_eq simp del: prune.rewrite_shape)
qed

end
