(* ===== verification/Theming.thy ===== *)
theory Theming
  imports PanelPersistence
begin

text \<open>
  Colours: \<open>frontend/src/lib/theme.ts\<close> (the palettes and the mode cycle), \<open>frontend/src/lib/contrast.ts\<close>
  (the WCAG contrast ratio), \<open>frontend/src/stores/themeStore.ts\<close> (the stored mode) and the values
  \<open>frontend/src/hooks/useEffectiveTheme.ts\<close> derives from them. Luminances are real numbers; the program
  approximates them with doubles.
\<close>

section \<open>Palettes\<close>

datatype theme_mode = SystemMode | LightMode | DarkMode

datatype effective_theme = LightTheme | DarkTheme

record ui_colors =
  ui_appBg :: string
  ui_sidebarBg :: string
  ui_sidebarBorder :: string
  ui_tabBarBg :: string
  ui_tabActiveBg :: string
  ui_tabInactiveBg :: string
  ui_tabBorder :: string
  ui_textPrimary :: string
  ui_textSecondary :: string
  ui_textMuted :: string
  ui_accent :: string
  ui_danger :: string
  ui_warning :: string
  ui_terminalBg :: string
  ui_overlayBg :: string
  ui_hoverBg :: string
  ui_dropOverlayBg :: string
  ui_dropOverlayBorder :: string
  ui_dropOverlayText :: string
  ui_metaThemeColor :: string

record term_theme =
  tt_background :: string
  tt_foreground :: string
  tt_cursor :: string
  tt_cursorAccent :: string
  tt_selectionBackground :: string
  tt_selectionForeground :: string
  tt_black :: string
  tt_red :: string
  tt_green :: string
  tt_yellow :: string
  tt_blue :: string
  tt_magenta :: string
  tt_cyan :: string
  tt_white :: string
  tt_brightBlack :: string
  tt_brightRed :: string
  tt_brightGreen :: string
  tt_brightYellow :: string
  tt_brightBlue :: string
  tt_brightMagenta :: string
  tt_brightCyan :: string
  tt_brightWhite :: string

definition darkUI :: ui_colors where
  "darkUI = \<lparr>
     ui_appBg = ''#0d1117'', ui_sidebarBg = ''#010409'',
     ui_sidebarBorder = ''#21262d'', ui_tabBarBg = ''#0d1117'',
     ui_tabActiveBg = ''#161b22'', ui_tabInactiveBg = ''#0d1117'',
     ui_tabBorder = ''#21262d'', ui_textPrimary = ''#c9d1d9'',
     ui_textSecondary = ''#8b949e'', ui_textMuted = ''#484f58'',
     ui_accent = ''#58a6ff'', ui_danger = ''#ff7b72'',
     ui_warning = ''#e3b341'', ui_terminalBg = ''#0d1117'',
     ui_overlayBg = ''rgba(0, 0, 0, 0.65)'', ui_hoverBg = ''rgba(255, 255, 255, 0.06)'',
     ui_dropOverlayBg = ''rgba(126, 20, 255, 0.22)'', ui_dropOverlayBorder = ''#a274ff'',
     ui_dropOverlayText = ''#f0e9ff'', ui_metaThemeColor = ''#0d1117''\<rparr>"

definition lightUI :: ui_colors where
  "lightUI = \<lparr>
     ui_appBg = ''#ffffff'', ui_sidebarBg = ''#f6f8fa'',
     ui_sidebarBorder = ''#d0d7de'', ui_tabBarBg = ''#ffffff'',
     ui_tabActiveBg = ''#ffffff'', ui_tabInactiveBg = ''#f6f8fa'',
     ui_tabBorder = ''#d0d7de'', ui_textPrimary = ''#1f2328'',
     ui_textSecondary = ''#59636e'', ui_textMuted = ''#818b98'',
     ui_accent = ''#0969da'', ui_danger = ''#cf222e'',
     ui_warning = ''#7d4e00'', ui_terminalBg = ''#ffffff'',
     ui_overlayBg = ''rgba(0, 0, 0, 0.45)'', ui_hoverBg = ''rgba(0, 0, 0, 0.06)'',
     ui_dropOverlayBg = ''rgba(105, 33, 255, 0.10)'', ui_dropOverlayBorder = ''#6639ba'',
     ui_dropOverlayText = ''#3a1a78'', ui_metaThemeColor = ''#f6f8fa''\<rparr>"

definition darkTerminalTheme :: term_theme where
  "darkTerminalTheme = \<lparr>
     tt_background = ''#0d1117'', tt_foreground = ''#c9d1d9'',
     tt_cursor = ''#58a6ff'', tt_cursorAccent = ''#0d1117'',
     tt_selectionBackground = ''#264f78'', tt_selectionForeground = ''#ffffff'',
     tt_black = ''#7d8590'', tt_red = ''#ff7b72'',
     tt_green = ''#3fb950'', tt_yellow = ''#d29922'',
     tt_blue = ''#58a6ff'', tt_magenta = ''#bc8cff'',
     tt_cyan = ''#39d2c0'', tt_white = ''#c9d1d9'',
     tt_brightBlack = ''#9da7b3'', tt_brightRed = ''#ffa198'',
     tt_brightGreen = ''#56d364'', tt_brightYellow = ''#e3b341'',
     tt_brightBlue = ''#79c0ff'', tt_brightMagenta = ''#d2a8ff'',
     tt_brightCyan = ''#56d4dd'', tt_brightWhite = ''#f0f6fc''\<rparr>"

definition lightTerminalTheme :: term_theme where
  "lightTerminalTheme = \<lparr>
     tt_background = ''#ffffff'', tt_foreground = ''#1f2328'',
     tt_cursor = ''#0969da'', tt_cursorAccent = ''#ffffff'',
     tt_selectionBackground = ''#b6e3ff'', tt_selectionForeground = ''#0a3069'',
     tt_black = ''#24292f'', tt_red = ''#cf222e'',
     tt_green = ''#116329'', tt_yellow = ''#7d4e00'',
     tt_blue = ''#0550ae'', tt_magenta = ''#6639ba'',
     tt_cyan = ''#0e6772'', tt_white = ''#57606a'',
     tt_brightBlack = ''#3d444d'', tt_brightRed = ''#a40e26'',
     tt_brightGreen = ''#055d20'', tt_brightYellow = ''#633c01'',
     tt_brightBlue = ''#0a3069'', tt_brightMagenta = ''#512a91'',
     tt_brightCyan = ''#0a4f57'', tt_brightWhite = ''#1f2328''\<rparr>"

definition uiFor :: "effective_theme \<Rightarrow> ui_colors" where
  "uiFor t = (if t = LightTheme then lightUI else darkUI)"

definition terminalThemeFor :: "effective_theme \<Rightarrow> term_theme" where
  "terminalThemeFor t = (if t = LightTheme then lightTerminalTheme else darkTerminalTheme)"

definition nextThemeMode :: "theme_mode \<Rightarrow> theme_mode" where
  "nextThemeMode current =
     (if current = SystemMode then LightMode
      else if current = LightMode then DarkMode
      else SystemMode)"

section \<open>The stored mode\<close>

definition theme_key :: string where
  "theme_key = ''mansio-theme''"

fun mode_name :: "theme_mode \<Rightarrow> string" where
  "mode_name SystemMode = ''system''"
| "mode_name LightMode = ''light''"
| "mode_name DarkMode = ''dark''"

text \<open>\<open>isMode\<close>: the mode a stored value names, if it names one.\<close>

definition read_mode :: "string option \<Rightarrow> theme_mode option" where
  "read_mode v =
     (if v = Some ''system'' then Some SystemMode
      else if v = Some ''light'' then Some LightMode
      else if v = Some ''dark'' then Some DarkMode
      else None)"

definition loadMode :: "storage \<Rightarrow> theme_mode" where
  "loadMode st =
     (case st of
        NoStorage \<Rightarrow> SystemMode
      | Blocked \<Rightarrow> SystemMode
      | Working f m \<Rightarrow> (case read_mode (map_of m theme_key) of Some md \<Rightarrow> md | None \<Rightarrow> SystemMode))"

definition saveMode :: "theme_mode \<Rightarrow> storage \<Rightarrow> storage" where
  "saveMode md st =
     (case st of
        NoStorage \<Rightarrow> NoStorage
      | Blocked \<Rightarrow> Blocked
      | Working f m \<Rightarrow> if f then Working f m else Working f (obj_set theme_key (mode_name md) m))"

text \<open>\<open>setMode\<close>: the storage and the store's new mode.\<close>

definition setMode :: "theme_mode \<Rightarrow> storage \<Rightarrow> theme_mode \<times> storage" where
  "setMode md st = (md, saveMode md st)"

section \<open>The effective theme\<close>

text \<open>\<open>matchMedia\<close> is absent (\<open>None\<close>) or says whether the light query matches.\<close>

definition readSystemTheme :: "bool option \<Rightarrow> effective_theme" where
  "readSystemTheme mq = (case mq of None \<Rightarrow> DarkTheme | Some b \<Rightarrow> if b then LightTheme else DarkTheme)"

definition effectiveTheme :: "theme_mode \<Rightarrow> effective_theme \<Rightarrow> effective_theme" where
  "effectiveTheme md systemTheme =
     (case md of SystemMode \<Rightarrow> systemTheme | LightMode \<Rightarrow> LightTheme | DarkMode \<Rightarrow> DarkTheme)"

definition cycleMode :: "theme_mode \<Rightarrow> storage \<Rightarrow> theme_mode \<times> storage" where
  "cycleMode md st = setMode (nextThemeMode md) st"

section \<open>Contrast\<close>

text \<open>
  \<open>parseInt(v, 16)\<close> reads the longest prefix of hexadecimal digits (no digit: \<open>NaN\<close>, which the shifts
  turn into 0). The colours have no sign, blank or \<open>0x\<close> prefix, the forms \<open>parseInt\<close> also takes.
\<close>

definition hex_digit :: "char \<Rightarrow> nat option" where
  "hex_digit c = (let n = of_char c in
     if 48 \<le> n \<and> n \<le> 57 then Some (n - 48)
     else if 97 \<le> n \<and> n \<le> 102 then Some (n - 87)
     else if 65 \<le> n \<and> n \<le> 70 then Some (n - 55)
     else None)"

fun parse_hex :: "nat \<Rightarrow> string \<Rightarrow> nat" where
  "parse_hex acc [] = acc"
| "parse_hex acc (c # cs) = (case hex_digit c of None \<Rightarrow> acc | Some d \<Rightarrow> parse_hex (16 * acc + d) cs)"

definition hexToRgb :: "string \<Rightarrow> nat \<times> nat \<times> nat" where
  "hexToRgb hex =
     (let h = remove1 (CHR 0x23) hex;
          v = (if length h = 3 then concat (map (\<lambda>c. [c, c]) h) else h);
          num = parse_hex 0 v
      in (num div 2 ^ 16 mod 256, num div 2 ^ 8 mod 256, num mod 256))"

definition channelLuminance :: "nat \<Rightarrow> real" where
  "channelLuminance c =
     (let s = real c / 255
      in if s \<le> 3928 / 100000 then s / (1292 / 100) else ((s + 55 / 1000) / (1055 / 1000)) powr (24 / 10))"

definition relativeLuminance :: "string \<Rightarrow> real" where
  "relativeLuminance hex =
     (let (r, g, b) = hexToRgb hex
      in 2126 / 10000 * channelLuminance r + 7152 / 10000 * channelLuminance g + 722 / 10000 * channelLuminance b)"

definition contrastRatio :: "string \<Rightarrow> string \<Rightarrow> real" where
  "contrastRatio hexA hexB =
     (let la = relativeLuminance hexA; lb = relativeLuminance hexB;
          lighter = max la lb; darker = min la lb
      in (lighter + 5 / 100) / (darker + 5 / 100))"

section \<open>Bounds on the luminance\<close>

text \<open>
  \<open>x\<close> to the power 12/5 lies between two numbers when \<open>x\<close> to the twelfth lies between their fifth powers,
  which is a comparison of rationals. \<open>luminance_table\<close> gives, for every channel value the palettes use, bounds
  in thousandths.
\<close>

lemma powr_fifth: "0 < x \<Longrightarrow> (x powr (24 / 10)) ^ 5 = (x :: real) ^ 12"
proof -
  assume x: "0 < x"
  have "(x powr (24 / 10)) ^ 5 = x powr (24 / 10 * 5)"
    using x by (subst powr_power) simp_all
  also have "\<dots> = x ^ 12" using x by simp
  finally show ?thesis .
qed

lemma powr_le_iff: "0 < x \<Longrightarrow> 0 \<le> u \<Longrightarrow> x powr (24 / 10) \<le> u \<longleftrightarrow> (x :: real) ^ 12 \<le> u ^ 5"
  using powr_fifth [of x] by (metis powr_ge_zero power_mono_iff zero_less_numeral)

lemma powr_ge_iff: "0 < x \<Longrightarrow> 0 \<le> u \<Longrightarrow> u \<le> x powr (24 / 10) \<longleftrightarrow> u ^ 5 \<le> (x :: real) ^ 12"
  using powr_fifth [of x] by (metis powr_ge_zero power_mono_iff zero_less_numeral)


definition luminance_table :: "(nat \<times> nat \<times> nat) list" where
  "luminance_table = [
     (13, 4, 5), (14, 4, 5), (17, 5, 6), (22, 8, 9), (23, 8, 9), (26, 10, 11),
     (27, 10, 11), (31, 13, 14), (32, 14, 15), (33, 15, 16), (34, 15, 16), (35, 16, 17),
     (36, 17, 18), (38, 19, 20), (40, 21, 22), (41, 22, 23), (42, 23, 24), (45, 26, 27),
     (46, 27, 28), (47, 28, 29), (48, 29, 30), (57, 40, 41), (58, 42, 43), (60, 45, 46),
     (61, 46, 47), (63, 49, 50), (65, 52, 53), (68, 57, 58), (72, 64, 65), (77, 74, 75),
     (78, 76, 77), (79, 78, 79), (80, 80, 81), (81, 82, 83), (86, 93, 94), (87, 95, 96),
     (88, 97, 98), (89, 99, 100), (93, 109, 110), (96, 116, 117), (99, 124, 125), (100, 127, 128),
     (102, 132, 133), (103, 135, 136), (105, 141, 142), (106, 144, 145), (110, 155, 156), (114, 168, 169),
     (116, 174, 175), (120, 187, 188), (121, 191, 192), (123, 198, 199), (125, 205, 206), (129, 219, 220),
     (133, 234, 235), (139, 258, 259), (140, 262, 263), (144, 278, 279), (145, 283, 284), (148, 296, 297),
     (152, 313, 314), (153, 318, 319), (157, 337, 338), (158, 341, 342), (161, 356, 357), (162, 361, 362),
     (164, 371, 372), (166, 381, 382), (167, 386, 387), (168, 391, 392), (174, 423, 424), (179, 450, 451),
     (182, 467, 468), (185, 485, 486), (186, 491, 492), (188, 502, 503), (192, 527, 528), (201, 584, 585),
     (207, 623, 624), (208, 630, 631), (209, 637, 638), (210, 644, 645), (211, 651, 652), (212, 658, 659),
     (215, 679, 680), (217, 693, 694), (218, 701, 702), (221, 723, 724), (222, 730, 731), (227, 768, 769),
     (233, 814, 815), (240, 871, 872), (246, 921, 922), (248, 938, 939), (250, 955, 956), (252, 973, 974),
     (255, 1000, 1000)]"

definition table_row_ok :: "nat \<times> nat \<times> nat \<Rightarrow> bool" where
  "table_row_ok = (\<lambda>(c, lo, hi). 10017 < c * 1000 \<and>
     lo ^ 5 * 269025 ^ 12 \<le> (c * 1000 + 14025) ^ 12 * 1000 ^ 5 \<and>
     (c * 1000 + 14025) ^ 12 * 1000 ^ 5 \<le> hi ^ 5 * 269025 ^ 12)"

lemma table_ok: "list_all table_row_ok luminance_table"
  by (simp add: luminance_table_def table_row_ok_def)

lemma row_bounds:
  assumes "table_row_ok (c, lo, hi)"
  shows "real lo / 1000 \<le> channelLuminance c" "channelLuminance c \<le> real hi / 1000"
proof -
  let ?x = "(real c / 255 + 55 / 1000) / (1055 / 1000)"
  have x: "?x = real (c * 1000 + 14025) / 269025" by (simp add: field_simps)
  have pos: "0 < ?x" by (simp add: x)
  have lum: "channelLuminance c = ?x powr (24 / 10)"
    using assms by (simp add: table_row_ok_def channelLuminance_def Let_def)
  have "real (lo ^ 5 * 269025 ^ 12) \<le> real ((c * 1000 + 14025) ^ 12 * 1000 ^ 5)"
    "real ((c * 1000 + 14025) ^ 12 * 1000 ^ 5) \<le> real (hi ^ 5 * 269025 ^ 12)"
    using assms unfolding table_row_ok_def by (simp_all only: of_nat_le_iff prod.case)
  then have "(real lo / 1000) ^ 5 \<le> ?x ^ 12" "?x ^ 12 \<le> (real hi / 1000) ^ 5"
    unfolding x by (simp_all add: power_divide field_simps)
  then show "real lo / 1000 \<le> channelLuminance c" "channelLuminance c \<le> real hi / 1000"
    unfolding lum using powr_le_iff [OF pos, of "real hi / 1000"] powr_ge_iff [OF pos, of "real lo / 1000"] by auto
qed

text \<open>Bounds of a colour's luminance, in ten-millionths, from the table.\<close>

definition channel_bounds :: "nat \<Rightarrow> (nat \<times> nat) option" where
  "channel_bounds c = (if c * 1000 \<le> 10016 then Some (0, 4) else map_of luminance_table c)"

definition colour_bounds :: "string \<Rightarrow> (nat \<times> nat) option" where
  "colour_bounds hex =
     (case hexToRgb hex of (r, g, b) \<Rightarrow>
        (case (channel_bounds r, channel_bounds g, channel_bounds b) of
           (Some (r1, r2), Some (g1, g2), Some (b1, b2)) \<Rightarrow>
             Some (2126 * r1 + 7152 * g1 + 722 * b1, 2126 * r2 + 7152 * g2 + 722 * b2)
         | _ \<Rightarrow> None))"

lemma channel_bounds_sound:
  assumes "channel_bounds c = Some (lo, hi)"
  shows "real lo / 1000 \<le> channelLuminance c" "channelLuminance c \<le> real hi / 1000"
proof -
  have "real lo / 1000 \<le> channelLuminance c \<and> channelLuminance c \<le> real hi / 1000"
  proof (cases "c * 1000 \<le> 10016")
    case True
    then have "real c * 1000 \<le> 10016" by linarith
    then show ?thesis
      using True assms by (auto simp: channel_bounds_def channelLuminance_def Let_def field_simps)
  next
    case False
    then have "(c, lo, hi) \<in> set luminance_table"
      using assms by (auto simp: channel_bounds_def dest: map_of_SomeD)
    then have "table_row_ok (c, lo, hi)" using table_ok by (auto simp: list_all_iff)
    then show ?thesis using row_bounds by blast
  qed
  then show "real lo / 1000 \<le> channelLuminance c" "channelLuminance c \<le> real hi / 1000" by blast+
qed

lemma colour_bounds_sound:
  assumes "colour_bounds hex = Some (lo, hi)"
  shows "real lo / 10000000 \<le> relativeLuminance hex" "relativeLuminance hex \<le> real hi / 10000000"
proof -
  obtain r g b where rgb: "hexToRgb hex = (r, g, b)" by (metis prod_cases3)
  obtain r1 r2 g1 g2 b1 b2 where c: "channel_bounds r = Some (r1, r2)" "channel_bounds g = Some (g1, g2)"
      "channel_bounds b = Some (b1, b2)" "lo = 2126 * r1 + 7152 * g1 + 722 * b1"
      "hi = 2126 * r2 + 7152 * g2 + 722 * b2"
    using assms by (auto simp: colour_bounds_def rgb split: option.splits)
  note bounds = channel_bounds_sound [OF c(1)] channel_bounds_sound [OF c(2)] channel_bounds_sound [OF c(3)]
  show "real lo / 10000000 \<le> relativeLuminance hex" "relativeLuminance hex \<le> real hi / 10000000"
    using bounds by (simp_all add: relativeLuminance_def rgb c(4,5))
qed

text \<open>A contrast that the bounds of the two colours already show, in tenths.\<close>

definition contrast_check :: "nat \<Rightarrow> string \<Rightarrow> string \<Rightarrow> bool" where
  "contrast_check tenths a b =
     (case (colour_bounds a, colour_bounds b) of
        (Some (a1, a2), Some (b1, b2)) \<Rightarrow>
          (tenths * (b2 + 500000) \<le> 10 * (a1 + 500000) \<or> tenths * (a2 + 500000) \<le> 10 * (b1 + 500000))
      | _ \<Rightarrow> False)"

lemma contrast_sym: "contrastRatio a b = contrastRatio b a"
  by (simp add: contrastRatio_def Let_def max.commute min.commute)

lemma contrast_above:
  assumes "colour_bounds a = Some (a1, a2)" "colour_bounds b = Some (b1, b2)"
    and "tenths * (b2 + 500000) \<le> 10 * (a1 + 500000)"
  shows "real tenths / 10 \<le> contrastRatio a b"
proof -
  let ?la = "relativeLuminance a" and ?lb = "relativeLuminance b"
  note la = colour_bounds_sound [OF assms(1)] and lb = colour_bounds_sound [OF assms(2)]
  have nn: "0 \<le> ?la" "0 \<le> ?lb" using la(1) lb(1) by (auto intro: order_trans [rotated])
  have "real (tenths * (b2 + 500000)) \<le> real (10 * (a1 + 500000))"
    using assms(3) by (simp only: of_nat_le_iff)
  then have "real tenths * (real b2 / 10000000 + 5 / 100) \<le> 10 * (real a1 / 10000000 + 5 / 100)"
    by (simp add: field_simps)
  moreover have "real tenths * (?lb + 5 / 100) \<le> real tenths * (real b2 / 10000000 + 5 / 100)"
    using lb(2) by (intro mult_left_mono) simp_all
  moreover have "10 * (real a1 / 10000000 + 5 / 100) \<le> 10 * (?la + 5 / 100)"
    using la(1) by simp
  ultimately have "real tenths * (?lb + 5 / 100) \<le> 10 * (?la + 5 / 100)"
    by (meson order_trans)
  then have "real tenths / 10 \<le> (?la + 5 / 100) / (?lb + 5 / 100)"
    using nn by (simp add: field_simps)
  also have "\<dots> \<le> contrastRatio a b"
    using nn by (auto simp: contrastRatio_def Let_def intro!: frac_le)
  finally show ?thesis .
qed

lemma contrast_check_sound:
  assumes "contrast_check tenths a b"
  shows "real tenths / 10 \<le> contrastRatio a b"
  using assms contrast_above [of a _ _ b _ _ tenths] contrast_above [of b _ _ a _ _ tenths] contrast_sym [of a b]
  by (auto simp: contrast_check_def split: option.splits)

text \<open>The colours text is drawn in: the foreground and the sixteen ANSI colours.\<close>

definition text_colours :: "term_theme \<Rightarrow> string list" where
  "text_colours t = [tt_foreground t, tt_black t, tt_red t, tt_green t, tt_yellow t, tt_blue t, tt_magenta t,
     tt_cyan t, tt_white t, tt_brightBlack t, tt_brightRed t, tt_brightGreen t, tt_brightYellow t,
     tt_brightBlue t, tt_brightMagenta t, tt_brightCyan t, tt_brightWhite t]"

lemmas check_simps = text_colours_def contrast_check_def colour_bounds_def channel_bounds_def
  hexToRgb_def hex_digit_def luminance_table_def

lemma dark_palette_checked:
  "list_all (\<lambda>c. contrast_check 45 c (tt_background darkTerminalTheme)) (text_colours darkTerminalTheme)"
  by (simp add: check_simps darkTerminalTheme_def)

lemma light_palette_checked:
  "list_all (\<lambda>c. contrast_check 45 c (tt_background lightTerminalTheme)) (text_colours lightTerminalTheme)"
  by (simp add: check_simps lightTerminalTheme_def)

lemmas palettes_checked = dark_palette_checked light_palette_checked

end
