(* ===== verification/SessionLock.thy ===== *)
theory SessionLock
  imports JsPrelude "HOL-Library.Multiset" "HOL-Library.List_Lexorder" "HOL-Library.Char_ord"
begin

text \<open>
  \<open>frontend/src/lib/sessionLock.ts\<close>: which of several browser windows may hold the live connection of
  a terminal session. A window arbitrates locally (\<open>computeOwned\<close>) over what it knows of its peers,
  and the windows tell each other their focus time and wanted sessions over a \<open>BroadcastChannel\<close>.

  A JavaScript \<open>Set\<close> whose iteration order matters is a list without duplicates, \<open>owned\<close> is a set.
  Window ids are ASCII strings, so JavaScript's \<open>>\<close> on them is the lexicographic order of their
  characters. An operation returns the new state of the module, the messages it posts and whether the
  ownership listeners ran.
\<close>

section \<open>Arbitration\<close>

record presence =
  pres_window :: string
  pres_focus :: int
  pres_sessions :: "string list"

definition peer_wins :: "presence \<Rightarrow> presence \<Rightarrow> bool" where
  "peer_wins p self \<longleftrightarrow>
     pres_focus p > pres_focus self \<or> (pres_focus p = pres_focus self \<and> pres_window p > pres_window self)"

text \<open>The inner loop of \<open>computeOwned\<close>, with its \<open>continue\<close> and its \<open>break\<close>.\<close>

fun wins_against :: "presence \<Rightarrow> string \<Rightarrow> presence list \<Rightarrow> bool" where
  "wins_against self sid [] = True"
| "wins_against self sid (p # ps) =
     (if sid \<notin> set (pres_sessions p) then wins_against self sid ps
      else if peer_wins p self then False
      else wins_against self sid ps)"

definition computeOwned :: "presence \<Rightarrow> presence list \<Rightarrow> string set" where
  "computeOwned self prs =
     fold (\<lambda>sid own. if wins_against self sid prs then insert sid own else own) (pres_sessions self) {}"

definition setsEqual :: "string set \<Rightarrow> string set \<Rightarrow> bool" where
  "setsEqual a b \<longleftrightarrow> (if card a \<noteq> card b then False else \<forall>x \<in> a. x \<in> b)"

section \<open>The state of one window\<close>

text \<open>\<open>new Set(xs)\<close>: the first occurrence of every element, in order.\<close>

definition js_set :: "string list \<Rightarrow> string list" where
  "js_set xs = rev (remdups (rev xs))"

record peer_record =
  peer_focus :: int
  peer_sessions :: "string list"
  lastSeen :: int

record lock =
  windowId :: string
  focusTs :: int
  claimed :: "string list"
  owned :: "string set"
  lock_peers :: "peer_record obj"
  channel :: bool
  heartbeatTimer :: bool
  lock_initialized :: bool
  lock_listeners :: "(string \<times> string) list"

datatype lock_msg = Presence string int "string list" | Bye string

type_synonym lock_effect = "lock \<times> lock_msg list \<times> bool"

definition fresh_lock :: "string \<Rightarrow> lock" where
  "fresh_lock i = \<lparr>windowId = i, focusTs = 0, claimed = [], owned = {}, lock_peers = [], channel = False,
     heartbeatTimer = False, lock_initialized = False, lock_listeners = []\<rparr>"

definition HEARTBEAT_MS :: int where "HEARTBEAT_MS = 2000"

definition STALE_MS :: int where "STALE_MS = 6000"

definition peersAsPresence :: "lock \<Rightarrow> presence list" where
  "peersAsPresence lk =
     map (\<lambda>(i, p). \<lparr>pres_window = i, pres_focus = peer_focus p, pres_sessions = peer_sessions p\<rparr>) (lock_peers lk)"

definition self_presence :: "lock \<Rightarrow> presence" where
  "self_presence lk = \<lparr>pres_window = windowId lk, pres_focus = focusTs lk, pres_sessions = claimed lk\<rparr>"

definition recompute :: "lock \<Rightarrow> lock \<times> bool" where
  "recompute lk =
     (let next = computeOwned (self_presence lk) (peersAsPresence lk)
      in if setsEqual next (owned lk) then (lk, False) else (lk\<lparr>owned := next\<rparr>, True))"

definition postPresence :: "lock \<Rightarrow> lock_msg list" where
  "postPresence lk = (if channel lk then [Presence (windowId lk) (focusTs lk) (claimed lk)] else [])"

definition claimSession :: "string \<Rightarrow> lock \<Rightarrow> lock_effect" where
  "claimSession sid lk =
     (if sid \<in> set (claimed lk) then (lk, [], False)
      else let (lk', n) = recompute (lk\<lparr>claimed := claimed lk @ [sid]\<rparr>) in (lk', postPresence lk', n))"

definition releaseSession :: "string \<Rightarrow> lock \<Rightarrow> lock_effect" where
  "releaseSession sid lk =
     (if sid \<notin> set (claimed lk) then (lk, [], False)
      else let (lk', n) = recompute (lk\<lparr>claimed := filter (\<lambda>x. x \<noteq> sid) (claimed lk)\<rparr>)
           in (lk', postPresence lk', n))"

definition ownsSession :: "lock \<Rightarrow> string \<Rightarrow> bool" where
  "ownsSession lk sid \<longleftrightarrow> sid \<in> owned lk"

definition takeFocus :: "int \<Rightarrow> lock \<Rightarrow> lock_effect" where
  "takeFocus now lk = (let (lk', n) = recompute (lk\<lparr>focusTs := now\<rparr>) in (lk', postPresence lk', n))"

definition onmessage :: "int \<Rightarrow> lock_msg \<Rightarrow> lock \<Rightarrow> lock_effect" where
  "onmessage now m lk =
     (case m of
        Bye i \<Rightarrow>
          if i = windowId lk then (lk, [], False)
          else if has_key i (lock_peers lk)
          then let (lk', n) = recompute (lk\<lparr>lock_peers := obj_del i (lock_peers lk)\<rparr>) in (lk', [], n)
          else (lk, [], False)
      | Presence i f ss \<Rightarrow>
          if i = windowId lk then (lk, [], False)
          else
            let isNew = \<not> has_key i (lock_peers lk);
                (lk', n) = recompute (lk\<lparr>lock_peers :=
                  obj_set i \<lparr>peer_focus = f, peer_sessions = js_set ss, lastSeen = now\<rparr> (lock_peers lk)\<rparr>)
            in (lk', if isNew then postPresence lk' else [], n))"

definition onVisibility :: "bool \<Rightarrow> bool \<Rightarrow> int \<Rightarrow> lock \<Rightarrow> lock_effect" where
  "onVisibility isVisible hasFocus now lk =
     (if isVisible \<and> hasFocus then takeFocus now lk else (lk, [], False))"

definition onPageHide :: "lock \<Rightarrow> lock_msg list" where
  "onPageHide lk = (if channel lk then [Bye (windowId lk)] else [])"

definition stale_peers :: "int \<Rightarrow> lock \<Rightarrow> string list" where
  "stale_peers now lk = map fst (filter (\<lambda>(i, p). lastSeen p < now - STALE_MS) (lock_peers lk))"

definition heartbeat :: "int \<Rightarrow> lock \<Rightarrow> lock_effect" where
  "heartbeat now lk =
     (let msgs = postPresence lk;
          gone = stale_peers now lk;
          lk1 = lk\<lparr>lock_peers := fold obj_del gone (lock_peers lk)\<rparr>
      in if gone = [] then (lk, msgs, False) else let (lk', n) = recompute lk1 in (lk', msgs, n))"

text \<open>The events of the window and the document the module listens to, and what they run.\<close>

definition lock_events :: "(string \<times> string) list" where
  "lock_events = [(''window'', ''focus''), (''window'', ''pagehide''), (''window'', ''beforeunload''), (''document'', ''visibilitychange'')]"

definition lock_event :: "string \<Rightarrow> bool \<Rightarrow> bool \<Rightarrow> int \<Rightarrow> lock \<Rightarrow> lock_effect" where
  "lock_event ev isVisible hasFocus now lk =
     (if ev \<notin> snd ` set (lock_listeners lk) then (lk, [], False)
      else if ev = ''focus'' then takeFocus now lk
      else if ev = ''visibilitychange'' then onVisibility isVisible hasFocus now lk
      else (lk, onPageHide lk, False))"

definition initSessionLock :: "bool \<Rightarrow> bool \<Rightarrow> int \<Rightarrow> lock \<Rightarrow> lock \<times> lock_msg list" where
  "initSessionLock foreground hasChannel now lk =
     (if lock_initialized lk then (lk, [])
      else let lk' = lk\<lparr>lock_initialized := True, focusTs := (if foreground then now else focusTs lk),
                 channel := hasChannel \<or> channel lk, lock_listeners := lock_listeners lk @ lock_events, heartbeatTimer := True\<rparr>
           in (lk', postPresence lk'))"

definition teardown :: "lock \<Rightarrow> lock \<times> lock_msg list" where
  "teardown lk = (lk\<lparr>lock_initialized := False, heartbeatTimer := False,
     lock_listeners := fold remove1 lock_events (lock_listeners lk), channel := False\<rparr>, onPageHide lk)"

definition resetSessionLock :: "lock \<Rightarrow> lock" where
  "resetSessionLock lk = lk\<lparr>claimed := [], owned := {}, lock_peers := [], focusTs := 0,
     heartbeatTimer := False, channel := False, lock_initialized := False\<rparr>"

section \<open>Arbitration in closed form\<close>

lemma wins_against_iff:
  "wins_against self sid ps \<longleftrightarrow> (\<forall>p \<in> set ps. sid \<in> set (pres_sessions p) \<longrightarrow> \<not> peer_wins p self)"
  by (induction ps) auto

lemma fold_insert_if: "fold (\<lambda>x own. if P x then insert x own else own) xs A = A \<union> {x \<in> set xs. P x}"
  by (induction xs arbitrary: A) auto

lemma computeOwned_eq:
  "computeOwned self ps = {sid \<in> set (pres_sessions self).
     \<forall>p \<in> set ps. sid \<in> set (pres_sessions p) \<longrightarrow> \<not> peer_wins p self}"
  by (simp add: computeOwned_def fold_insert_if wins_against_iff)

lemma finite_computeOwned [simp]: "finite (computeOwned self ps)"
  by (simp add: computeOwned_eq)

lemma setsEqual_iff: "finite a \<Longrightarrow> finite b \<Longrightarrow> setsEqual a b \<longleftrightarrow> a = b"
  by (auto simp: setsEqual_def dest: card_subset_eq [of b a])

text \<open>What decides between two windows is their standing, focus time first and window id second: a linear order.\<close>

datatype standing = Standing (st_focus: int) (st_window: string)

instantiation standing :: linorder
begin

definition less_eq_standing :: "standing \<Rightarrow> standing \<Rightarrow> bool" where
  "less_eq_standing x y \<longleftrightarrow> st_focus x < st_focus y \<or> (st_focus x = st_focus y \<and> st_window x \<le> st_window y)"

definition less_standing :: "standing \<Rightarrow> standing \<Rightarrow> bool" where
  "less_standing x y \<longleftrightarrow> st_focus x < st_focus y \<or> (st_focus x = st_focus y \<and> st_window x < st_window y)"

instance
  by standard (auto simp: less_eq_standing_def less_standing_def standing.expand)

end

definition standing_of :: "presence \<Rightarrow> standing" where
  "standing_of p = Standing (pres_focus p) (pres_window p)"

lemma peer_wins_less: "peer_wins p q \<longleftrightarrow> standing_of q < standing_of p"
  by (auto simp: peer_wins_def standing_of_def less_standing_def)

lemma standing_eq: "standing_of p = standing_of q \<Longrightarrow> pres_window p = pres_window q"
  by (simp add: standing_of_def)

lemma peer_wins_total: "pres_window p \<noteq> pres_window q \<Longrightarrow> peer_wins p q \<longleftrightarrow> \<not> peer_wins q p"
  unfolding peer_wins_less using standing_eq less_le_not_le not_less_iff_gr_or_eq by metis

lemma peer_wins_trans: "peer_wins p q \<Longrightarrow> peer_wins q r \<Longrightarrow> peer_wins p r"
  unfolding peer_wins_less by (rule less_trans)

lemma peer_wins_irrefl [simp]: "\<not> peer_wins p p"
  by (simp add: peer_wins_less)

text \<open>Among finitely many windows with different ids one beats all the others.\<close>

lemma strongest_exists:
  assumes "finite S" "S \<noteq> {}" "inj_on pres_window S"
  shows "\<exists>p \<in> S. \<forall>q \<in> S. q \<noteq> p \<longrightarrow> peer_wins p q"
proof -
  have "Max (standing_of ` S) \<in> standing_of ` S" using assms(1,2) by simp
  then obtain p where p: "p \<in> S" "standing_of p = Max (standing_of ` S)" by (metis imageE)
  have "standing_of q < standing_of p" if "q \<in> S" "q \<noteq> p" for q
  proof -
    have "standing_of q \<le> standing_of p" using p(2) that(1) assms(1) by simp
    moreover have "standing_of q \<noteq> standing_of p" using standing_eq inj_onD [OF assms(3) _ that(1) p(1)] that(2) by blast
    ultimately show ?thesis by simp
  qed
  then show ?thesis using p(1) by (auto simp: peer_wins_less)
qed


section \<open>One window\<close>

lemma js_set_simps [simp]: "set (js_set xs) = set xs" "distinct xs \<Longrightarrow> js_set xs = xs"
  by (simp_all add: js_set_def distinct_remdups_id)

definition lock_ok :: "string \<Rightarrow> lock \<Rightarrow> bool" where
  "lock_ok w lk \<longleftrightarrow> windowId lk = w \<and> channel lk \<and> distinct (claimed lk) \<and>
     distinct (map fst (lock_peers lk)) \<and> \<not> has_key w (lock_peers lk) \<and>
     owned lk = computeOwned (self_presence lk) (peersAsPresence lk)"

lemma recompute_fst:
  assumes "finite (owned lk)"
  shows "fst (recompute lk) = lk\<lparr>owned := computeOwned (self_presence lk) (peersAsPresence lk)\<rparr>"
  using assms by (simp add: recompute_def Let_def setsEqual_iff)

lemma lock_ok_finite: "lock_ok w lk \<Longrightarrow> finite (owned lk)"
  by (simp add: lock_ok_def)

lemma recompute_notifies: "finite (owned lk) \<Longrightarrow> snd (recompute lk) \<longleftrightarrow> owned (fst (recompute lk)) \<noteq> owned lk"
  by (auto simp: recompute_def Let_def setsEqual_iff)

lemma self_presence_owned [simp]: "self_presence (lk\<lparr>owned := x\<rparr>) = self_presence lk"
  "peersAsPresence (lk\<lparr>owned := x\<rparr>) = peersAsPresence lk"
  by (simp_all add: self_presence_def peersAsPresence_def)

lemma lock_ok_claim: "lock_ok w lk \<Longrightarrow> lock_ok w (fst (claimSession sid lk))"
  by (auto simp: claimSession_def case_prod_beta lock_ok_def recompute_fst)

lemma lock_ok_release: "lock_ok w lk \<Longrightarrow> lock_ok w (fst (releaseSession sid lk))"
  by (auto simp: releaseSession_def case_prod_beta lock_ok_def recompute_fst)

lemma lock_ok_focus: "lock_ok w lk \<Longrightarrow> lock_ok w (fst (takeFocus now lk))"
  by (auto simp: takeFocus_def case_prod_beta lock_ok_def recompute_fst)

lemma has_key_set [simp]: "has_key k (obj_set j v m) \<longleftrightarrow> k = j \<or> has_key k m"
  by (simp add: has_key_def)

lemma has_key_del [simp]: "has_key k (obj_del j m) \<longleftrightarrow> k \<noteq> j \<and> has_key k m"
  by (simp add: has_key_def)

lemma lock_ok_message: "lock_ok w lk \<Longrightarrow> lock_ok w (fst (onmessage now m lk))"
  by (cases m) (auto simp: onmessage_def Let_def case_prod_beta lock_ok_def recompute_fst)

lemma map_of_fold_del: "map_of (fold obj_del ks m) k = (if k \<in> set ks then None else map_of m k)"
  by (induction ks arbitrary: m) auto

lemma has_key_fold_del [simp]: "has_key k (fold obj_del ks m) \<longleftrightarrow> k \<notin> set ks \<and> has_key k m"
  by (simp add: has_key_def map_of_fold_del)

lemma distinct_fold_del: "distinct (map fst m) \<Longrightarrow> distinct (map fst (fold obj_del ks m))"
  by (induction ks arbitrary: m) auto

lemma lock_ok_heartbeat: "lock_ok w lk \<Longrightarrow> lock_ok w (fst (heartbeat now lk))"
  by (auto simp: heartbeat_def Let_def case_prod_beta lock_ok_def distinct_fold_del recompute_fst)


text \<open>Stopping the module takes back everything that starting it registered, and says goodbye.\<close>

lemma teardown_undoes_init:
  assumes "\<not> lock_initialized lk" "initSessionLock foreground True now lk = (lk', msgs)"
  shows "mset (lock_listeners (fst (teardown lk'))) = mset (lock_listeners lk)"
    "\<not> lock_initialized (fst (teardown lk'))" "\<not> heartbeatTimer (fst (teardown lk'))" "snd (teardown lk') = [Bye (windowId lk)]"
proof -
  have lk': "lk' = lk\<lparr>lock_initialized := True, focusTs := (if foreground then now else focusTs lk),
      channel := True, lock_listeners := lock_listeners lk @ lock_events, heartbeatTimer := True\<rparr>"
    using assms by (auto simp: initSessionLock_def Let_def)
  have "mset (fold remove1 ys (xs @ ys)) = mset xs" for xs ys :: "(string \<times> string) list"
  proof -
    have "mset (fold remove1 ys zs) = mset zs - mset ys" for zs
      by (induction ys arbitrary: zs) simp_all
    then show ?thesis by simp
  qed
  then show "mset (lock_listeners (fst (teardown lk'))) = mset (lock_listeners lk)" by (simp add: lk' teardown_def)
  show "\<not> lock_initialized (fst (teardown lk'))" "\<not> heartbeatTimer (fst (teardown lk'))" "snd (teardown lk') = [Bye (windowId lk)]"
    by (simp_all add: lk' teardown_def onPageHide_def)
qed

text \<open>An event that does not end the page takes the focus or does nothing.\<close>

lemma lock_event_focus:
  assumes "ev \<noteq> ''pagehide''" "ev \<noteq> ''beforeunload''" "set (lock_listeners lk) \<subseteq> set lock_events"
  shows "lock_event ev isVisible hasFocus now lk = takeFocus now lk \<or> lock_event ev isVisible hasFocus now lk = (lk, [], False)"
  using assms by (auto simp: lock_event_def onVisibility_def lock_events_def)

section \<open>What an operation tells the others\<close>

definition same_presence :: "lock \<Rightarrow> lock \<Rightarrow> bool" where
  "same_presence lk lk' \<longleftrightarrow> focusTs lk' = focusTs lk \<and> claimed lk' = claimed lk"

text \<open>An effect is announced when nothing the peers need has changed, or the new presence is posted.\<close>

definition announced :: "string \<Rightarrow> lock \<Rightarrow> lock_effect \<Rightarrow> bool" where
  "announced w lk e \<longleftrightarrow> (fst (snd e) = [] \<and> same_presence lk (fst e)) \<or>
     fst (snd e) = [Presence w (focusTs (fst e)) (claimed (fst e))]"

lemma announced_ops:
  assumes "lock_ok w lk"
  shows "announced w lk (claimSession sid lk)" "announced w lk (releaseSession sid lk)"
    "announced w lk (takeFocus now lk)" "announced w lk (onmessage now m lk)" "announced w lk (heartbeat now lk)"
  using assms
  by (auto simp: announced_def same_presence_def claimSession_def releaseSession_def takeFocus_def onmessage_def
      heartbeat_def Let_def case_prod_beta recompute_fst lock_ok_def postPresence_def split: lock_msg.split)

lemma peers_ops:
  assumes "lock_ok w lk"
  shows "lock_peers (fst (claimSession sid lk)) = lock_peers lk"
    "lock_peers (fst (releaseSession sid lk)) = lock_peers lk"
    "lock_peers (fst (takeFocus now lk)) = lock_peers lk"
    "map_of (lock_peers (fst (heartbeat now lk))) =
       (\<lambda>i. if i \<in> set (stale_peers now lk) then None else map_of (lock_peers lk) i)"
  using assms
  by (auto simp: fun_eq_iff claimSession_def releaseSession_def takeFocus_def heartbeat_def Let_def
      case_prod_beta recompute_fst lock_ok_def map_of_fold_del)

lemma peers_message:
  assumes "lock_ok w lk"
  shows "map_of (lock_peers (fst (onmessage now m lk))) = (case m of
      Bye i \<Rightarrow> (map_of (lock_peers lk))(i := None)
    | Presence i f ss \<Rightarrow> if i = w then map_of (lock_peers lk)
        else (map_of (lock_peers lk))(i \<mapsto> \<lparr>peer_focus = f, peer_sessions = js_set ss, lastSeen = now\<rparr>))"
  using assms
  by (auto simp: fun_eq_iff onmessage_def Let_def case_prod_beta recompute_fst lock_ok_def has_key_def
      split: lock_msg.split) (auto simp: map_of_eq_None_iff)

lemma replies_to_newcomer:
  assumes "lock_ok w lk" "i \<noteq> w" "\<not> has_key i (lock_peers lk)"
  shows "fst (snd (onmessage now (Presence i f ss) lk)) \<noteq> []"
  using assms by (simp add: onmessage_def Let_def case_prod_beta recompute_fst lock_ok_def postPresence_def)

section \<open>Several windows\<close>

text \<open>
  The open windows by their ids, each with the messages the channel has yet to deliver to it. Posting
  appends to the queue of every other open window, as a \<open>BroadcastChannel\<close> does.
\<close>

record lock_system =
  windows :: "string \<Rightarrow> lock option"
  inboxes :: "string \<Rightarrow> lock_msg list"

definition broadcast :: "string \<Rightarrow> lock_msg list \<Rightarrow> lock_system \<Rightarrow> lock_system" where
  "broadcast sender msgs sys = sys\<lparr>inboxes := (\<lambda>w.
     if w \<noteq> sender \<and> windows sys w \<noteq> None then inboxes sys w @ msgs else inboxes sys w)\<rparr>"

definition run_window :: "string \<Rightarrow> lock_effect \<Rightarrow> lock_system \<Rightarrow> lock_system" where
  "run_window w e sys = broadcast w (fst (snd e)) (sys\<lparr>windows := (windows sys)(w \<mapsto> fst e)\<rparr>)"

fun msg_sender :: "lock_msg \<Rightarrow> string" where
  "msg_sender (Presence i f ss) = i"
| "msg_sender (Bye i) = i"

text \<open>Window ids are random and never used again: no window has heard of a new one.\<close>

definition new_window :: "lock_system \<Rightarrow> string \<Rightarrow> bool" where
  "new_window sys w \<longleftrightarrow> windows sys w = None \<and>
     (\<forall>v lk. windows sys v = Some lk \<longrightarrow> \<not> has_key w (lock_peers lk) \<and> (\<forall>m \<in> set (inboxes sys v). msg_sender m \<noteq> w))"

text \<open>
  The steps: windows open, claim, release, gain focus, receive, beat, close with a \<open>bye\<close> or crash
  without one. A heartbeat drops only peers that are gone; theory \<open>LockTiming\<close> shows that it does.
\<close>

inductive lock_step :: "lock_system \<Rightarrow> lock_system \<Rightarrow> bool" where
  open_window: "new_window sys w \<Longrightarrow> initSessionLock foreground True now (fresh_lock w) = (lk, msgs) \<Longrightarrow>
     lock_step sys (run_window w (lk, msgs, False) (sys\<lparr>inboxes := (inboxes sys)(w := [])\<rparr>))"
| claim: "windows sys w = Some lk \<Longrightarrow> lock_step sys (run_window w (claimSession sid lk) sys)"
| release: "windows sys w = Some lk \<Longrightarrow> lock_step sys (run_window w (releaseSession sid lk) sys)"
| focus: "windows sys w = Some lk \<Longrightarrow> lock_step sys (run_window w (takeFocus now lk) sys)"
| deliver: "windows sys w = Some lk \<Longrightarrow> inboxes sys w = m # ms \<Longrightarrow>
     lock_step sys (run_window w (onmessage now m lk) (sys\<lparr>inboxes := (inboxes sys)(w := ms)\<rparr>))"
| beat: "windows sys w = Some lk \<Longrightarrow> (\<And>i. i \<in> set (stale_peers now lk) \<Longrightarrow> windows sys i = None) \<Longrightarrow>
     lock_step sys (run_window w (heartbeat now lk) sys)"
| close: "windows sys w = Some lk \<Longrightarrow>
     lock_step sys (broadcast w (onPageHide lk) (sys\<lparr>windows := (windows sys)(w := None)\<rparr>))"
| crash: "windows sys w = Some lk \<Longrightarrow> lock_step sys (sys\<lparr>windows := (windows sys)(w := None)\<rparr>)"

text \<open>What a window will know of a peer once its queue is delivered.\<close>

fun view_after :: "string \<Rightarrow> lock_msg list \<Rightarrow> (int \<times> string list) option \<Rightarrow> (int \<times> string list) option" where
  "view_after v [] r = r"
| "view_after v (Presence i f ss # ms) r = view_after v ms (if i = v then Some (f, js_set ss) else r)"
| "view_after v (Bye i # ms) r = view_after v ms (if i = v then None else r)"

definition record_of :: "lock \<Rightarrow> string \<Rightarrow> (int \<times> string list) option" where
  "record_of lk v = map_option (\<lambda>p. (peer_focus p, peer_sessions p)) (map_of (lock_peers lk) v)"

text \<open>
  The link from \<open>v\<close> to \<open>w\<close>: \<open>w\<close> will know the current presence of \<open>v\<close>, or else \<open>v\<close> has yet to
  hear of \<open>w\<close> for the first time, and will answer.
\<close>

definition link_ok :: "lock_system \<Rightarrow> string \<Rightarrow> lock \<Rightarrow> string \<Rightarrow> lock \<Rightarrow> bool" where
  "link_ok sys w lkw v lkv \<longleftrightarrow>
     Bye v \<notin> set (inboxes sys w) \<and>
     (case view_after v (inboxes sys w) (record_of lkw v) of
        Some x \<Rightarrow> x = (focusTs lkv, claimed lkv)
      | None \<Rightarrow> \<not> has_key w (lock_peers lkv) \<and> (\<exists>f ss. Presence w f ss \<in> set (inboxes sys v)))"

definition sys_ok :: "lock_system \<Rightarrow> bool" where
  "sys_ok sys \<longleftrightarrow>
     (\<forall>w lk. windows sys w = Some lk \<longrightarrow> lock_ok w lk) \<and>
     (\<forall>w lkw v lkv. windows sys w = Some lkw \<longrightarrow> windows sys v = Some lkv \<longrightarrow> w \<noteq> v \<longrightarrow>
        link_ok sys w lkw v lkv)"

lemma view_append [simp]: "view_after v (xs @ ys) r = view_after v ys (view_after v xs r)"
  by (induction v xs r rule: view_after.induct) auto

lemma record_of_None: "record_of lk v = None \<longleftrightarrow> \<not> has_key v (lock_peers lk)"
  by (simp add: record_of_def has_key_def)

lemma sys_update:
  assumes ok: "sys_ok sys" and v: "windows sys v = Some lk" and lk': "lock_ok v (fst e)"
    and ann: "announced v lk e"
    and mine: "\<And>u lku. u \<noteq> v \<Longrightarrow> windows sys u = Some lku \<Longrightarrow>
      Bye u \<notin> set ms \<and> view_after u ms (record_of (fst e) u) = view_after u (inboxes sys v) (record_of lk u)"
    and pend: "\<And>u lku. u \<noteq> v \<Longrightarrow> windows sys u = Some lku \<Longrightarrow> \<not> has_key u (lock_peers lk) \<Longrightarrow>
      \<exists>f ss. Presence u f ss \<in> set (inboxes sys v) \<Longrightarrow> fst (snd e) = [] \<Longrightarrow>
      \<not> has_key u (lock_peers (fst e)) \<and> (\<exists>f ss. Presence u f ss \<in> set ms)"
  shows "sys_ok (run_window v e (sys\<lparr>inboxes := (inboxes sys)(v := ms)\<rparr>))" (is "sys_ok ?S")
proof -
  have wins: "windows ?S = (windows sys)(v \<mapsto> fst e)"
    by (simp add: run_window_def broadcast_def)
  have box: "inboxes ?S w = (if w = v then ms else if windows sys w \<noteq> None then inboxes sys w @ fst (snd e)
      else inboxes sys w)" for w
    by (simp add: run_window_def broadcast_def)
  have links: "link_ok sys a la b lb" if "windows sys a = Some la" "windows sys b = Some lb" "a \<noteq> b" for a la b lb
    using ok that by (auto simp: sys_ok_def)
  have to_v: "link_ok ?S v (fst e) u lku" if u: "windows sys u = Some lku" "u \<noteq> v" for u lku
  proof -
    have "link_ok sys v lk u lku" using links [OF v u(1)] u(2) by simp
    then show ?thesis
      using mine [OF u(2,1)] u by (auto simp: link_ok_def box split: option.splits)
  qed
  have from_v: "link_ok ?S u lku v (fst e)" if u: "windows sys u = Some lku" "u \<noteq> v" for u lku
  proof (cases "fst (snd e) = []")
    case True
    have l: "link_ok sys u lku v lk" using links [OF u(1) v u(2)] .
    have same: "focusTs (fst e) = focusTs lk" "claimed (fst e) = claimed lk"
      using ann True by (auto simp: announced_def same_presence_def)
    show ?thesis
      using l same pend [OF u(2,1) _ _ True] u True
      by (auto simp: link_ok_def box split: option.splits)
  next
    case False
    then have "fst (snd e) = [Presence v (focusTs (fst e)) (claimed (fst e))]"
      using ann by (auto simp: announced_def)
    moreover have "Bye v \<notin> set (inboxes sys u)"
      using links [OF u(1) v u(2)] by (simp add: link_ok_def)
    ultimately show ?thesis
      using u lk' by (auto simp: link_ok_def box lock_ok_def)
  qed
  have rest: "link_ok ?S a la b lb"
    if "windows sys a = Some la" "windows sys b = Some lb" "a \<noteq> b" "a \<noteq> v" "b \<noteq> v" for a la b lb
  proof -
    have other: "view_after b (fst (snd e)) r = r" "Bye b \<notin> set (fst (snd e))" for r
      using ann that(5) by (auto simp: announced_def)
    show ?thesis
      using links [OF that(1-3)] that other by (auto simp: link_ok_def box split: option.splits)
  qed
  show ?thesis
    unfolding sys_ok_def wins
    using ok lk' to_v from_v rest by (auto simp: sys_ok_def split: if_splits)
qed


section \<open>Every step keeps the windows consistent\<close>

lemma inboxes_same: "sys\<lparr>inboxes := (inboxes sys)(v := inboxes sys v)\<rparr> = sys"
  by simp

lemma sys_ok_lock: "sys_ok sys \<Longrightarrow> windows sys w = Some lk \<Longrightarrow> lock_ok w lk"
  by (simp add: sys_ok_def)

lemma sys_ok_link:
  "sys_ok sys \<Longrightarrow> windows sys w = Some lkw \<Longrightarrow> windows sys v = Some lkv \<Longrightarrow> w \<noteq> v \<Longrightarrow> link_ok sys w lkw v lkv"
  by (simp add: sys_ok_def)

text \<open>An operation that leaves the records of open peers alone.\<close>

lemma sys_local:
  assumes "sys_ok sys" "windows sys v = Some lk" "lock_ok v (fst e)" "announced v lk e"
    and "\<And>u lku. windows sys u = Some lku \<Longrightarrow> map_of (lock_peers (fst e)) u = map_of (lock_peers lk) u"
  shows "sys_ok (run_window v e sys)"
proof -
  have "sys_ok (run_window v e (sys\<lparr>inboxes := (inboxes sys)(v := inboxes sys v)\<rparr>))"
  proof (rule sys_update [OF assms(1-4)])
    fix u lku
    assume u: "u \<noteq> v" "windows sys u = Some lku"
    have "link_ok sys v lk u lku" using sys_ok_link [OF assms(1,2) u(2)] u(1) by simp
    then show "Bye u \<notin> set (inboxes sys v) \<and> view_after u (inboxes sys v) (record_of (fst e) u) =
        view_after u (inboxes sys v) (record_of lk u)"
      using assms(5) [OF u(2)] by (simp add: link_ok_def record_of_def)
    assume "\<not> has_key u (lock_peers lk)" "\<exists>f ss. Presence u f ss \<in> set (inboxes sys v)"
    then show "\<not> has_key u (lock_peers (fst e)) \<and> (\<exists>f ss. Presence u f ss \<in> set (inboxes sys v))"
      using assms(5) [OF u(2)] by (simp add: has_key_def)
  qed
  then show ?thesis by (simp only: inboxes_same)
qed

lemma sys_deliver:
  assumes ok: "sys_ok sys" and v: "windows sys v = Some lk" and box: "inboxes sys v = m # ms"
  shows "sys_ok (run_window v (onmessage now m lk) (sys\<lparr>inboxes := (inboxes sys)(v := ms)\<rparr>))"
proof -
  note lk = sys_ok_lock [OF ok v]
  show ?thesis
  proof (rule sys_update [OF ok v lock_ok_message [OF lk] announced_ops(4) [OF lk]])
    fix u lku
    assume u: "u \<noteq> v" "windows sys u = Some lku"
    have "link_ok sys v lk u lku" using sys_ok_link [OF ok v u(2)] u(1) by simp
    then have noBye: "Bye u \<notin> set (m # ms)" by (simp add: link_ok_def box)
    then show "Bye u \<notin> set ms \<and> view_after u ms (record_of (fst (onmessage now m lk)) u) =
        view_after u (inboxes sys v) (record_of lk u)"
      using u(1) by (cases m) (auto simp: box record_of_def peers_message [OF lk])
    assume new: "\<not> has_key u (lock_peers lk)" "\<exists>f ss. Presence u f ss \<in> set (inboxes sys v)"
      "fst (snd (onmessage now m lk)) = []"
    have "m \<noteq> Presence u f ss" for f ss
      using replies_to_newcomer [OF lk u(1) new(1)] new(3) by auto
    with new noBye show "\<not> has_key u (lock_peers (fst (onmessage now m lk))) \<and> (\<exists>f ss. Presence u f ss \<in> set ms)"
      by (cases m) (auto simp: box has_key_def peers_message [OF lk])
  qed
qed

lemma sys_ok_open:
  assumes ok: "sys_ok sys" and new: "new_window sys w"
    and lk: "initSessionLock foreground True now (fresh_lock w) = (lk, msgs)"
  shows "sys_ok (run_window w (lk, msgs, False) (sys\<lparr>inboxes := (inboxes sys)(w := [])\<rparr>))" (is "sys_ok ?S")
proof -
  have l: "lk = (fresh_lock w)\<lparr>lock_initialized := True, focusTs := (if foreground then now else 0),
      channel := True, lock_listeners := lock_events, heartbeatTimer := True\<rparr>" "msgs = [Presence w (focusTs lk) []]"
    using lk by (auto simp: initSessionLock_def fresh_lock_def postPresence_def)
  then have lk': "claimed lk = []" "record_of lk u = None" for u
    by (simp_all add: fresh_lock_def record_of_def)
  have wins: "windows ?S = (windows sys)(w \<mapsto> lk)"
    by (simp add: run_window_def broadcast_def)
  have box: "inboxes ?S v = (if v = w then [] else if windows sys v \<noteq> None then inboxes sys v @ msgs
      else inboxes sys v)" for v
    by (simp add: run_window_def broadcast_def)
  have closed: "windows sys w = None" using new by (simp add: new_window_def)
  have "lock_ok w lk"
    by (simp add: lock_ok_def l(1) fresh_lock_def has_key_def self_presence_def peersAsPresence_def computeOwned_def)
  moreover have "link_ok ?S w lk u lku" if u: "windows sys u = Some lku" for u lku
  proof -
    have "u \<noteq> w" "\<not> has_key w (lock_peers lku)" using u closed new by (auto simp: new_window_def)
    then show ?thesis
      using u by (simp add: link_ok_def box lk') (auto simp: l(2))
  qed
  moreover have "link_ok ?S u lku w lk" if u: "windows sys u = Some lku" for u lku
  proof -
    have quiet: "\<forall>m \<in> set (inboxes sys u). msg_sender m \<noteq> w"
      using u new by (simp add: new_window_def)
    have "u \<noteq> w" "Bye w \<notin> set (inboxes sys u)"
      using u closed bspec [OF quiet, of "Bye w"] by auto
    then have "Bye w \<notin> set (inboxes ?S u) \<and>
        view_after w (inboxes ?S u) (record_of lku w) = view_after w msgs (view_after w (inboxes sys u) (record_of lku w))"
      using u by (simp add: box) (simp add: l(2))
    then show ?thesis
      unfolding link_ok_def by (simp add: l(2) lk'(1))
  qed
  moreover have "link_ok ?S a la b lb"
    if "windows sys a = Some la" "windows sys b = Some lb" "a \<noteq> b" for a la b lb
  proof -
    have "a \<noteq> w" "b \<noteq> w" using that closed by auto
    then show ?thesis
      using sys_ok_link [OF ok that] that unfolding link_ok_def box
      by (auto simp: l(2) split: option.splits)
  qed
  ultimately show ?thesis
    unfolding sys_ok_def wins using ok by (auto simp: sys_ok_def split: if_splits)
qed

lemma sys_ok_leave:
  assumes "sys_ok sys" "msgs = [] \<or> msgs = [Bye w]"
  shows "sys_ok (broadcast w msgs (sys\<lparr>windows := (windows sys)(w := None)\<rparr>))" (is "sys_ok ?S")
proof -
  have "link_ok ?S a la b lb"
    if "windows sys a = Some la" "windows sys b = Some lb" "a \<noteq> b" "a \<noteq> w" "b \<noteq> w" for a la b lb
    using sys_ok_link [OF assms(1) that(1-3)] assms(2) that
    by (auto simp: link_ok_def broadcast_def split: option.splits)
  then show ?thesis
    using assms(1) by (auto simp: sys_ok_def broadcast_def split: if_splits)
qed

lemma sys_ok_step: "lock_step sys sys' \<Longrightarrow> sys_ok sys \<Longrightarrow> sys_ok sys'"
proof (induction rule: lock_step.induct)
  case (open_window sys w foreground now lk msgs)
  then show ?case by (intro sys_ok_open)
next
  case (claim sys w lk sid)
  note lk = sys_ok_lock [OF claim(2,1)]
  show ?case
    by (rule sys_local [OF claim(2,1) lock_ok_claim [OF lk] announced_ops(1) [OF lk]]) (simp add: peers_ops [OF lk])
next
  case (release sys w lk sid)
  note lk = sys_ok_lock [OF release(2,1)]
  show ?case
    by (rule sys_local [OF release(2,1) lock_ok_release [OF lk] announced_ops(2) [OF lk]]) (simp add: peers_ops [OF lk])
next
  case (focus sys w lk now)
  note lk = sys_ok_lock [OF focus(2,1)]
  show ?case
    by (rule sys_local [OF focus(2,1) lock_ok_focus [OF lk] announced_ops(3) [OF lk]]) (simp add: peers_ops [OF lk])
next
  case (deliver sys w lk m ms now)
  then show ?case by (intro sys_deliver)
next
  case (beat sys w lk now)
  note lk = sys_ok_lock [OF beat(3,1)]
  show ?case
    by (rule sys_local [OF beat(3,1) lock_ok_heartbeat [OF lk] announced_ops(5) [OF lk]])
      (use beat(2) in \<open>auto simp: peers_ops [OF lk]\<close>)
next
  case (close sys w lk)
  then show ?case by (intro sys_ok_leave) (auto simp: onPageHide_def sys_ok_def lock_ok_def)
next
  case (crash sys w lk)
  have "sys_ok (broadcast w [] (sys\<lparr>windows := (windows sys)(w := None)\<rparr>))"
    using crash(2) by (intro sys_ok_leave) simp_all
  then show ?case by (simp add: broadcast_def cong: if_cong)
qed

definition no_windows :: "lock_system \<Rightarrow> bool" where
  "no_windows sys \<longleftrightarrow> (\<forall>w. windows sys w = None)"

definition reachable_windows :: "lock_system \<Rightarrow> bool" where
  "reachable_windows = reachable_from no_windows lock_step"

interpretation lock: invariant_system no_windows lock_step sys_ok
  by unfold_locales (simp add: no_windows_def sys_ok_def, rule sys_ok_step)

lemma reachable_sys_ok: "reachable_windows sys \<Longrightarrow> sys_ok sys"
  unfolding reachable_windows_def by (rule lock.reachable_inv)


section \<open>Ownership once the messages are delivered\<close>

definition delivered :: "lock_system \<Rightarrow> bool" where
  "delivered sys \<longleftrightarrow> (\<forall>w. windows sys w \<noteq> None \<longrightarrow> inboxes sys w = [])"

lemma delivered_knows:
  assumes "sys_ok sys" "delivered sys" "windows sys w = Some lkw" "windows sys v = Some lkv" "w \<noteq> v"
  shows "\<exists>p. map_of (lock_peers lkw) v = Some p \<and> peer_focus p = focusTs lkv \<and> peer_sessions p = claimed lkv"
  using sys_ok_link [OF assms(1,3,4,5)] assms(2,3,4)
  by (force simp: delivered_def link_ok_def record_of_def split: option.splits)

lemma peersAsPresence_mem:
  assumes "map_of (lock_peers lk) v = Some p"
  shows "\<lparr>pres_window = v, pres_focus = peer_focus p, pres_sessions = peer_sessions p\<rparr> \<in> set (peersAsPresence lk)"
  using map_of_SomeD [OF assms] by (force simp: peersAsPresence_def)

lemma owner_beats_peer:
  assumes "sys_ok sys" "delivered sys" "windows sys w = Some lkw" "windows sys v = Some lkv" "w \<noteq> v"
    and "sid \<in> owned lkw" "sid \<in> set (claimed lkv)"
  shows "peer_wins (self_presence lkw) (self_presence lkv)"
proof -
  obtain p where p: "map_of (lock_peers lkw) v = Some p" "peer_focus p = focusTs lkv" "peer_sessions p = claimed lkv"
    using delivered_knows [OF assms(1-5)] by blast
  have ids: "windowId lkv = v" "windowId lkw = w"
    using sys_ok_lock [OF assms(1)] assms(3,4) by (auto simp: lock_ok_def)
  have "self_presence lkv \<in> set (peersAsPresence lkw)"
    using peersAsPresence_mem [OF p(1)] p(2,3) ids by (simp add: self_presence_def)
  moreover have "owned lkw = computeOwned (self_presence lkw) (peersAsPresence lkw)"
    using sys_ok_lock [OF assms(1,3)] by (simp add: lock_ok_def)
  ultimately have "\<not> peer_wins (self_presence lkv) (self_presence lkw)"
    using assms(6,7) by (force simp: computeOwned_eq self_presence_def)
  then show ?thesis
    using peer_wins_total [of "self_presence lkw" "self_presence lkv"] ids assms(5)
    by (simp add: self_presence_def)
qed

text \<open>So the owner is the claimant with the greatest standing.\<close>

lemma owner_strongest:
  assumes "sys_ok sys" "delivered sys" "windows sys w = Some lkw" "windows sys v = Some lkv"
    and "sid \<in> owned lkw" "sid \<in> set (claimed lkv)"
  shows "standing_of (self_presence lkv) \<le> standing_of (self_presence lkw)"
  using owner_beats_peer [OF assms(1-4) _ assms(5,6)] assms(3,4) by (cases "w = v") (auto simp: peer_wins_less)

lemma owned_claimed: "lock_ok w lk \<Longrightarrow> owned lk \<subseteq> set (claimed lk)"
  by (auto simp: lock_ok_def computeOwned_eq self_presence_def)

lemma single_owner:
  assumes "sys_ok sys" "delivered sys" "windows sys w = Some lkw" "windows sys v = Some lkv" "w \<noteq> v"
  shows "owned lkw \<inter> owned lkv = {}"
proof -
  have False if "sid \<in> owned lkw" "sid \<in> owned lkv" for sid
  proof -
    have "sid \<in> set (claimed lkw)" "sid \<in> set (claimed lkv)"
      using that owned_claimed sys_ok_lock [OF assms(1)] assms(3,4) by blast+
    then have "peer_wins (self_presence lkw) (self_presence lkv)" "peer_wins (self_presence lkv) (self_presence lkw)"
      using owner_beats_peer [OF assms] owner_beats_peer [OF assms(1,2,4,3)] assms(5) that by auto
    then show False using peer_wins_trans peer_wins_irrefl by blast
  qed
  then show ?thesis by blast
qed

text \<open>The window that beats every other claimant owns the session, when no record of a gone window is left.\<close>

lemma strongest_owns:
  assumes "sys_ok sys" "delivered sys" "windows sys w = Some lk" "sid \<in> set (claimed lk)"
    and "\<And>i. has_key i (lock_peers lk) \<Longrightarrow> windows sys i \<noteq> None"
    and "\<And>v lkv. windows sys v = Some lkv \<Longrightarrow> sid \<in> set (claimed lkv) \<Longrightarrow> v \<noteq> w \<Longrightarrow>
      peer_wins (self_presence lk) (self_presence lkv)"
  shows "sid \<in> owned lk"
proof -
  have ok: "lock_ok w lk" using sys_ok_lock [OF assms(1,3)] .
  have "\<not> peer_wins q (self_presence lk)" if q: "q \<in> set (peersAsPresence lk)" "sid \<in> set (pres_sessions q)" for q
  proof -
    obtain i p where ip: "(i, p) \<in> set (lock_peers lk)"
        "q = \<lparr>pres_window = i, pres_focus = peer_focus p, pres_sessions = peer_sessions p\<rparr>"
      using q(1) by (auto simp: peersAsPresence_def)
    then have i: "map_of (lock_peers lk) i = Some p" using ok by (simp add: lock_ok_def)
    then obtain lki where lki: "windows sys i = Some lki" using assms(5) [of i] by (auto simp: has_key_def)
    have "i \<noteq> w" using i ok by (auto simp: lock_ok_def has_key_def)
    then have "peer_focus p = focusTs lki" "peer_sessions p = claimed lki"
      using delivered_knows [OF assms(1,2,3) lki] i by auto
    moreover have "windowId lki = i" using sys_ok_lock [OF assms(1) lki] by (simp add: lock_ok_def)
    ultimately have qi: "q = self_presence lki" using ip(2) by (simp add: self_presence_def)
    then have "peer_wins (self_presence lk) q"
      using assms(6) [OF lki] q(2) \<open>i \<noteq> w\<close> by (simp add: self_presence_def)
    then show ?thesis using peer_wins_trans peer_wins_irrefl by blast
  qed
  then show ?thesis
    using ok assms(4) by (simp add: lock_ok_def computeOwned_eq self_presence_def)
qed


interpretation lock_finite: invariant_system no_windows lock_step "\<lambda>sys. finite (dom (windows sys))"
proof unfold_locales
  fix sys sys' :: lock_system
  show "finite (dom (windows sys))" if "no_windows sys"
    using that by (simp add: no_windows_def dom_def)
  show "finite (dom (windows sys'))" if "lock_step sys sys'" "finite (dom (windows sys))"
    using that by (induction rule: lock_step.induct) (simp_all add: run_window_def broadcast_def dom_if)
qed

lemma reachable_finite: "reachable_windows sys \<Longrightarrow> finite (dom (windows sys))"
  unfolding reachable_windows_def by (rule lock_finite.reachable_inv)

lemma owner_exists:
  assumes ok: "sys_ok sys" "delivered sys" and fin: "finite (dom (windows sys))"
    and known: "\<And>w lk i. windows sys w = Some lk \<Longrightarrow> has_key i (lock_peers lk) \<Longrightarrow> windows sys i \<noteq> None"
    and claim: "windows sys u = Some lku" "sid \<in> set (claimed lku)"
  shows "\<exists>w lk. windows sys w = Some lk \<and> sid \<in> owned lk"
proof -
  let ?S = "{self_presence lk | lk w. windows sys w = Some lk \<and> sid \<in> set (claimed lk)}"
  have "?S \<subseteq> (\<lambda>w. self_presence (the (windows sys w))) ` dom (windows sys)" by force
  then have "finite ?S" using fin finite_subset by blast
  moreover have "?S \<noteq> {}" using claim by blast
  moreover have "inj_on pres_window ?S"
    using sys_ok_lock [OF ok(1)] by (force simp: inj_on_def self_presence_def lock_ok_def)
  ultimately obtain p where p: "p \<in> ?S" "\<forall>q \<in> ?S. q \<noteq> p \<longrightarrow> peer_wins p q"
    using strongest_exists [of ?S] by blast
  then obtain w lk where w: "p = self_presence lk" "windows sys w = Some lk" "sid \<in> set (claimed lk)" by blast
  have "peer_wins (self_presence lk) (self_presence lkv)"
    if v: "windows sys v = Some lkv" "sid \<in> set (claimed lkv)" "v \<noteq> w" for v lkv
  proof -
    have "windowId lkv \<noteq> windowId lk" using v w sys_ok_lock [OF ok(1)] by (auto simp: lock_ok_def)
    then have "self_presence lkv \<noteq> p" by (simp add: w(1) self_presence_def)
    then show ?thesis using p(2) v w(1) by blast
  qed
  then have "sid \<in> owned lk"
    using strongest_owns [OF ok w(2,3)] known [OF w(2)] by blast
  then show ?thesis using w(2) by blast
qed

section \<open>A concrete run of two windows\<close>

definition do_deliver :: "int \<Rightarrow> string \<Rightarrow> lock_system \<Rightarrow> lock_system" where
  "do_deliver now w sys =
     (case windows sys w of None \<Rightarrow> sys
      | Some lk \<Rightarrow> (case inboxes sys w of [] \<Rightarrow> sys
          | m # ms \<Rightarrow> run_window w (onmessage now m lk) (sys\<lparr>inboxes := (inboxes sys)(w := ms)\<rparr>)))"

definition do_claim :: "string \<Rightarrow> string \<Rightarrow> lock_system \<Rightarrow> lock_system" where
  "do_claim sid w sys =
     (case windows sys w of None \<Rightarrow> sys | Some lk \<Rightarrow> run_window w (claimSession sid lk) sys)"

definition do_open :: "int \<Rightarrow> string \<Rightarrow> lock_system \<Rightarrow> lock_system" where
  "do_open now w sys = (let (lk, msgs) = initSessionLock True True now (fresh_lock w)
     in run_window w (lk, msgs, False) (sys\<lparr>inboxes := (inboxes sys)(w := [])\<rparr>))"

lemma reachable_do:
  assumes "reachable_windows sys"
  shows "reachable_windows (do_deliver now w sys)" "reachable_windows (do_claim sid w sys)"
    "new_window sys w \<Longrightarrow> reachable_windows (do_open now w sys)"
proof -
  note step = reachable_step [OF assms [unfolded reachable_windows_def], folded reachable_windows_def]
  show "reachable_windows (do_deliver now w sys)"
    using assms by (auto simp: do_deliver_def intro!: step lock_step.deliver split: option.split list.split)
  show "reachable_windows (do_claim sid w sys)"
    using assms by (auto simp: do_claim_def intro!: step lock_step.claim split: option.split)
  show "reachable_windows (do_open now w sys)" if "new_window sys w"
    using that by (auto simp: do_open_def intro!: step lock_step.open_window split: prod.split)
qed

definition ex_first_window :: lock_system where
  "ex_first_window = do_claim ''s'' ''a'' (do_open 1 ''a'' \<lparr>windows = \<lambda>_. None, inboxes = \<lambda>_. []\<rparr>)"

definition ex_windows :: lock_system where
  "ex_windows = do_deliver 5 ''a'' (do_deliver 5 ''b'' (do_deliver 4 ''a'' (do_deliver 4 ''a''
     (do_claim ''s'' ''b'' (do_open 2 ''b'' ex_first_window)))))"

lemmas ex_run_simps = do_deliver_def do_claim_def do_open_def run_window_def broadcast_def
  initSessionLock_def fresh_lock_def postPresence_def claimSession_def onmessage_def recompute_def
  computeOwned_def self_presence_def peersAsPresence_def setsEqual_def peer_wins_def js_set_def has_key_def

lemma ex_first_reachable: "reachable_windows ex_first_window" "new_window ex_first_window ''b''"
proof -
  have "reachable_windows \<lparr>windows = \<lambda>_. None, inboxes = \<lambda>_. []\<rparr>"
    unfolding reachable_windows_def by (rule reachable_start) (simp add: no_windows_def)
  then show "reachable_windows ex_first_window"
    unfolding ex_first_window_def by (auto intro!: reachable_do simp: new_window_def)
  show "new_window ex_first_window ''b''"
    by (simp add: ex_first_window_def ex_run_simps new_window_def)
qed

lemma ex_windows_reachable: "reachable_windows ex_windows"
  unfolding ex_windows_def by (intro reachable_do ex_first_reachable)

lemma ex_windows_eq:
  "windows ex_windows = [''a'' \<mapsto> \<lparr>windowId = ''a'', focusTs = 1, claimed = [''s''], owned = {},
       lock_peers = [(''b'', \<lparr>peer_focus = 2, peer_sessions = [''s''], lastSeen = 5\<rparr>)],
       channel = True, heartbeatTimer = True, lock_initialized = True, lock_listeners = lock_events\<rparr>,
     ''b'' \<mapsto> \<lparr>windowId = ''b'', focusTs = 2, claimed = [''s''], owned = {''s''},
       lock_peers = [(''a'', \<lparr>peer_focus = 1, peer_sessions = [''s''], lastSeen = 5\<rparr>)],
       channel = True, heartbeatTimer = True, lock_initialized = True, lock_listeners = lock_events\<rparr>]"
  "inboxes ex_windows w = []"
  by (simp_all add: ex_windows_def ex_first_window_def ex_run_simps fun_eq_iff)

lemma ex_windows_delivered: "delivered ex_windows"
  by (simp add: delivered_def ex_windows_eq)

end
