(* ===== verification/LockProgress.thy ===== *)
theory LockProgress
  imports SessionLock
begin

text \<open>
  The windows of \<open>frontend/src/lib/sessionLock.ts\<close> settle: when nothing but the channel acts, delivering
  the posted messages comes to an end, although a window answers a newcomer with a message of its own. A
  delivery removes a \<open>bye\<close>, or makes a window known to another, or only shortens a queue.
\<close>

section \<open>Systems whose runs end\<close>

locale terminating_system =
  fixes step :: "'s \<Rightarrow> 's \<Rightarrow> bool"
    and inv :: "'s \<Rightarrow> bool"
    and less :: "('s \<times> 's) set"
  assumes wf_less: "wf less"
    and step_less: "inv s \<Longrightarrow> step s t \<Longrightarrow> (t, s) \<in> less"
    and step_inv: "inv s \<Longrightarrow> step s t \<Longrightarrow> inv t"
begin

lemma run_ends: "inv (f 0) \<Longrightarrow> \<exists>i. \<not> step (f i) (f (Suc i))"
proof (rule ccontr)
  assume "inv (f 0)" "\<nexists>i. \<not> step (f i) (f (Suc i))"
  then have all: "step (f i) (f (Suc i))" for i by blast
  have "inv (f i)" for i
    by (induction i) (use \<open>inv (f 0)\<close> all step_inv in blast)+
  then have "(f (Suc i), f i) \<in> less" for i using step_less all by blast
  then show False using wf_less unfolding wf_iff_no_infinite_down_chain by blast
qed

lemma reaches_end: "inv s \<Longrightarrow> \<exists>t. step\<^sup>*\<^sup>* s t \<and> (\<forall>u. \<not> step t u)"
  using wf_less
proof (induction s rule: wf_induct_rule)
  case (less s)
  show ?case
  proof (cases "\<exists>t. step s t")
    case True
    then obtain t where t: "step s t" by blast
    then obtain u where "step\<^sup>*\<^sup>* t u" "\<forall>v. \<not> step u v"
      using less.IH [OF step_less [OF less.prems t] step_inv [OF less.prems t]] by blast
    then show ?thesis using converse_rtranclp_into_rtranclp [of step s t u] t by blast
  qed blast
qed

end

section \<open>Deliveries\<close>

inductive deliver_step :: "lock_system \<Rightarrow> lock_system \<Rightarrow> bool" where
  "windows sys w = Some lk \<Longrightarrow> inboxes sys w = m # ms \<Longrightarrow>
     deliver_step sys (run_window w (onmessage now m lk) (sys\<lparr>inboxes := (inboxes sys)(w := ms)\<rparr>))"

lemma deliver_is_step: "deliver_step sys sys' \<Longrightarrow> lock_step sys sys'"
  by (induction rule: deliver_step.induct) (rule lock_step.deliver)

inductive_cases deliver_stepE: "deliver_step sys sys'"

lemma undelivered_step: "\<not> delivered sys \<Longrightarrow> \<exists>sys'. deliver_step sys sys'"
proof -
  assume "\<not> delivered sys"
  then obtain w lk where "windows sys w = Some lk" "inboxes sys w \<noteq> []" by (auto simp: delivered_def)
  then show ?thesis by (cases "inboxes sys w") (auto intro: deliver_step.intros)
qed

fun is_bye :: "lock_msg \<Rightarrow> bool" where
  "is_bye (Bye i) = True"
| "is_bye (Presence i f ss) = False"

definition over_windows :: "(string \<Rightarrow> nat) \<Rightarrow> lock_system \<Rightarrow> nat" where
  "over_windows f sys = sum f (dom (windows sys))"

definition byes :: "lock_system \<Rightarrow> nat" where
  "byes sys = over_windows (\<lambda>w. length (filter is_bye (inboxes sys w))) sys"

definition strangers :: "string set \<Rightarrow> lock_system \<Rightarrow> nat" where
  "strangers ids sys = over_windows (\<lambda>w. card {i \<in> ids. \<not> has_key i (lock_peers (the (windows sys w)))}) sys"

definition messages :: "lock_system \<Rightarrow> nat" where
  "messages sys = over_windows (\<lambda>w. length (inboxes sys w)) sys"

text \<open>\<open>ids\<close> holds every window that can be heard of.\<close>

definition delivery_ok :: "string set \<Rightarrow> lock_system \<Rightarrow> bool" where
  "delivery_ok ids sys \<longleftrightarrow> finite ids \<and> dom (windows sys) \<subseteq> ids \<and> sys_ok sys \<and>
     (\<forall>w \<in> dom (windows sys). \<forall>m \<in> set (inboxes sys w). msg_sender m \<in> ids)"

lemma over_windows_less:
  assumes "finite (dom (windows sys))" "dom (windows sys') = dom (windows sys)"
    and "\<And>u. u \<in> dom (windows sys) \<Longrightarrow> f' u \<le> f u" "w \<in> dom (windows sys)" "f' w < f w"
  shows "over_windows f' sys' < over_windows f sys"
  unfolding over_windows_def assms(2) by (rule sum_strict_mono_ex1) (use assms in auto)

lemma over_windows_same:
  assumes "dom (windows sys') = dom (windows sys)" "\<And>u. u \<in> dom (windows sys) \<Longrightarrow> f' u = f u"
  shows "over_windows f' sys' = over_windows f sys"
  unfolding over_windows_def assms(1) by (rule sum.cong) (use assms in auto)

text \<open>What a delivery does to the receiver and what it posts.\<close>

lemma onmessage_keys:
  assumes "lock_ok w lk"
  shows "has_key k (lock_peers (fst (onmessage now m lk))) \<longleftrightarrow> (case m of
      Bye i \<Rightarrow> k \<noteq> i \<and> has_key k (lock_peers lk)
    | Presence i f ss \<Rightarrow> (i \<noteq> w \<and> k = i) \<or> has_key k (lock_peers lk))"
  using assms by (auto simp: has_key_def peers_message [OF assms] split: lock_msg.split)

lemma onmessage_posts:
  assumes "lock_ok w lk"
  shows "fst (snd (onmessage now m lk)) = [] \<or>
    (\<exists>i f ss. m = Presence i f ss \<and> i \<noteq> w \<and> \<not> has_key i (lock_peers lk) \<and>
      fst (snd (onmessage now m lk)) = [Presence w (focusTs lk) (claimed lk)])"
  using assms
  by (cases m) (auto simp: onmessage_def Let_def case_prod_beta recompute_fst lock_ok_def postPresence_def)

lemma deliver_fields:
  assumes "windows sys w = Some lk" "sys' = run_window w e (sys\<lparr>inboxes := (inboxes sys)(w := ms)\<rparr>)"
  shows "windows sys' = (windows sys)(w \<mapsto> fst e)" "dom (windows sys') = dom (windows sys)"
    "u \<in> dom (windows sys) \<Longrightarrow> inboxes sys' u = (if u = w then ms else inboxes sys u @ fst (snd e))"
  using assms by (auto simp: run_window_def broadcast_def)

lemma deliver_less:
  assumes "delivery_ok ids sys" "deliver_step sys sys'"
  shows "(sys', sys) \<in> measures [byes, strangers ids, messages]"
  using assms(2)
proof cases
  case (1 w lk m ms now)
  let ?e = "onmessage now m lk"
  note fields = deliver_fields [OF 1(2,1)]
  have fin: "finite (dom (windows sys))" and w: "w \<in> dom (windows sys)" and lk: "lock_ok w lk"
    using assms(1) 1(2) sys_ok_lock finite_subset by (auto simp: delivery_ok_def)
  have keys: "has_key k (lock_peers (the (windows sys' u))) \<longleftrightarrow> has_key k (lock_peers (the (windows sys u)))"
    if "u \<noteq> w" for k u using that by (simp add: fields(1))
  show ?thesis
  proof (cases m)
    case (Bye i)
    have "fst (snd ?e) = []" using onmessage_posts [OF lk, of now m] Bye by auto
    then have "byes sys' < byes sys"
      unfolding byes_def using w by (intro over_windows_less [OF fin fields(2) _ w]) (auto simp: fields(3) 1(3) Bye)
    then show ?thesis by simp
  next
    case (Presence i f ss)
    have posts: "filter is_bye (fst (snd ?e)) = []" using onmessage_posts [OF lk, of now m] by auto
    have B: "byes sys' = byes sys"
      unfolding byes_def using posts by (intro over_windows_same [OF fields(2)]) (auto simp: fields(3) 1(3) Presence)
    have i: "i \<in> ids" using assms(1) w 1(3) Presence by (force simp: delivery_ok_def)
    have ids: "finite ids" using assms(1) by (simp add: delivery_ok_def)
    have self: "{k \<in> ids. \<not> has_key k (lock_peers (the (windows sys' w)))} =
        {k \<in> ids. \<not> has_key k (lock_peers lk)} - (if i \<noteq> w then {i} else {})"
      by (auto simp: fields(1) onmessage_keys [OF lk] Presence)
    show ?thesis
    proof (cases "i \<noteq> w \<and> \<not> has_key i (lock_peers lk)")
      case True
      then have "card {k \<in> ids. \<not> has_key k (lock_peers (the (windows sys' w)))} <
          card {k \<in> ids. \<not> has_key k (lock_peers lk)}"
        unfolding self using i ids by (intro psubset_card_mono) auto
      moreover have "card {k \<in> ids. \<not> has_key k (lock_peers (the (windows sys' u)))} \<le>
          card {k \<in> ids. \<not> has_key k (lock_peers (the (windows sys u)))}" for u
        using calculation 1(2) keys [of u] by (cases "u = w") simp_all
      ultimately have "strangers ids sys' < strangers ids sys"
        unfolding strangers_def using 1(2) by (intro over_windows_less [OF fin fields(2) _ w]) simp_all
      then show ?thesis using B by simp
    next
      case False
      then have "{k \<in> ids. \<not> has_key k (lock_peers (the (windows sys' w)))} = {k \<in> ids. \<not> has_key k (lock_peers lk)}"
        unfolding self by auto
      then have "card {k \<in> ids. \<not> has_key k (lock_peers (the (windows sys' u)))} =
          card {k \<in> ids. \<not> has_key k (lock_peers (the (windows sys u)))}" for u
        using 1(2) keys [of u] by (cases "u = w") simp_all
      then have S: "strangers ids sys' = strangers ids sys"
        unfolding strangers_def by (intro over_windows_same [OF fields(2)])
      have "fst (snd ?e) = []" using onmessage_posts [OF lk, of now m] False Presence by auto
      then have "messages sys' < messages sys"
        unfolding messages_def by (intro over_windows_less [OF fin fields(2) _ w]) (auto simp: fields(3) 1(3) w)
      then show ?thesis using B S by simp
    qed
  qed
qed

lemma delivery_ok_step:
  assumes "delivery_ok ids sys" "deliver_step sys sys'"
  shows "delivery_ok ids sys'"
proof -
  have ok: "sys_ok sys'" using assms sys_ok_step deliver_is_step by (auto simp: delivery_ok_def)
  show ?thesis using assms(2)
  proof cases
    case (1 w lk m ms now)
    note fields = deliver_fields [OF 1(2,1)]
    have lk: "lock_ok w lk" using assms(1) 1(2) sys_ok_lock by (auto simp: delivery_ok_def)
    have "msg_sender x \<in> ids" if "x \<in> set (fst (snd (onmessage now m lk)))" for x
      using that onmessage_posts [OF lk, of now m] assms(1) 1(2) by (auto simp: delivery_ok_def)
    then show ?thesis
      using ok assms(1) 1(3) unfolding delivery_ok_def fields(2) by (auto simp: fields(3) split: if_splits)
  qed
qed

interpretation delivery: terminating_system deliver_step "delivery_ok ids" "measures [byes, strangers ids, messages]" for ids
  by unfold_locales (simp, rule deliver_less, assumption+, rule delivery_ok_step)

lemma reachable_delivery_ok:
  assumes "reachable_windows sys"
  shows "\<exists>ids. delivery_ok ids sys"
proof -
  let ?ids = "dom (windows sys) \<union> (\<Union>w \<in> dom (windows sys). msg_sender ` set (inboxes sys w))"
  have "delivery_ok ?ids sys"
    using reachable_finite [OF assms] reachable_sys_ok [OF assms] unfolding delivery_ok_def by blast
  then show ?thesis by blast
qed

lemma run_reachable: "deliver_step\<^sup>*\<^sup>* sys sys' \<Longrightarrow> reachable_windows sys \<Longrightarrow> reachable_windows sys'"
  by (induction rule: rtranclp_induct)
    (auto simp: reachable_windows_def intro: reachable_step deliver_is_step)

lemma deliveries_end:
  assumes "reachable_windows sys"
  shows "f 0 = sys \<Longrightarrow> \<exists>i. \<not> deliver_step (f i) (f (Suc i))"
    and "\<exists>sys'. deliver_step\<^sup>*\<^sup>* sys sys' \<and> reachable_windows sys' \<and> delivered sys'"
proof -
  obtain ids where ids: "delivery_ok ids sys" using reachable_delivery_ok [OF assms] by blast
  show "f 0 = sys \<Longrightarrow> \<exists>i. \<not> deliver_step (f i) (f (Suc i))" using delivery.run_ends [of ids f] ids by simp
  show "\<exists>sys'. deliver_step\<^sup>*\<^sup>* sys sys' \<and> reachable_windows sys' \<and> delivered sys'"
    using delivery.reaches_end [OF ids] undelivered_step run_reachable assms by blast
qed

section \<open>No window that is gone\<close>

text \<open>Every window some record or message is about is open; \<open>wants\<close>: an open window wants the session.\<close>

definition all_alive :: "lock_system \<Rightarrow> bool" where
  "all_alive sys \<longleftrightarrow> (\<forall>w lk. windows sys w = Some lk \<longrightarrow>
     (\<forall>i. has_key i (lock_peers lk) \<longrightarrow> windows sys i \<noteq> None) \<and>
     (\<forall>m \<in> set (inboxes sys w). windows sys (msg_sender m) \<noteq> None))"

definition wants :: "lock_system \<Rightarrow> string \<Rightarrow> string \<Rightarrow> bool" where
  "wants sys u sid \<longleftrightarrow> (\<exists>lk. windows sys u = Some lk \<and> sid \<in> set (claimed lk))"

lemma onmessage_claimed: "lock_ok w lk \<Longrightarrow> claimed (fst (onmessage now m lk)) = claimed lk"
  by (cases m) (auto simp: onmessage_def Let_def case_prod_beta recompute_fst lock_ok_def)

lemma alive_step:
  assumes "sys_ok sys" "deliver_step sys sys'" "all_alive sys"
  shows "all_alive sys'" "wants sys' u sid \<longleftrightarrow> wants sys u sid"
proof -
  from assms(2) obtain w lk m ms now where
    1: "sys' = run_window w (onmessage now m lk) (sys\<lparr>inboxes := (inboxes sys)(w := ms)\<rparr>)"
      "windows sys w = Some lk" "inboxes sys w = m # ms"
    by (rule deliver_stepE)
  note fields = deliver_fields [OF 1(2,1)]
  have lk: "lock_ok w lk" using assms(1) 1(2) sys_ok_lock by blast
  have dom: "windows sys' i \<noteq> None \<longleftrightarrow> windows sys i \<noteq> None" for i using fields(2) by (auto simp: dom_def)
  have alive: "windows sys i \<noteq> None" if "windows sys v = Some lkv" "has_key i (lock_peers lkv)" for v lkv i
    using assms(3) that by (auto simp: all_alive_def)
  have sent: "windows sys (msg_sender x) \<noteq> None" if "windows sys v = Some lkv" "x \<in> set (inboxes sys v)" for v lkv x
    using assms(3) that unfolding all_alive_def by blast
  have keys: "windows sys i \<noteq> None" if "has_key i (lock_peers (fst (onmessage now m lk)))" for i
    using that alive [OF 1(2)] sent [OF 1(2), of m] 1(3) by (cases m) (auto simp: onmessage_keys [OF lk])
  have posts: "windows sys (msg_sender x) \<noteq> None" if "x \<in> set (fst (snd (onmessage now m lk)))" for x
    using that onmessage_posts [OF lk, of now m] 1(2) by auto
  show "all_alive sys'"
    unfolding all_alive_def dom
  proof (intro allI impI conjI ballI)
    fix v lkv i
    assume v: "windows sys' v = Some lkv" "has_key i (lock_peers lkv)"
    show "windows sys i \<noteq> None"
      using v keys alive by (cases "v = w") (auto simp: fields(1))
  next
    fix v lkv x
    assume v: "windows sys' v = Some lkv" and x: "x \<in> set (inboxes sys' v)"
    obtain lkv0 where v0: "windows sys v = Some lkv0" using v dom [of v] by auto
    then have "x \<in> set ms \<or> x \<in> set (inboxes sys v) \<or> x \<in> set (fst (snd (onmessage now m lk)))"
      using x by (auto simp: fields(3) domI split: if_splits)
    then show "windows sys (msg_sender x) \<noteq> None"
      using sent [OF v0] sent [OF 1(2)] posts 1(3) by auto
  qed
  show "wants sys' u sid \<longleftrightarrow> wants sys u sid"
    using 1(2) onmessage_claimed [OF lk] by (auto simp: wants_def fields(1))
qed

lemma alive_run:
  "deliver_step\<^sup>*\<^sup>* sys sys' \<Longrightarrow> sys_ok sys \<Longrightarrow> all_alive sys \<Longrightarrow> all_alive sys' \<and> (wants sys' u sid \<longleftrightarrow> wants sys u sid)"
proof (induction rule: rtranclp_induct)
  case (step y z)
  have "sys_ok y"
    using step.hyps(1) step.prems(1) by (induction rule: rtranclp_induct) (auto intro: sys_ok_step deliver_is_step)
  with step show ?case using alive_step [of y z] by blast
qed simp

text \<open>
  What the lock promises: a session belongs to the window that wants it and has the greatest standing, that is, to the
  one focused last.
\<close>

definition rightful_owner :: "lock_system \<Rightarrow> string \<Rightarrow> string \<Rightarrow> bool" where
  "rightful_owner sys sid w \<longleftrightarrow> (\<exists>lk. windows sys w = Some lk \<and> sid \<in> set (claimed lk) \<and>
     (\<forall>v lkv. windows sys v = Some lkv \<and> sid \<in> set (claimed lkv) \<longrightarrow>
        standing_of (self_presence lkv) \<le> standing_of (self_presence lk)))"

lemma owner_is_rightful:
  assumes ok: "sys_ok sys" "delivered sys" and alive: "all_alive sys" and w: "windows sys w = Some lk"
  shows "sid \<in> owned lk \<longleftrightarrow> rightful_owner sys sid w"
proof
  assume "sid \<in> owned lk"
  then show "rightful_owner sys sid w"
    using owner_strongest [OF ok w] owned_claimed [OF sys_ok_lock [OF ok(1) w]] w unfolding rightful_owner_def by blast
next
  assume "rightful_owner sys sid w"
  then have claim: "sid \<in> set (claimed lk)"
      and best: "windows sys v = Some lkv \<Longrightarrow> sid \<in> set (claimed lkv) \<Longrightarrow>
        standing_of (self_presence lkv) \<le> standing_of (self_presence lk)" for v lkv
    using w by (auto simp: rightful_owner_def)
  show "sid \<in> owned lk"
  proof (rule strongest_owns [OF ok w claim])
    show "windows sys i \<noteq> None" if "has_key i (lock_peers lk)" for i
      using alive w that by (auto simp: all_alive_def)
    show "peer_wins (self_presence lk) (self_presence lkv)"
      if v: "windows sys v = Some lkv" "sid \<in> set (claimed lkv)" "v \<noteq> w" for v lkv
    proof -
      have "pres_window (self_presence lkv) \<noteq> pres_window (self_presence lk)"
        using sys_ok_lock [OF ok(1)] w v(1,3) by (auto simp: self_presence_def lock_ok_def)
      then show ?thesis using best [OF v(1,2)] standing_eq unfolding peer_wins_less by (metis le_neq_trans)
    qed
  qed
qed

lemma rightful_unique:
  assumes "sys_ok sys" "rightful_owner sys sid w" "rightful_owner sys sid v"
  shows "w = v"
proof -
  obtain lkw where w: "windows sys w = Some lkw" "sid \<in> set (claimed lkw)"
      "\<And>u lku. windows sys u = Some lku \<Longrightarrow> sid \<in> set (claimed lku) \<Longrightarrow>
        standing_of (self_presence lku) \<le> standing_of (self_presence lkw)"
    using assms(2) unfolding rightful_owner_def by blast
  obtain lkv where v: "windows sys v = Some lkv" "sid \<in> set (claimed lkv)"
      "\<And>u lku. windows sys u = Some lku \<Longrightarrow> sid \<in> set (claimed lku) \<Longrightarrow>
        standing_of (self_presence lku) \<le> standing_of (self_presence lkv)"
    using assms(3) unfolding rightful_owner_def by blast
  have "standing_of (self_presence lkw) = standing_of (self_presence lkv)"
    by (rule antisym [OF v(3) [OF w(1,2)] w(3) [OF v(1,2)]])
  then have "windowId lkw = windowId lkv" using standing_eq by (fastforce simp: self_presence_def)
  then show ?thesis
    using sys_ok_lock [OF assms(1) w(1)] sys_ok_lock [OF assms(1) v(1)] by (simp add: lock_ok_def)
qed

lemma settled_owner:
  assumes "reachable_windows sys" "all_alive sys" "wants sys u sid" "deliver_step\<^sup>*\<^sup>* sys sys'" "delivered sys'"
  shows "\<exists>!w. rightful_owner sys' sid w" "windows sys' w = Some lk \<Longrightarrow> sid \<in> owned lk \<longleftrightarrow> rightful_owner sys' sid w"
proof -
  have reach: "reachable_windows sys'" using run_reachable [OF assms(4,1)] .
  note ok = reachable_sys_ok [OF reach]
  have alive: "all_alive sys'" "wants sys' u sid"
    using alive_run [OF assms(4) reachable_sys_ok [OF assms(1)] assms(2)] assms(3) by auto
  note owner = owner_is_rightful [OF ok assms(5) alive(1)]
  show "windows sys' w = Some lk \<Longrightarrow> sid \<in> owned lk \<longleftrightarrow> rightful_owner sys' sid w" by (rule owner)
  obtain lku where u: "windows sys' u = Some lku" "sid \<in> set (claimed lku)" using alive(2) by (auto simp: wants_def)
  have known: "windows sys' i \<noteq> None" if "windows sys' v = Some lkv" "has_key i (lock_peers lkv)" for v lkv i
    using alive(1) that by (auto simp: all_alive_def)
  have "\<exists>v lkv. windows sys' v = Some lkv \<and> sid \<in> owned lkv"
    by (rule owner_exists [OF ok assms(5) reachable_finite [OF reach] _ u]) (rule known)
  then show "\<exists>!w. rightful_owner sys' sid w" using owner rightful_unique [OF ok] by blast
qed

text \<open>Two windows at the moment the second one has opened and claimed, nothing delivered yet.\<close>

definition ex_undelivered :: lock_system where
  "ex_undelivered = do_claim ''s'' ''b'' (do_open 2 ''b'' ex_first_window)"

lemma ex_undelivered_reachable: "reachable_windows ex_undelivered"
  unfolding ex_undelivered_def by (intro reachable_do ex_first_reachable)

lemma ex_undelivered_eq:
  "dom (windows ex_undelivered) = {''a'', ''b''}" "inboxes ex_undelivered ''a'' \<noteq> []"
  "windows ex_undelivered v = Some lk \<Longrightarrow> lock_peers lk = []"
  "m \<in> set (inboxes ex_undelivered v) \<Longrightarrow> msg_sender m = ''b''"
  "wants ex_undelivered ''a'' ''s''"
  by (auto simp: ex_undelivered_def ex_first_window_def ex_run_simps wants_def split: if_splits)

lemma ex_undelivered_alive: "all_alive ex_undelivered"
proof -
  have "windows ex_undelivered ''b'' \<noteq> None" using ex_undelivered_eq(1) by auto
  then show ?thesis
    using ex_undelivered_eq(3,4) unfolding all_alive_def by (fastforce simp: has_key_def)
qed

end
