(* ===== verification/AppState.thy ===== *)
theory AppState
  imports PanelPersistence
begin

text \<open>
  The data of \<open>frontend/src/stores/appStore.ts\<close> and \<open>frontend/src/types/index.ts\<close>: the records the
  server sends, the store's state, and the module-level idle tracker (\<open>busyTrack\<close>, \<open>idleTimers\<close> and
  the browser's pending timers), with the functions that only read the state or only touch the
  tracker.
\<close>

section \<open>Records of the server\<close>

record workspace =
  ws_id :: string
  ws_name :: string
  ws_sortOrder :: int
  ws_createdAt :: string
  ws_updatedAt :: string

record session =
  s_id :: string
  s_workspaceId :: string
  s_title :: string
  s_shell :: "string option"
  s_cwd :: "string option"
  s_sortOrder :: int
  s_createdAt :: string
  s_updatedAt :: string

section \<open>The store's state\<close>

record session_activity =
  unread :: bool
  lastOutputAt :: int
  notifiedAt :: int

record toast =
  t_id :: string
  t_sessionId :: string
  t_workspaceId :: string
  t_sessionTitle :: string
  t_createdAt :: int

record app_state =
  workspaces :: "workspace list"
  sessions :: "session list obj"
  activeWorkspaceId :: "string option"
  activeSessionId :: "string option"
  activeSessionByWorkspace :: "string obj"
  sessionActivity :: "session_activity obj"
  toasts :: "toast list"
  initialized :: bool
  layoutByWorkspace :: "panel_node obj"
  focusedPanelByWorkspace :: "string obj"

definition initial_state :: app_state where
  "initial_state = \<lparr>workspaces = [], sessions = [], activeWorkspaceId = None, activeSessionId = None,
     activeSessionByWorkspace = [], sessionActivity = [], toasts = [], initialized = False,
     layoutByWorkspace = [], focusedPanelByWorkspace = []\<rparr>"

definition MAX_TOASTS :: nat where "MAX_TOASTS = 5"
definition IDLE_MS :: int where "IDLE_MS = 1500"
definition MIN_BUSY_MS :: int where "MIN_BUSY_MS = 500"

section \<open>The idle tracker\<close>

text \<open>
  \<open>timers\<close> is the browser's list of pending timeouts: the handle \<open>setTimeout\<close> returned, the session
  its callback closes over and the time it is due. One clock serves \<open>Date.now\<close> and the timers.
\<close>

record busy_track =
  startedAt :: int
  lastByteAt :: int

record pending_timer =
  tm_session :: string
  tm_due :: int

record tracker =
  busyTrack :: "busy_track obj"
  idleTimers :: "nat obj"
  timers :: "(nat \<times> pending_timer) list"
  nextHandle :: nat

definition empty_tracker :: tracker where
  "empty_tracker = \<lparr>busyTrack = [], idleTimers = [], timers = [], nextHandle = 0\<rparr>"

definition clearTimeout :: "nat \<Rightarrow> tracker \<Rightarrow> tracker" where
  "clearTimeout h tr = tr\<lparr>timers := AList.delete h (timers tr)\<rparr>"

definition setTimeout :: "pending_timer \<Rightarrow> tracker \<Rightarrow> nat \<times> tracker" where
  "setTimeout p tr =
     (nextHandle tr, tr\<lparr>timers := timers tr @ [(nextHandle tr, p)], nextHandle := Suc (nextHandle tr)\<rparr>)"

definition cancelIdleTracking :: "string \<Rightarrow> tracker \<Rightarrow> tracker" where
  "cancelIdleTracking sessionId tr =
     (let tr1 = (case map_of (idleTimers tr) sessionId of
                   None \<Rightarrow> tr
                 | Some t \<Rightarrow> (clearTimeout t tr)\<lparr>idleTimers := obj_del sessionId (idleTimers tr)\<rparr>)
      in tr1\<lparr>busyTrack := obj_del sessionId (busyTrack tr1)\<rparr>)"

definition resetActivityTracking :: "tracker \<Rightarrow> tracker" where
  "resetActivityTracking tr =
     (fold clearTimeout (map snd (idleTimers tr)) tr)\<lparr>idleTimers := [], busyTrack := []\<rparr>"

text \<open>The start of \<open>markSessionOutput\<close>'s tracking: record the burst, restart the debounce timer.\<close>

definition track_output :: "string \<Rightarrow> int \<Rightarrow> tracker \<Rightarrow> tracker" where
  "track_output sessionId now tr =
     (let bt = (case map_of (busyTrack tr) sessionId of
                  Some track \<Rightarrow> obj_set sessionId (track\<lparr>lastByteAt := now\<rparr>) (busyTrack tr)
                | None \<Rightarrow> obj_set sessionId \<lparr>startedAt = now, lastByteAt = now\<rparr> (busyTrack tr));
          tr1 = tr\<lparr>busyTrack := bt\<rparr>;
          tr2 = (case map_of (idleTimers tr1) sessionId of None \<Rightarrow> tr1 | Some t \<Rightarrow> clearTimeout t tr1);
          (h, tr3) = setTimeout \<lparr>tm_session = sessionId, tm_due = now + IDLE_MS\<rparr> tr2
      in tr3\<lparr>idleTimers := obj_set sessionId h (idleTimers tr3)\<rparr>)"

section \<open>Reading the state\<close>

definition sessionsEqual :: "session list \<Rightarrow> session list \<Rightarrow> bool" where
  "sessionsEqual a b \<longleftrightarrow>
     length a = length b \<and>
     (\<forall>i \<in> set [0..<length a].
        \<not> (s_id (a ! i) \<noteq> s_id (b ! i) \<or> s_title (a ! i) \<noteq> s_title (b ! i) \<or>
           s_cwd (a ! i) \<noteq> s_cwd (b ! i) \<or> s_updatedAt (a ! i) \<noteq> s_updatedAt (b ! i)))"

definition deriveActiveSession :: "panel_node option \<Rightarrow> string option \<Rightarrow> string option" where
  "deriveActiveSession layout focusedId =
     (case layout of
        None \<Rightarrow> None
      | Some t \<Rightarrow>
          if \<not> truthy focusedId then None
          else case findLeafById t (the focusedId) of None \<Rightarrow> None | Some leaf \<Rightarrow> leaf_session leaf)"

definition layout_of :: "app_state \<Rightarrow> string \<Rightarrow> panel_node option" where
  "layout_of s wid = map_of (layoutByWorkspace s) wid"

definition focus_of :: "app_state \<Rightarrow> string \<Rightarrow> string option" where
  "focus_of s wid = map_of (focusedPanelByWorkspace s) wid"

definition sessions_of :: "app_state \<Rightarrow> string \<Rightarrow> session list" where
  "sessions_of s wid = (case map_of (sessions s) wid of None \<Rightarrow> [] | Some l \<Rightarrow> l)"

definition isSessionVisibleInActiveWorkspace :: "app_state \<Rightarrow> string \<Rightarrow> bool" where
  "isSessionVisibleInActiveWorkspace s sessionId =
     (if \<not> truthy (activeWorkspaceId s) then False
      else case layout_of s (the (activeWorkspaceId s)) of
             None \<Rightarrow> activeSessionId s = Some sessionId
           | Some t \<Rightarrow> findLeafBySessionId t sessionId \<noteq> None)"

definition sessionUnread :: "app_state \<Rightarrow> string \<Rightarrow> bool" where
  "sessionUnread s sessionId =
     (case map_of (sessionActivity s) sessionId of None \<Rightarrow> False | Some a \<Rightarrow> unread a)"

fun any_unread :: "app_state \<Rightarrow> session list \<Rightarrow> bool" where
  "any_unread s [] = False"
| "any_unread s (x # xs) = (if sessionUnread s (s_id x) then True else any_unread s xs)"

definition workspaceUnread :: "app_state \<Rightarrow> string \<Rightarrow> bool" where
  "workspaceUnread s workspaceId =
     (case map_of (sessions s) workspaceId of None \<Rightarrow> False | Some l \<Rightarrow> any_unread s l)"

definition first_session_id :: "session list \<Rightarrow> string option" where
  "first_session_id xs = (case xs of [] \<Rightarrow> None | x # _ \<Rightarrow> Some (s_id x))"

text \<open>The two updates that every "the user has seen it" action makes.\<close>

definition clear_unread :: "string \<Rightarrow> session_activity obj \<Rightarrow> session_activity obj" where
  "clear_unread sid acts =
     (case map_of acts sid of
        None \<Rightarrow> acts
      | Some prev \<Rightarrow> if unread prev then obj_set sid (prev\<lparr>unread := False\<rparr>) acts else acts)"

definition drop_toasts :: "string \<Rightarrow> toast list \<Rightarrow> toast list" where
  "drop_toasts sid ts =
     (if list_ex (\<lambda>t. t_sessionId t = sid) ts then filter (\<lambda>t. t_sessionId t \<noteq> sid) ts else ts)"

section \<open>The world an action runs in\<close>

text \<open>
  The store's state, the tracker and the panel id counter. An asynchronous action ends in \<open>Done\<close> or,
  when an API call rejects or the code throws, in \<open>Throws\<close> with the world as it was left.
\<close>

record world =
  app :: app_state
  track :: tracker
  idCounter :: nat

datatype js_error = TypeError | ApiRejected

datatype 'a response = Rejected | Resolved 'a

datatype 'a outcome = Done 'a | Throws js_error 'a

fun outcome_state :: "'a outcome \<Rightarrow> 'a" where
  "outcome_state (Done w) = w"
| "outcome_state (Throws e w) = w"

datatype document = NoDocument | Visible | Hidden

definition initial_world :: world where
  "initial_world = \<lparr>app = initial_state, track = empty_tracker, idCounter = 0\<rparr>"

end
