(* ===== verification/AppStore.thy ===== *)
theory AppStore
  imports AppState
begin

text \<open>
  The actions of \<open>frontend/src/stores/appStore.ts\<close>. A synchronous action is a function of the world;
  an asynchronous one is split at its \<open>await\<close>: what it reads before the request is an argument of
  the part that runs when the response arrives, on whatever the world is by then. \<open>set(s => s)\<close>,
  which notifies nobody, is the identity.
\<close>

section \<open>Start-up\<close>

definition with_app :: "world \<Rightarrow> (app_state \<Rightarrow> app_state) \<Rightarrow> world" where
  "with_app w f = w\<lparr>app := f (app w)\<rparr>"

definition cancel :: "string \<Rightarrow> world \<Rightarrow> world" where
  "cancel sid w = w\<lparr>track := cancelIdleTracking sid (track w)\<rparr>"

text \<open>The layout of one workspace at start-up: \<open>None\<close> when \<open>reconcileLayout\<close> throws.\<close>

definition init_layout ::
    "(nat \<Rightarrow> nat) \<Rightarrow> persisted_layout option \<Rightarrow> session list \<Rightarrow> nat \<Rightarrow> (panel_node \<times> string \<times> nat) option"
  where
  "init_layout rnd persisted wSessions c =
     (case persisted of
        Some p \<Rightarrow>
          (case reconcileLayout p (set (map s_id wSessions)) of
             None \<Rightarrow> None
           | Some r \<Rightarrow>
               (let anyVisible = listVisibleSessionIds (pl_layout r) \<noteq> [];
                    layout = (if \<not> anyVisible \<and> wSessions \<noteq> []
                              then fst (setLeafSession (pl_layout r) (pl_focused r)
                                          (first_session_id wSessions))
                              else pl_layout r)
                in Some (layout, pl_focused r, c)))
      | None \<Rightarrow>
          (let (leaf, c') = createLeaf rnd (first_session_id wSessions) None c
           in Some (PLeaf leaf, leaf_id leaf, c')))"

fun init_layouts ::
    "(nat \<Rightarrow> nat) \<Rightarrow> persisted_layouts \<Rightarrow> session list obj \<Rightarrow> workspace list
     \<Rightarrow> panel_node obj \<Rightarrow> string obj \<Rightarrow> nat \<Rightarrow> (panel_node obj \<times> string obj \<times> nat) option" where
  "init_layouts rnd saved sess [] ls fs c = Some (ls, fs, c)"
| "init_layouts rnd saved sess (x # xs) ls fs c =
     (let wSessions = (case map_of sess (ws_id x) of None \<Rightarrow> [] | Some l \<Rightarrow> l)
      in case init_layout rnd (map_of saved (ws_id x)) wSessions c of
           None \<Rightarrow> None
         | Some (t, f, c') \<Rightarrow>
             init_layouts rnd saved sess xs (obj_set (ws_id x) t ls) (obj_set (ws_id x) f fs) c')"

text \<open>\<open>Promise.all\<close> over the session lists: rejected as soon as one of them is.\<close>

fun all_resolved :: "'a response list \<Rightarrow> 'a list response" where
  "all_resolved [] = Resolved []"
| "all_resolved (Rejected # rs) = Rejected"
| "all_resolved (Resolved x # rs) =
     (case all_resolved rs of Rejected \<Rightarrow> Rejected | Resolved xs \<Rightarrow> Resolved (x # xs))"

definition init_sessions :: "workspace list \<Rightarrow> session list list \<Rightarrow> session list obj" where
  "init_sessions wss lsts = fold (\<lambda>(x, l) m. obj_set (ws_id x) l m) (zip wss lsts) []"

definition init_active_map :: "workspace list \<Rightarrow> session list list \<Rightarrow> string obj" where
  "init_active_map wss lsts =
     fold (\<lambda>(x, l) m. if l \<noteq> [] then obj_set (ws_id x) (s_id (hd l)) m else m) (zip wss lsts) []"

definition init_finish ::
    "(nat \<Rightarrow> nat) \<Rightarrow> persisted_layouts \<Rightarrow> workspace list \<Rightarrow> session list obj \<Rightarrow> string obj
     \<Rightarrow> world \<Rightarrow> world outcome" where
  "init_finish rnd saved wss sess active w =
     (let wid = ws_id (hd wss) in
      case init_layouts rnd saved sess wss [] [] (idCounter w) of
        None \<Rightarrow> Throws TypeError w
      | Some (ls, fs, c) \<Rightarrow>
          Done (w\<lparr>idCounter := c,
            app := (app w)\<lparr>workspaces := wss, sessions := sess,
              activeWorkspaceId := Some wid,
              activeSessionId := deriveActiveSession (map_of ls wid) (map_of fs wid),
              activeSessionByWorkspace := active,
              layoutByWorkspace := ls, focusedPanelByWorkspace := fs, initialized := True\<rparr>\<rparr>))"

definition init ::
    "(nat \<Rightarrow> nat) \<Rightarrow> workspace list response \<Rightarrow> workspace response \<Rightarrow> (string \<Rightarrow> session list response)
     \<Rightarrow> session response \<Rightarrow> persisted_layouts \<Rightarrow> world \<Rightarrow> world outcome" where
  "init rnd listWorkspaces newWorkspace listSessions newSession saved w =
     (case (case listWorkspaces of
              Rejected \<Rightarrow> Rejected
            | Resolved wss \<Rightarrow>
                if wss = [] then
                  (case newWorkspace of Rejected \<Rightarrow> Rejected | Resolved ws \<Rightarrow> Resolved [ws])
                else Resolved wss) of
        Rejected \<Rightarrow> Throws ApiRejected w
      | Resolved wss \<Rightarrow>
          (case all_resolved (map (\<lambda>x. listSessions (ws_id x)) wss) of
             Rejected \<Rightarrow> Throws ApiRejected w
           | Resolved lsts \<Rightarrow>
               (let sess = init_sessions wss lsts;
                    active = init_active_map wss lsts;
                    wid = ws_id (hd wss)
                in if map_of sess wid = Some [] then
                     (case newSession of
                        Rejected \<Rightarrow> Throws ApiRejected w
                      | Resolved x \<Rightarrow>
                          init_finish rnd saved wss (obj_set wid [x] sess) (obj_set wid (s_id x) active) w)
                   else init_finish rnd saved wss sess active w)))"

section \<open>Workspaces\<close>

definition fetchWorkspaces :: "workspace list response \<Rightarrow> world \<Rightarrow> world outcome" where
  "fetchWorkspaces r w =
     (case r of Rejected \<Rightarrow> Throws ApiRejected w
      | Resolved wss \<Rightarrow> Done (with_app w (\<lambda>s. s\<lparr>workspaces := wss\<rparr>)))"

definition createWorkspace ::
    "(nat \<Rightarrow> nat) \<Rightarrow> workspace response \<Rightarrow> session response \<Rightarrow> world \<Rightarrow> world outcome" where
  "createWorkspace rnd newWorkspace newSession w =
     (case newWorkspace of
        Rejected \<Rightarrow> Throws ApiRejected w
      | Resolved ws \<Rightarrow>
          (case newSession of
             Rejected \<Rightarrow> Throws ApiRejected w
           | Resolved sess \<Rightarrow>
               (let (leaf, c) = createLeaf rnd (Some (s_id sess)) None (idCounter w) in
                Done ((with_app w (\<lambda>s. s\<lparr>
                  workspaces := workspaces s @ [ws],
                  sessions := obj_set (ws_id ws) [sess] (sessions s),
                  activeWorkspaceId := Some (ws_id ws),
                  activeSessionId := Some (s_id sess),
                  activeSessionByWorkspace :=
                    obj_set (ws_id ws) (s_id sess) (activeSessionByWorkspace s),
                  layoutByWorkspace := obj_set (ws_id ws) (PLeaf leaf) (layoutByWorkspace s),
                  focusedPanelByWorkspace :=
                    obj_set (ws_id ws) (leaf_id leaf) (focusedPanelByWorkspace s)\<rparr>))
                 \<lparr>idCounter := c\<rparr>))))"

definition deleteWorkspace :: "string \<Rightarrow> bool response \<Rightarrow> world \<Rightarrow> world outcome" where
  "deleteWorkspace wid r w =
     (case r of
        Rejected \<Rightarrow> Throws ApiRejected w
      | Resolved _ \<Rightarrow>
          (let s = app w;
               wss = filter (\<lambda>x. ws_id x \<noteq> wid) (workspaces s);
               removed = map s_id (sessions_of s wid);
               ls = obj_del wid (layoutByWorkspace s);
               fs = obj_del wid (focusedPanelByWorkspace s);
               nextWid = (case wss of [] \<Rightarrow> None | x # _ \<Rightarrow> Some (ws_id x));
               nextLayout = (if truthy nextWid then map_of ls (the nextWid) else None);
               nextFocus = (if truthy nextWid then map_of fs (the nextWid) else None)
           in Done (w\<lparr>
             track := fold cancelIdleTracking removed (track w),
             app := s\<lparr>workspaces := wss,
               sessions := obj_del wid (sessions s),
               activeWorkspaceId := nextWid,
               activeSessionId := deriveActiveSession nextLayout nextFocus,
               activeSessionByWorkspace := obj_del wid (activeSessionByWorkspace s),
               layoutByWorkspace := ls,
               focusedPanelByWorkspace := fs,
               sessionActivity := fold obj_del removed (sessionActivity s),
               toasts := (if list_ex (\<lambda>t. t_sessionId t \<in> set removed) (toasts s)
                          then filter (\<lambda>t. t_sessionId t \<notin> set removed) (toasts s)
                          else toasts s)\<rparr>\<rparr>)))"

definition renameWorkspace :: "string \<Rightarrow> workspace response \<Rightarrow> world \<Rightarrow> world outcome" where
  "renameWorkspace wid r w =
     (case r of
        Rejected \<Rightarrow> Throws ApiRejected w
      | Resolved updated \<Rightarrow>
          Done (with_app w (\<lambda>s. s\<lparr>workspaces :=
            map (\<lambda>x. if ws_id x = wid then updated else x) (workspaces s)\<rparr>)))"

text \<open>
  \<open>setActiveWorkspace\<close> uses the cached session list when there is one and asks the server otherwise;
  the rest runs with the list it got.
\<close>

definition workspace_target ::
    "(nat \<Rightarrow> nat) \<Rightarrow> string \<Rightarrow> session list \<Rightarrow> world \<Rightarrow> panel_node \<times> string option \<times> nat" where
  "workspace_target rnd wid sess w =
     (case layout_of (app w) wid of
        Some t \<Rightarrow> (t, focus_of (app w) wid, idCounter w)
      | None \<Rightarrow> (let (leaf, c') = createLeaf rnd (first_session_id sess) None (idCounter w)
                 in (PLeaf leaf, Some (leaf_id leaf), c')))"

definition setActiveWorkspace_finish ::
    "(nat \<Rightarrow> nat) \<Rightarrow> string \<Rightarrow> session list \<Rightarrow> world \<Rightarrow> world" where
  "setActiveWorkspace_finish rnd wid sess w =
     (let s = app w;
          (layout, focusedId, c) = workspace_target rnd wid sess w;
          active = deriveActiveSession (Some layout) focusedId;
          seen = truthy active
      in w\<lparr>idCounter := c,
           track := (if seen then cancelIdleTracking (the active) (track w) else track w),
           app := s\<lparr>sessions := obj_set wid sess (sessions s),
             activeWorkspaceId := Some wid,
             activeSessionId := active,
             activeSessionByWorkspace :=
               (if seen then obj_set wid (the active) (activeSessionByWorkspace s)
                else activeSessionByWorkspace s),
             layoutByWorkspace := obj_set wid layout (layoutByWorkspace s),
             focusedPanelByWorkspace := obj_put wid focusedId (focusedPanelByWorkspace s),
             sessionActivity :=
               (if seen then clear_unread (the active) (sessionActivity s) else sessionActivity s),
             toasts := (if seen then drop_toasts (the active) (toasts s) else toasts s)\<rparr>\<rparr>)"

definition setActiveWorkspace_call :: "(nat \<Rightarrow> nat) \<Rightarrow> string \<Rightarrow> world \<Rightarrow> world option" where
  "setActiveWorkspace_call rnd wid w =
     (case map_of (sessions (app w)) wid of
        Some cached \<Rightarrow> Some (setActiveWorkspace_finish rnd wid cached w)
      | None \<Rightarrow> None)"

definition setActiveWorkspace_response ::
    "(nat \<Rightarrow> nat) \<Rightarrow> string \<Rightarrow> session list response \<Rightarrow> world \<Rightarrow> world outcome" where
  "setActiveWorkspace_response rnd wid r w =
     (case r of
        Rejected \<Rightarrow> Throws ApiRejected w
      | Resolved sess \<Rightarrow> Done (setActiveWorkspace_finish rnd wid sess w))"

section \<open>Sessions\<close>

definition fetchSessions :: "string \<Rightarrow> session list response \<Rightarrow> world \<Rightarrow> world outcome" where
  "fetchSessions wid r w =
     (case r of
        Rejected \<Rightarrow> Throws ApiRejected w
      | Resolved l \<Rightarrow> Done (with_app w (\<lambda>s. s\<lparr>sessions := obj_set wid l (sessions s)\<rparr>)))"

text \<open>
  \<open>pollActive\<close>: the active workspace is read before the request (\<open>None\<close>: no request is made), the
  cached list after it.
\<close>

definition pollActive_call :: "world \<Rightarrow> string option" where
  "pollActive_call w =
     (if truthy (activeWorkspaceId (app w)) then activeWorkspaceId (app w) else None)"

definition pollActive_response :: "string \<Rightarrow> session list response \<Rightarrow> world \<Rightarrow> world outcome" where
  "pollActive_response wid r w =
     (case r of
        Rejected \<Rightarrow> Throws ApiRejected w
      | Resolved l \<Rightarrow>
          if sessionsEqual (sessions_of (app w) wid) l then Done w
          else Done (with_app w (\<lambda>s. s\<lparr>sessions := obj_set wid l (sessions s)\<rparr>)))"

definition createSession ::
    "(nat \<Rightarrow> nat) \<Rightarrow> string \<Rightarrow> session response \<Rightarrow> world \<Rightarrow> world outcome" where
  "createSession rnd wid r w =
     (case r of
        Rejected \<Rightarrow> Throws ApiRejected w
      | Resolved sess \<Rightarrow>
          (let s = app w;
               target =
                 (case layout_of s wid of
                    None \<Rightarrow>
                      (let (leaf, c) = createLeaf rnd (Some (s_id sess)) None (idCounter w)
                       in Some (PLeaf leaf, leaf_id leaf, c))
                  | Some t \<Rightarrow>
                      (let f = focus_of s wid;
                           targetId = (if truthy f \<and> findLeafById t (the f) \<noteq> None then f
                                       else map_option leaf_id (firstLeaf t))
                       in case targetId of
                            None \<Rightarrow> None
                          | Some i \<Rightarrow>
                              Some (fst (setLeafSession (fst (detachSession t (s_id sess))) i
                                      (Some (s_id sess))), i, idCounter w)))
           in case target of
                None \<Rightarrow> Throws TypeError w
              | Some (layout, focusedId, c) \<Rightarrow>
                  Done (w\<lparr>idCounter := c,
                    app := s\<lparr>
                      sessions := obj_set wid (sessions_of s wid @ [sess]) (sessions s),
                      activeSessionId :=
                        (if Some wid = activeWorkspaceId s then Some (s_id sess) else activeSessionId s),
                      activeSessionByWorkspace :=
                        obj_set wid (s_id sess) (activeSessionByWorkspace s),
                      layoutByWorkspace := obj_set wid layout (layoutByWorkspace s),
                      focusedPanelByWorkspace :=
                        obj_set wid focusedId (focusedPanelByWorkspace s)\<rparr>\<rparr>)))"

text \<open>\<open>deleteSession\<close>: the session leaves every layout; the loop skips layouts it is not in.\<close>

definition detach_everywhere :: "string \<Rightarrow> panel_node obj \<Rightarrow> panel_node obj" where
  "detach_everywhere sid layouts =
     fold (\<lambda>x ls. case map_of ls x of
             None \<Rightarrow> ls
           | Some before \<Rightarrow>
               (let (after, fresh) = detachSession before sid
                in if fresh then obj_set x after ls else ls))
       (obj_keys layouts) layouts"

text \<open>What replaces \<open>id\<close> as the remembered session of a workspace.\<close>

definition forget_active :: "string \<Rightarrow> string \<Rightarrow> session list \<Rightarrow> string obj \<Rightarrow> string obj" where
  "forget_active wid sid remaining m =
     (if map_of m wid = Some sid then
        (if truthy (first_session_id remaining)
         then obj_set wid (the (first_session_id remaining)) m
         else obj_del wid m)
      else m)"

definition deleteSession_set :: "string \<Rightarrow> app_state \<Rightarrow> app_state" where
  "deleteSession_set sid s =
     (if \<not> truthy (activeWorkspaceId s) then s
      else
        let wid = the (activeWorkspaceId s);
            remaining = filter (\<lambda>x. s_id x \<noteq> sid) (sessions_of s wid);
            ls = detach_everywhere sid (layoutByWorkspace s);
            focusedId = focus_of s wid;
            ls' = (case map_of ls wid of
                     None \<Rightarrow> ls
                   | Some current \<Rightarrow>
                       (case (if truthy focusedId then findLeafById current (the focusedId) else None) of
                          None \<Rightarrow> ls
                        | Some leaf \<Rightarrow>
                            if leaf_session leaf = None \<and> remaining \<noteq> [] then
                              (let nextSessionId = s_id (hd remaining)
                               in obj_set wid
                                    (fst (setLeafSession (fst (detachSession current nextSessionId))
                                       (leaf_id leaf) (Some nextSessionId))) ls)
                            else ls));
            layoutPresent = map_of ls' wid \<noteq> None;
            newFocus = (if layoutPresent then focusedId else None)
        in s\<lparr>sessions := obj_set wid remaining (sessions s),
             activeSessionId :=
               (if layoutPresent then deriveActiveSession (map_of ls' wid) newFocus
                else if activeSessionId s = Some sid then first_session_id remaining
                else activeSessionId s),
             activeSessionByWorkspace :=
               forget_active wid sid remaining (activeSessionByWorkspace s),
             layoutByWorkspace := ls',
             sessionActivity := obj_del sid (sessionActivity s),
             toasts := drop_toasts sid (toasts s)\<rparr>)"

definition deleteSession :: "string \<Rightarrow> bool response \<Rightarrow> world \<Rightarrow> world outcome" where
  "deleteSession sid r w =
     (case r of
        Rejected \<Rightarrow> Throws ApiRejected w
      | Resolved _ \<Rightarrow> Done (with_app (cancel sid w) (deleteSession_set sid)))"

definition renameSession :: "string \<Rightarrow> session response \<Rightarrow> world \<Rightarrow> world outcome" where
  "renameSession sid r w =
     (case r of
        Rejected \<Rightarrow> Throws ApiRejected w
      | Resolved updated \<Rightarrow>
          Done (with_app w (\<lambda>s.
            if \<not> truthy (activeWorkspaceId s) then s
            else
              let wid = the (activeWorkspaceId s)
              in s\<lparr>sessions := obj_set wid
                     (map (\<lambda>x. if s_id x = sid then updated else x) (sessions_of s wid))
                     (sessions s)\<rparr>)))"

definition setActiveSession :: "string \<Rightarrow> world \<Rightarrow> world outcome" where
  "setActiveSession sid w0 =
     (let w = cancel sid w0;
          s = app w;
          wid = activeWorkspaceId s;
          clearedActivity = clear_unread sid (sessionActivity s);
          clearedToasts = drop_toasts sid (toasts s);
          layout0 = (if truthy wid then layout_of s (the wid) else None)
      in case layout0 of
           None \<Rightarrow>
             Done (w\<lparr>app := s\<lparr>activeSessionId := Some sid,
               activeSessionByWorkspace :=
                 (if truthy wid then obj_set (the wid) sid (activeSessionByWorkspace s)
                  else activeSessionByWorkspace s),
               sessionActivity := clearedActivity, toasts := clearedToasts\<rparr>\<rparr>)
         | Some t \<Rightarrow>
             (let focusedId = focus_of s (the wid);
                  next =
                    (case findLeafBySessionId t sid of
                       Some existing \<Rightarrow> Some (t, leaf_id existing)
                     | None \<Rightarrow>
                         (let focusedLeaf =
                                (if truthy focusedId then findLeafById t (the focusedId) else None);
                              targetId =
                                (case focusedLeaf of Some l \<Rightarrow> Some (leaf_id l)
                                 | None \<Rightarrow> map_option leaf_id (firstLeaf t))
                          in case targetId of
                               None \<Rightarrow> None
                             | Some i \<Rightarrow>
                                 Some (fst (setLeafSession (fst (detachSession t sid)) i (Some sid)), i)))
              in case next of
                   None \<Rightarrow> Throws TypeError w
                 | Some (layout, f) \<Rightarrow>
                     Done (w\<lparr>app := s\<lparr>activeSessionId := deriveActiveSession (Some layout) (Some f),
                       activeSessionByWorkspace := obj_set (the wid) sid (activeSessionByWorkspace s),
                       layoutByWorkspace := obj_set (the wid) layout (layoutByWorkspace s),
                       focusedPanelByWorkspace := obj_set (the wid) f (focusedPanelByWorkspace s),
                       sessionActivity := clearedActivity, toasts := clearedToasts\<rparr>\<rparr>)))"

section \<open>Output, unread marks and toasts\<close>

definition markSessionOutput :: "document \<Rightarrow> int \<Rightarrow> string \<Rightarrow> world \<Rightarrow> world" where
  "markSessionOutput doc now sid w =
     (let isVisibleForeground =
            isSessionVisibleInActiveWorkspace (app w) sid \<and> doc = Visible
      in if isVisibleForeground then cancel sid w
         else w\<lparr>track := track_output sid now (track w)\<rparr>)"

text \<open>The first entry of \<open>sessions\<close> whose list has the session: the title and the workspace id.\<close>

fun locate_session :: "string \<Rightarrow> (string \<times> session list) list \<Rightarrow> string \<times> string" where
  "locate_session sid [] = ([], [])"
| "locate_session sid ((wid, l) # rest) =
     (case find (\<lambda>x. s_id x = sid) l of
        Some found \<Rightarrow> (s_title found, wid)
      | None \<Rightarrow> locate_session sid rest)"

text \<open>The state change of the idle callback, for a burst whose last output was at \<open>last\<close>.\<close>

definition mark_unread :: "string \<Rightarrow> int \<Rightarrow> app_state \<Rightarrow> app_state" where
  "mark_unread sid lastAt s =
     (if (case map_of (sessionActivity s) sid of None \<Rightarrow> False | Some prev \<Rightarrow> unread prev) then s
      else
        let nextActivity = obj_set sid \<lparr>unread = True, lastOutputAt = lastAt, notifiedAt = lastAt\<rparr>
              (sessionActivity s);
            (title, wid) = locate_session sid (obj_entries (sessions s))
        in if wid = [] then s\<lparr>sessionActivity := nextActivity\<rparr>
           else
             let newToast = \<lparr>t_id = sid @ ''-'' @ dec_int lastAt, t_sessionId = sid,
                   t_workspaceId = wid, t_sessionTitle = title, t_createdAt = lastAt\<rparr>;
                 filtered = filter (\<lambda>x. t_sessionId x \<noteq> sid) (toasts s)
             in s\<lparr>sessionActivity := nextActivity,
                  toasts := take_last MAX_TOASTS (filtered @ [newToast])\<rparr>)"

definition idle_callback :: "document \<Rightarrow> string \<Rightarrow> world \<Rightarrow> world" where
  "idle_callback doc sid w =
     (let t = map_of (busyTrack (track w)) sid;
          w1 = w\<lparr>track := (track w)\<lparr>idleTimers := obj_del sid (idleTimers (track w)),
                   busyTrack := obj_del sid (busyTrack (track w))\<rparr>\<rparr>
      in case t of
           None \<Rightarrow> w1
         | Some t \<Rightarrow>
             if lastByteAt t - startedAt t < MIN_BUSY_MS then w1
             else
               let stillBackground =
                     \<not> isSessionVisibleInActiveWorkspace (app w1) sid \<or> doc = Hidden
               in if \<not> stillBackground then w1
                  else with_app w1 (mark_unread sid (lastByteAt t)))"

text \<open>The browser runs the callback of a pending timer that is due and forgets the timer.\<close>

definition fire_timer :: "document \<Rightarrow> nat \<Rightarrow> world \<Rightarrow> world" where
  "fire_timer doc h w =
     (case map_of (timers (track w)) h of
        None \<Rightarrow> w
      | Some p \<Rightarrow> idle_callback doc (tm_session p) (w\<lparr>track := clearTimeout h (track w)\<rparr>))"

definition clearSessionUnread :: "string \<Rightarrow> world \<Rightarrow> world" where
  "clearSessionUnread sid w =
     with_app (cancel sid w) (\<lambda>s.
       let prev = map_of (sessionActivity s) sid;
           hasToast = list_ex (\<lambda>t. t_sessionId t = sid) (toasts s)
       in if (case prev of None \<Rightarrow> True | Some p \<Rightarrow> \<not> unread p) \<and> \<not> hasToast then s
          else s\<lparr>sessionActivity :=
                   (case prev of
                      Some p \<Rightarrow> if unread p then obj_set sid (p\<lparr>unread := False\<rparr>) (sessionActivity s)
                                else sessionActivity s
                    | None \<Rightarrow> sessionActivity s),
                 toasts := (if hasToast then filter (\<lambda>t. t_sessionId t \<noteq> sid) (toasts s)
                            else toasts s)\<rparr>)"

definition clearWorkspaceVisibleUnread :: "world \<Rightarrow> world" where
  "clearWorkspaceVisibleUnread w =
     (let s0 = app w in
      if \<not> truthy (activeWorkspaceId s0) then w
      else
        let ids = (case layout_of s0 (the (activeWorkspaceId s0)) of
                     Some t \<Rightarrow> listVisibleSessionIds t
                   | None \<Rightarrow> if truthy (activeSessionId s0) then [the (activeSessionId s0)] else [])
        in if ids = [] then w
           else with_app (w\<lparr>track := fold cancelIdleTracking ids (track w)\<rparr>) (\<lambda>s.
             s\<lparr>sessionActivity := fold clear_unread ids (sessionActivity s),
               toasts := (if list_ex (\<lambda>t. t_sessionId t \<in> set ids) (toasts s)
                          then filter (\<lambda>t. t_sessionId t \<notin> set ids) (toasts s)
                          else toasts s)\<rparr>))"

definition dismissToast :: "string \<Rightarrow> world \<Rightarrow> world" where
  "dismissToast tid w =
     with_app w (\<lambda>s. if \<not> list_ex (\<lambda>t. t_id t = tid) (toasts s) then s
                     else s\<lparr>toasts := filter (\<lambda>t. t_id t \<noteq> tid) (toasts s)\<rparr>)"

section \<open>Panels\<close>

text \<open>The active workspace and its layout, which every panel action needs.\<close>

definition active_layout :: "app_state \<Rightarrow> (string \<times> panel_node) option" where
  "active_layout s =
     (if \<not> truthy (activeWorkspaceId s) then None
      else map_option (Pair (the (activeWorkspaceId s))) (layout_of s (the (activeWorkspaceId s))))"

definition splitPanel ::
    "(nat \<Rightarrow> nat) \<Rightarrow> string \<Rightarrow> split_direction \<Rightarrow> split_placement \<Rightarrow> world \<Rightarrow> world \<times> string option"
  where
  "splitPanel rnd panelId direction placement w =
     (let s = app w in
      case active_layout s of
        None \<Rightarrow> (w, None)
      | Some (wid, layout) \<Rightarrow>
          (case splitLeaf rnd layout panelId direction placement None (idCounter w) of
             (None, c) \<Rightarrow> (w\<lparr>idCounter := c\<rparr>, None)
           | (Some (newRoot, newLeafId), c) \<Rightarrow>
               (w\<lparr>idCounter := c,
                  app := s\<lparr>layoutByWorkspace := obj_set wid newRoot (layoutByWorkspace s),
                    focusedPanelByWorkspace := obj_set wid newLeafId (focusedPanelByWorkspace s),
                    activeSessionId := deriveActiveSession (Some newRoot) (Some newLeafId)\<rparr>\<rparr>,
                Some newLeafId)))"

text \<open>
  \<open>closePanel\<close> before the request: \<open>None\<close> when it returns at once, otherwise the session of the leaf
  (\<open>null\<close>, the inner \<open>None\<close>, on an empty one). A rejected request is caught, so what follows does not
  depend on the response.
\<close>

definition closePanel_call :: "string \<Rightarrow> world \<Rightarrow> string option option" where
  "closePanel_call panelId w =
     (case active_layout (app w) of
        None \<Rightarrow> None
      | Some (wid, layout) \<Rightarrow> map_option leaf_session (findLeafById layout panelId))"

definition closePanel_set ::
    "(nat \<Rightarrow> nat) \<Rightarrow> string \<Rightarrow> string option \<Rightarrow> world \<Rightarrow> world outcome" where
  "closePanel_set rnd panelId sessionId w =
     (let s = app w in
      case active_layout s of
        None \<Rightarrow> Done w
      | Some (wid, oldLayout) \<Rightarrow>
          (let (newLayout, c) =
                 (case removeLeaf oldLayout panelId of
                    Some reduced \<Rightarrow> (reduced, idCounter w)
                  | None \<Rightarrow> (let (leaf, c') = createLeaf rnd None None (idCounter w)
                             in (PLeaf leaf, c')));
               oldFocus = focus_of s wid;
               focusedId =
                 (if truthy oldFocus \<and> the oldFocus \<noteq> panelId
                     \<and> findLeafById newLayout (the oldFocus) \<noteq> None
                  then oldFocus
                  else map_option leaf_id (firstLeaf newLayout));
               remaining = filter (\<lambda>x. Some (s_id x) \<noteq> sessionId) (sessions_of s wid)
           in case focusedId of
                None \<Rightarrow> Throws TypeError (w\<lparr>idCounter := c\<rparr>)
              | Some f \<Rightarrow>
                  Done (w\<lparr>idCounter := c,
                    app := s\<lparr>
                      sessions := (if truthy sessionId then obj_set wid remaining (sessions s)
                                   else sessions s),
                      sessionActivity :=
                        (if truthy sessionId \<and> has_key (the sessionId) (sessionActivity s)
                         then obj_del (the sessionId) (sessionActivity s) else sessionActivity s),
                      toasts := (if truthy sessionId then drop_toasts (the sessionId) (toasts s)
                                 else toasts s),
                      activeSessionByWorkspace :=
                        (if truthy sessionId
                         then forget_active wid (the sessionId) remaining (activeSessionByWorkspace s)
                         else activeSessionByWorkspace s),
                      layoutByWorkspace := obj_set wid newLayout (layoutByWorkspace s),
                      focusedPanelByWorkspace := obj_set wid f (focusedPanelByWorkspace s),
                      activeSessionId := deriveActiveSession (Some newLayout) (Some f)\<rparr>\<rparr>)))"

definition closePanel_finish ::
    "(nat \<Rightarrow> nat) \<Rightarrow> string \<Rightarrow> string option \<Rightarrow> world \<Rightarrow> world outcome" where
  "closePanel_finish rnd panelId sessionId w =
     closePanel_set rnd panelId sessionId
       (if truthy sessionId then cancel (the sessionId) w else w)"

definition focusPanel :: "string \<Rightarrow> world \<Rightarrow> world" where
  "focusPanel panelId w =
     (let s = app w in
      case active_layout s of
        None \<Rightarrow> w
      | Some (wid, layout) \<Rightarrow>
          if focus_of s wid = Some panelId then w
          else if findLeafById layout panelId = None then w
          else
            let active = deriveActiveSession (Some layout) (Some panelId);
                seen = truthy active
            in w\<lparr>track := (if seen then cancelIdleTracking (the active) (track w) else track w),
                 app := s\<lparr>focusedPanelByWorkspace := obj_set wid panelId (focusedPanelByWorkspace s),
                   activeSessionId := active,
                   activeSessionByWorkspace :=
                     (if seen then obj_set wid (the active) (activeSessionByWorkspace s)
                      else activeSessionByWorkspace s),
                   sessionActivity :=
                     (if seen then clear_unread (the active) (sessionActivity s) else sessionActivity s),
                   toasts := (if seen then drop_toasts (the active) (toasts s) else toasts s)\<rparr>\<rparr>)"

definition assignSession :: "string \<Rightarrow> string \<Rightarrow> world \<Rightarrow> world" where
  "assignSession panelId sid w0 =
     (let w = cancel sid w0; s = app w in
      case active_layout s of
        None \<Rightarrow> w
      | Some (wid, layout) \<Rightarrow>
          if findLeafById layout panelId = None then w
          else
            let detached = fst (detachSession layout sid);
                newLayout = fst (setLeafSession detached panelId (Some sid))
            in w\<lparr>app := s\<lparr>layoutByWorkspace := obj_set wid newLayout (layoutByWorkspace s),
                 focusedPanelByWorkspace := obj_set wid panelId (focusedPanelByWorkspace s),
                 activeSessionId := deriveActiveSession (Some newLayout) (Some panelId),
                 activeSessionByWorkspace := obj_set wid sid (activeSessionByWorkspace s),
                 sessionActivity := clear_unread sid (sessionActivity s),
                 toasts := drop_toasts sid (toasts s)\<rparr>\<rparr>)"

definition resizeSplit :: "string \<Rightarrow> rat list \<Rightarrow> world \<Rightarrow> world" where
  "resizeSplit splitId sizes w =
     (let s = app w in
      case active_layout s of
        None \<Rightarrow> w
      | Some (wid, layout) \<Rightarrow>
          (let (next, fresh) = setSplitSizes layout splitId sizes
           in if \<not> fresh then w
              else w\<lparr>app := s\<lparr>layoutByWorkspace := obj_set wid next (layoutByWorkspace s)\<rparr>\<rparr>))"

section \<open>Persistence of the layouts\<close>

text \<open>
  What the store's subscriber saves: every layout with its focused panel, or its first leaf where no
  focus is recorded. \<open>None\<close>: \<open>firstLeaf\<close> throws. The subscriber does nothing when both dictionaries
  are the same objects as before.
\<close>

fun layouts_to_save :: "app_state \<Rightarrow> string list \<Rightarrow> persisted_layouts \<Rightarrow> persisted_layouts option" where
  "layouts_to_save s [] out = Some out"
| "layouts_to_save s (wid # wids) out =
     (case layout_of s wid of
        None \<Rightarrow> None
      | Some layout \<Rightarrow>
          (case (case focus_of s wid of Some f \<Rightarrow> Some f | None \<Rightarrow> map_option leaf_id (firstLeaf layout)) of
             None \<Rightarrow> None
           | Some f \<Rightarrow>
               layouts_to_save s wids (obj_set wid \<lparr>pl_layout = layout, pl_focused = f\<rparr> out)))"

definition persist_subscriber ::
    "(json \<Rightarrow> string) \<Rightarrow> bool \<Rightarrow> bool \<Rightarrow> app_state \<Rightarrow> storage \<Rightarrow> storage outcome" where
  "persist_subscriber stringify sameLayouts sameFocus s st =
     (if sameLayouts \<and> sameFocus then Done st
      else case layouts_to_save s (obj_keys (layoutByWorkspace s)) [] of
             None \<Rightarrow> Throws TypeError st
           | Some layouts \<Rightarrow> Done (saveLayouts stringify layouts st))"

end
