(* ===== verification/AppInvariant.thy ===== *)
theory AppInvariant
  imports AppStore
begin

text \<open>
  The invariant of the store and the lemmas that each action keeps it: every layout is a well-formed
  tree whose recorded focus names one of its leaves and in which no session is shown twice; the
  active session is the one in the focused leaf of the active workspace; there are at most
  \<open>MAX_TOASTS\<close> toasts, at most one per session.
\<close>

section \<open>The invariant\<close>

definition panel_ok :: "panel_node \<Rightarrow> bool" where
  "panel_ok t \<longleftrightarrow> tree_ok t \<and> [] \<notin> set (leaf_ids t)"

definition layouts_ok :: "panel_node obj \<Rightarrow> string obj \<Rightarrow> bool" where
  "layouts_ok ls fs \<longleftrightarrow>
     (\<forall>wid t. map_of ls wid = Some t \<longrightarrow>
        panel_ok t \<and> (\<exists>f. map_of fs wid = Some f \<and> f \<in> set (leaf_ids t)))"

definition active_ok :: "app_state \<Rightarrow> bool" where
  "active_ok s \<longleftrightarrow>
     (\<forall>wid t. activeWorkspaceId s = Some wid \<longrightarrow> wid \<noteq> [] \<longrightarrow> layout_of s wid = Some t \<longrightarrow>
        activeSessionId s = deriveActiveSession (Some t) (focus_of s wid))"

definition toasts_ok :: "toast list \<Rightarrow> bool" where
  "toasts_ok ts \<longleftrightarrow> length ts \<le> MAX_TOASTS \<and> distinct (map t_sessionId ts)"

definition store_ok :: "app_state \<Rightarrow> bool" where
  "store_ok s \<longleftrightarrow>
     layouts_ok (layoutByWorkspace s) (focusedPanelByWorkspace s) \<and> active_ok s \<and> toasts_ok (toasts s)"

section \<open>Layouts of several workspaces\<close>

lemma layouts_okD:
  assumes "layouts_ok ls fs" "map_of ls wid = Some t"
  shows "panel_ok t" "tree_ok t" "arity_ok t" "distinct (leaf_ids t)"
    and "\<exists>f. map_of fs wid = Some f \<and> f \<in> set (leaf_ids t) \<and> f \<noteq> []"
proof -
  show p: "panel_ok t" using assms by (auto simp: layouts_ok_def)
  then show "tree_ok t" by (simp add: panel_ok_def)
  then show "arity_ok t" "distinct (leaf_ids t)"
    by (auto simp: tree_ok_def intro: tree_ok_leaf_ids)
  show "\<exists>f. map_of fs wid = Some f \<and> f \<in> set (leaf_ids t) \<and> f \<noteq> []"
    using assms p by (fastforce simp: layouts_ok_def panel_ok_def)
qed

lemma layouts_ok_set:
  "layouts_ok ls fs \<Longrightarrow> panel_ok t \<Longrightarrow> f \<in> set (leaf_ids t) \<Longrightarrow>
    layouts_ok (obj_set wid t ls) (obj_set wid f fs)"
  by (auto simp: layouts_ok_def)

lemma layouts_ok_del: "layouts_ok ls fs \<Longrightarrow> layouts_ok (obj_del wid ls) (obj_del wid fs)"
  by (auto simp: layouts_ok_def)

lemma layouts_ok_Nil [simp]: "layouts_ok [] fs"
  by (simp add: layouts_ok_def)

lemma layouts_ok_cong:
  "map_of ls = map_of ls' \<Longrightarrow> map_of fs = map_of fs' \<Longrightarrow> layouts_ok ls fs = layouts_ok ls' fs'"
  by (simp add: layouts_ok_def)

text \<open>
  The contract of the tree operations the store applies in place: they keep a good tree good and
  leave the ids of its leaves alone, so a recorded focus stays valid.
\<close>

locale layout_update =
  fixes upd :: "panel_node \<Rightarrow> panel_node"
  assumes upd_ok: "tree_ok t \<Longrightarrow> tree_ok (upd t)"
    and upd_ids: "leaf_ids (upd t) = leaf_ids t"
begin

lemma panel_ok_upd: "panel_ok t \<Longrightarrow> panel_ok (upd t)"
  by (simp add: panel_ok_def upd_ok upd_ids)

lemma layouts_ok_upd:
  "layouts_ok ls fs \<Longrightarrow> map_of ls wid = Some t \<Longrightarrow> layouts_ok (obj_set wid (upd t) ls) fs"
  by (auto simp: layouts_ok_def panel_ok_upd upd_ids)

lemma layouts_ok_upd_focus:
  "layouts_ok ls fs \<Longrightarrow> panel_ok t \<Longrightarrow> f \<in> set (leaf_ids t) \<Longrightarrow>
    layouts_ok (obj_set wid (upd t) ls) (obj_set wid f fs)"
  by (rule layouts_ok_set) (simp_all add: panel_ok_upd upd_ids)

lemma layouts_ok_all:
  assumes "layouts_ok ls fs" "\<And>wid. map_of ls' wid = map_option upd (map_of ls wid)"
  shows "layouts_ok ls' fs"
  using assms by (auto simp: layouts_ok_def panel_ok_upd upd_ids)

end

interpretation moved: layout_update "\<lambda>t. move_session t s i" for s i
  by unfold_locales (auto intro: tree_ok_move)

interpretation detached: layout_update "\<lambda>t. map_leaves (drop_session s) t" for s
  by unfold_locales (auto intro: tree_ok_detach)

interpretation pruned: layout_update "\<lambda>t. map_leaves (keep_sessions V) t" for V
  by unfold_locales (auto intro: tree_ok_prune)

interpretation resized: layout_update "\<lambda>t. resize i sizes t" for i sizes
  by unfold_locales (simp_all add: leaf_ids_def)

section \<open>The active session\<close>

lemma derive_leaf:
  "f \<noteq> [] \<Longrightarrow> findLeafById t f = Some l \<Longrightarrow> deriveActiveSession (Some t) (Some f) = leaf_session l"
  by (simp add: deriveActiveSession_def)

lemma derive_move:
  assumes "i \<noteq> []" "i \<in> set (leaf_ids t)"
  shows "deriveActiveSession (Some (move_session t s i)) (Some i) = Some s"
  using find_move [OF assms(2), of s] assms(1) by (auto simp: deriveActiveSession_def)

lemma derive_single: "i \<noteq> [] \<Longrightarrow>
    deriveActiveSession (Some (PLeaf \<lparr>leaf_id = i, leaf_session = s\<rparr>)) (Some i) = s"
  by (simp add: deriveActiveSession_def)

lemma derive_resize [simp]:
  "deriveActiveSession (Some (resize i sizes t)) f = deriveActiveSession (Some t) f"
  by (simp add: deriveActiveSession_def findLeafById_eq)

lemma firstLeaf_id:
  assumes "arity_ok t"
  shows "\<exists>l. firstLeaf t = Some l \<and> leaf_id l \<in> set (leaf_ids t)"
  using firstLeaf_hd [OF assms] arity_ok_leaves [OF assms] by (auto simp: leaf_ids_def)

lemma nextPanelId_nonempty [simp]: "p \<noteq> [] \<Longrightarrow> fst (nextPanelId rnd p c) \<noteq> []"
  by (simp add: nextPanelId_def Let_def)

lemma createLeaf_None:
  "createLeaf rnd s None c =
     (\<lparr>leaf_id = fst (nextPanelId rnd ''leaf'' c), leaf_session = s\<rparr>, c + 1)"
  by (simp add: createLeaf_def nextPanelId_def Let_def)

lemma panel_ok_single: "i \<noteq> [] \<Longrightarrow> panel_ok (PLeaf \<lparr>leaf_id = i, leaf_session = s\<rparr>)"
  by (cases s) (simp_all add: panel_ok_def tree_ok_def tree_simps visible_eq List.map_filter_simps)

lemma leaf_ids_single [simp]: "leaf_ids (PLeaf \<lparr>leaf_id = i, leaf_session = s\<rparr>) = [i]"
  by (simp add: tree_simps)

section \<open>Toasts\<close>

lemma drop_toasts_eq: "drop_toasts sid ts = filter (\<lambda>t. t_sessionId t \<noteq> sid) ts"
  by (auto simp: drop_toasts_def list_ex_iff intro!: filter_True [symmetric])

lemma toasts_ok_filter [simp]: "toasts_ok ts \<Longrightarrow> toasts_ok (filter P ts)"
  unfolding toasts_ok_def
  by (auto intro: distinct_map_filterI le_trans [OF length_filter_le])

lemma toasts_ok_drop [simp]: "toasts_ok ts \<Longrightarrow> toasts_ok (drop_toasts sid ts)"
  by (simp add: drop_toasts_eq)

lemma toasts_ok_push:
  assumes "toasts_ok ts" "t_sessionId t = sid"
  shows "toasts_ok (take_last MAX_TOASTS (filter (\<lambda>x. t_sessionId x \<noteq> sid) ts @ [t]))"
  unfolding toasts_ok_def
proof
  show "length (take_last MAX_TOASTS (filter (\<lambda>x. t_sessionId x \<noteq> sid) ts @ [t])) \<le> MAX_TOASTS"
    by (rule length_take_last)
  have "distinct (map t_sessionId (filter (\<lambda>x. t_sessionId x \<noteq> sid) ts))"
    using assms(1) by (auto simp: toasts_ok_def intro: distinct_map_filterI)
  then show "distinct (map t_sessionId (take_last MAX_TOASTS (filter (\<lambda>x. t_sessionId x \<noteq> sid) ts @ [t])))"
    using assms(2) by (intro distinct_map_take_last) auto
qed

lemma mark_unread_fields:
  "layoutByWorkspace (mark_unread sid a s) = layoutByWorkspace s"
  "focusedPanelByWorkspace (mark_unread sid a s) = focusedPanelByWorkspace s"
  "activeWorkspaceId (mark_unread sid a s) = activeWorkspaceId s"
  "activeSessionId (mark_unread sid a s) = activeSessionId s"
  "sessions (mark_unread sid a s) = sessions s"
  by (auto simp: mark_unread_def Let_def split: prod.splits)

lemma toasts_ok_mark_unread: "toasts_ok (toasts s) \<Longrightarrow> toasts_ok (toasts (mark_unread sid a s))"
  using toasts_ok_push by (auto simp: mark_unread_def Let_def split: prod.splits)

section \<open>Every action keeps the invariant\<close>

lemma store_okI:
  "layouts_ok (layoutByWorkspace s) (focusedPanelByWorkspace s) \<Longrightarrow> active_ok s \<Longrightarrow>
    toasts_ok (toasts s) \<Longrightarrow> store_ok s"
  by (simp add: store_ok_def)

lemma store_okD:
  "store_ok s \<Longrightarrow> layouts_ok (layoutByWorkspace s) (focusedPanelByWorkspace s)"
  "store_ok s \<Longrightarrow> active_ok s"
  "store_ok s \<Longrightarrow> toasts_ok (toasts s)"
  by (simp_all add: store_ok_def)

lemma active_layoutD:
  "active_layout s = Some (wid, t) \<Longrightarrow>
    activeWorkspaceId s = Some wid \<and> wid \<noteq> [] \<and> map_of (layoutByWorkspace s) wid = Some t"
  by (auto simp: active_layout_def layout_of_def split: if_splits elim: truthyE)

text \<open>
  The state changes of the panel actions have one shape: a new layout and focus for the active
  workspace, the active session derived from them, toasts filtered.
\<close>

lemma store_ok_panel_update:
  assumes "store_ok s" "activeWorkspaceId s = Some wid"
    and "panel_ok t" "f \<in> set (leaf_ids t)"
    and "layoutByWorkspace s' = obj_set wid t (layoutByWorkspace s)"
    and "map_of (focusedPanelByWorkspace s') = (map_of (focusedPanelByWorkspace s))(wid \<mapsto> f)"
    and "activeSessionId s' = deriveActiveSession (Some t) (Some f)"
    and "activeWorkspaceId s' = Some wid"
    and "toasts_ok (toasts s')"
  shows "store_ok s'"
proof (rule store_okI)
  have "layouts_ok (obj_set wid t (layoutByWorkspace s)) (obj_set wid f (focusedPanelByWorkspace s))"
    using assms by (intro layouts_ok_set) (auto simp: store_ok_def)
  then show "layouts_ok (layoutByWorkspace s') (focusedPanelByWorkspace s')"
    using assms by (simp add: layouts_ok_def)
  show "active_ok s'"
    using assms by (auto simp: active_ok_def layout_of_def focus_of_def)
qed (fact assms)

lemma store_ok_frame:
  assumes "store_ok s"
    and "layoutByWorkspace s' = layoutByWorkspace s"
    and "focusedPanelByWorkspace s' = focusedPanelByWorkspace s"
    and "activeWorkspaceId s' = activeWorkspaceId s" "activeSessionId s' = activeSessionId s"
    and "toasts_ok (toasts s')"
  shows "store_ok s'"
  using assms by (simp add: store_ok_def active_ok_def layout_of_def focus_of_def)

lemma store_ok_irrelevant [simp]:
  "store_ok (s\<lparr>workspaces := a\<rparr>) = store_ok s"
  "store_ok (s\<lparr>sessions := b\<rparr>) = store_ok s"
  "store_ok (s\<lparr>sessionActivity := c\<rparr>) = store_ok s"
  "store_ok (s\<lparr>activeSessionByWorkspace := d\<rparr>) = store_ok s"
  by (simp_all add: store_ok_def active_ok_def layout_of_def focus_of_def)

lemma store_ok_initial: "store_ok initial_state"
  by (simp add: store_ok_def initial_state_def active_ok_def layout_of_def toasts_ok_def)

lemma app_cancel [simp]: "app (cancel sid w) = app w" "idCounter (cancel sid w) = idCounter w"
  by (simp_all add: cancel_def)

lemma app_with_app [simp]: "app (with_app w f) = f (app w)"
  by (simp add: with_app_def)

lemma store_ok_fetchWorkspaces:
  "store_ok (app w) \<Longrightarrow> store_ok (app (outcome_state (fetchWorkspaces r w)))"
  by (cases r) (simp_all add: fetchWorkspaces_def)

lemma store_ok_renameWorkspace:
  "store_ok (app w) \<Longrightarrow> store_ok (app (outcome_state (renameWorkspace wid r w)))"
  by (cases r) (simp_all add: renameWorkspace_def)

lemma store_ok_fetchSessions:
  "store_ok (app w) \<Longrightarrow> store_ok (app (outcome_state (fetchSessions wid r w)))"
  by (cases r) (simp_all add: fetchSessions_def)

lemma store_ok_pollActive:
  "store_ok (app w) \<Longrightarrow> store_ok (app (outcome_state (pollActive_response wid r w)))"
  by (cases r) (simp_all add: pollActive_response_def)

lemma store_ok_renameSession:
  "store_ok (app w) \<Longrightarrow> store_ok (app (outcome_state (renameSession sid r w)))"
  by (cases r) (simp_all add: renameSession_def Let_def)

lemma store_ok_createWorkspace:
  assumes "store_ok (app w)"
  shows "store_ok (app (outcome_state (createWorkspace rnd rw rs w)))"
proof (cases rw; cases rs)
  fix ws sess
  assume r: "rw = Resolved ws" "rs = Resolved sess"
  let ?i = "fst (nextPanelId rnd ''leaf'' (idCounter w))"
  let ?t = "PLeaf \<lparr>leaf_id = ?i, leaf_session = Some (s_id sess)\<rparr>"
  show ?thesis
  proof (rule store_okI)
    show "layouts_ok (layoutByWorkspace (app (outcome_state (createWorkspace rnd rw rs w))))
        (focusedPanelByWorkspace (app (outcome_state (createWorkspace rnd rw rs w))))"
      using assms layouts_ok_set [of _ _ ?t ?i]
      by (simp add: r createWorkspace_def createLeaf_None store_ok_def panel_ok_single)
    show "active_ok (app (outcome_state (createWorkspace rnd rw rs w)))"
      by (simp add: r createWorkspace_def createLeaf_None active_ok_def layout_of_def focus_of_def
          derive_single)
    show "toasts_ok (toasts (app (outcome_state (createWorkspace rnd rw rs w))))"
      using assms by (simp add: r createWorkspace_def createLeaf_None store_ok_def)
  qed
qed (use assms in \<open>simp_all add: createWorkspace_def\<close>)

lemma store_ok_deleteWorkspace:
  assumes "store_ok (app w)"
  shows "store_ok (app (outcome_state (deleteWorkspace wid r w)))"
proof (cases r)
  case (Resolved b)
  show ?thesis
  proof (rule store_okI)
    show "layouts_ok (layoutByWorkspace (app (outcome_state (deleteWorkspace wid r w))))
        (focusedPanelByWorkspace (app (outcome_state (deleteWorkspace wid r w))))"
      using assms by (simp add: Resolved deleteWorkspace_def Let_def store_ok_def layouts_ok_del)
    show "active_ok (app (outcome_state (deleteWorkspace wid r w)))"
      by (auto simp: Resolved deleteWorkspace_def Let_def active_ok_def layout_of_def focus_of_def)
    show "toasts_ok (toasts (app (outcome_state (deleteWorkspace wid r w))))"
      using assms by (simp add: Resolved deleteWorkspace_def Let_def store_ok_def)
  qed
qed (use assms in \<open>simp add: deleteWorkspace_def\<close>)

lemma workspace_target_cases:
  assumes "store_ok (app w)"
  obtains t f c where "panel_ok t" "f \<in> set (leaf_ids t)" "f \<noteq> []"
    "workspace_target rnd wid sess w = (t, Some f, c)"
proof (cases "layout_of (app w) wid")
  case None
  then show thesis
    by (intro that [OF panel_ok_single]) (simp_all add: workspace_target_def createLeaf_None)
next
  case (Some t)
  then obtain f where "focus_of (app w) wid = Some f" "f \<in> set (leaf_ids t)" "f \<noteq> []"
    using layouts_okD(5) [OF store_okD(1) [OF assms]] by (auto simp: layout_of_def focus_of_def)
  with Some show thesis
    using layouts_okD(1) [OF store_okD(1) [OF assms]] by (intro that [of t f]) (auto simp: workspace_target_def layout_of_def)
qed

lemma store_ok_setActiveWorkspace:
  assumes "store_ok (app w)"
  shows "store_ok (app (setActiveWorkspace_finish rnd wid sess w))"
proof -
  obtain t f c where t: "panel_ok t" "f \<in> set (leaf_ids t)" "f \<noteq> []"
    and eq: "workspace_target rnd wid sess w = (t, Some f, c)"
    by (rule workspace_target_cases [OF assms])
  let ?w = "setActiveWorkspace_finish rnd wid sess w"
  show ?thesis
  proof (rule store_okI)
    show "layouts_ok (layoutByWorkspace (app ?w)) (focusedPanelByWorkspace (app ?w))"
      using layouts_ok_set [OF store_okD(1) [OF assms] t(1,2)]
      by (simp add: setActiveWorkspace_finish_def Let_def eq obj_put_def)
    show "active_ok (app ?w)"
      by (simp add: setActiveWorkspace_finish_def Let_def eq active_ok_def layout_of_def focus_of_def)
    show "toasts_ok (toasts (app ?w))"
      using store_okD(3) [OF assms] by (simp add: setActiveWorkspace_finish_def Let_def eq)
  qed
qed

text \<open>The leaf \<open>createSession\<close> targets exists, so the action never throws.\<close>

lemma createSession_target:
  assumes "store_ok (app w)" "layout_of (app w) wid = Some t"
  obtains f where "focus_of (app w) wid = Some f" "f \<noteq> []" "f \<in> set (leaf_ids t)"
    "findLeafById t f \<noteq> None" "tree_ok t" "panel_ok t"
  using layouts_okD [OF store_okD(1) [OF assms(1)]] assms(2)
  by (metis findLeafById_None focus_of_def layout_of_def)

lemma createSession_Resolved:
  assumes "store_ok (app w)"
  shows "\<exists>t f c. createSession rnd wid (Resolved sess) w = Done (w\<lparr>idCounter := c,
      app := (app w)\<lparr>
        sessions := obj_set wid (sessions_of (app w) wid @ [sess]) (sessions (app w)),
        activeSessionId := (if Some wid = activeWorkspaceId (app w) then Some (s_id sess)
                            else activeSessionId (app w)),
        activeSessionByWorkspace := obj_set wid (s_id sess) (activeSessionByWorkspace (app w)),
        layoutByWorkspace := obj_set wid t (layoutByWorkspace (app w)),
        focusedPanelByWorkspace := obj_set wid f (focusedPanelByWorkspace (app w))\<rparr>\<rparr>)
    \<and> panel_ok t \<and> f \<in> set (leaf_ids t) \<and>
    deriveActiveSession (Some t) (Some f) = Some (s_id sess)"
proof (cases "layout_of (app w) wid")
  case None
  let ?i = "fst (nextPanelId rnd ''leaf'' (idCounter w))"
  show ?thesis
    by (rule exI [of _ "PLeaf \<lparr>leaf_id = ?i, leaf_session = Some (s_id sess)\<rparr>"], rule exI [of _ ?i],
        rule exI [of _ "idCounter w + 1"])
      (simp add: createSession_def Let_def None createLeaf_None panel_ok_single derive_single)
next
  case (Some t)
  with assms obtain f where f: "focus_of (app w) wid = Some f" "f \<noteq> []" "f \<in> set (leaf_ids t)"
      "findLeafById t f \<noteq> None" "panel_ok t"
    by (rule createSession_target)
  show ?thesis
    by (rule exI [of _ "move_session t (s_id sess) f"], rule exI [of _ f],
        rule exI [of _ "idCounter w"])
      (use f in \<open>simp add: createSession_def Let_def Some move_session_def [symmetric] derive_move
        moved.panel_ok_upd\<close>)
qed

lemma store_ok_createSession:
  assumes "store_ok (app w)"
  shows "store_ok (app (outcome_state (createSession rnd wid r w)))"
proof (cases r)
  case (Resolved sess)
  obtain t f c where eq: "createSession rnd wid (Resolved sess) w = Done (w\<lparr>idCounter := c,
      app := (app w)\<lparr>
        sessions := obj_set wid (sessions_of (app w) wid @ [sess]) (sessions (app w)),
        activeSessionId := (if Some wid = activeWorkspaceId (app w) then Some (s_id sess)
                            else activeSessionId (app w)),
        activeSessionByWorkspace := obj_set wid (s_id sess) (activeSessionByWorkspace (app w)),
        layoutByWorkspace := obj_set wid t (layoutByWorkspace (app w)),
        focusedPanelByWorkspace := obj_set wid f (focusedPanelByWorkspace (app w))\<rparr>\<rparr>)"
    and t: "panel_ok t" "f \<in> set (leaf_ids t)"
      "deriveActiveSession (Some t) (Some f) = Some (s_id sess)"
    using createSession_Resolved [OF assms, of rnd wid sess] by blast
  show ?thesis
    unfolding Resolved eq
  proof (rule store_okI, goal_cases)
    case 1
    then show ?case using layouts_ok_set [OF store_okD(1) [OF assms] t(1,2)] by simp
  next
    case 2
    then show ?case
      using store_okD(2) [OF assms] t(3) by (simp add: active_ok_def layout_of_def focus_of_def)
  next
    case 3
    then show ?case using store_okD(3) [OF assms] by simp
  qed
qed (use assms in \<open>simp add: createSession_def\<close>)

section \<open>Deleting a session\<close>

lemma drop_session_idem [simp]: "drop_session s (drop_session s l) = drop_session s l"
  by (simp add: drop_session_def)

lemma map_leaves_comp: "map_leaves f (map_leaves g t) = map_leaves (\<lambda>l. f (g l)) t"
  by (induction t) auto

lemma detach_loop:
  "map_of (fold (\<lambda>x ls. case map_of ls x of
             None \<Rightarrow> ls
           | Some before \<Rightarrow>
               (let (after, fresh) = detachSession before sid
                in if fresh then obj_set x after ls else ls)) xs ls) k =
   (if k \<in> set xs then map_option (map_leaves (drop_session sid)) (map_of ls k) else map_of ls k)"
proof (induction xs arbitrary: ls)
  case (Cons x xs)
  have "detachSession t sid = (map_leaves (drop_session sid) t, map_leaves (drop_session sid) t \<noteq> t)" for t
    by (simp add: detachSession_def det.mapTree_eq)
  then have "map_of (case map_of ls x of
             None \<Rightarrow> ls
           | Some before \<Rightarrow>
               (let (after, fresh) = detachSession before sid
                in if fresh then obj_set x after ls else ls)) =
      (map_of ls)(x := map_option (map_leaves (drop_session sid)) (map_of ls x))"
    by (auto split: option.split)
  then show ?case
    by (auto simp: Cons.IH map_leaves_comp option.map_comp comp_def)
qed simp

lemma detach_everywhere_eq:
  "map_of (detach_everywhere sid ls) k = map_option (map_leaves (drop_session sid)) (map_of ls k)"
  by (simp add: detach_everywhere_def detach_loop) (metis map_of_eq_None_iff option.simps(8))

lemma store_ok_deleteSession_set:
  assumes "store_ok s"
  shows "store_ok (deleteSession_set sid s)"
proof (cases "truthy (activeWorkspaceId s)")
  case False
  then show ?thesis using assms by (simp add: deleteSession_set_def)
next
  case True
  then obtain wid where wid: "activeWorkspaceId s = Some wid" "wid \<noteq> []" by (elim truthyE)
  let ?ls = "detach_everywhere sid (layoutByWorkspace s)"
  have ls: "layouts_ok ?ls (focusedPanelByWorkspace s)"
    using store_okD(1) [OF assms] by (rule detached.layouts_ok_all) (rule detach_everywhere_eq)
  show ?thesis
  proof (rule store_okI)
    show "layouts_ok (layoutByWorkspace (deleteSession_set sid s))
        (focusedPanelByWorkspace (deleteSession_set sid s))"
      using ls by (auto simp: deleteSession_set_def wid Let_def move_session_def [symmetric]
          moved.layouts_ok_upd split: option.split)
    show "active_ok (deleteSession_set sid s)"
      by (auto simp: deleteSession_set_def wid Let_def active_ok_def layout_of_def focus_of_def)
    show "toasts_ok (toasts (deleteSession_set sid s))"
      using store_okD(3) [OF assms] by (simp add: deleteSession_set_def wid Let_def)
  qed
qed

lemma store_ok_deleteSession:
  "store_ok (app w) \<Longrightarrow> store_ok (app (outcome_state (deleteSession sid r w)))"
  by (cases r) (simp_all add: deleteSession_def store_ok_deleteSession_set)

section \<open>Activating, assigning, splitting and closing\<close>

lemma clear_app [simp]:
  "app (w\<lparr>track := tr\<rparr>) = app w" "app (w\<lparr>idCounter := c\<rparr>) = app w"
  by simp_all

text \<open>What \<open>setActiveSession\<close> does once a layout exists.\<close>

lemma setActiveSession_layout:
  assumes "store_ok (app w)" "active_layout (app w) = Some (wid, t)"
  shows "\<exists>t' f. setActiveSession sid w = Done ((cancel sid w)\<lparr>app := (app w)\<lparr>
        activeSessionId := Some sid,
        activeSessionByWorkspace := obj_set wid sid (activeSessionByWorkspace (app w)),
        layoutByWorkspace := obj_set wid t' (layoutByWorkspace (app w)),
        focusedPanelByWorkspace := obj_set wid f (focusedPanelByWorkspace (app w)),
        sessionActivity := clear_unread sid (sessionActivity (app w)),
        toasts := drop_toasts sid (toasts (app w))\<rparr>\<rparr>)
    \<and> panel_ok t' \<and> f \<in> set (leaf_ids t') \<and> deriveActiveSession (Some t') (Some f) = Some sid
    \<and> t' = (if sid \<in> set (listVisibleSessionIds t) then t else move_session t sid f)"
proof -
  have wid: "activeWorkspaceId (app w) = Some wid" "wid \<noteq> []" "layout_of (app w) wid = Some t"
    using active_layoutD [OF assms(2)] by (auto simp: layout_of_def)
  obtain f0 where f0: "focus_of (app w) wid = Some f0" "f0 \<noteq> []" "f0 \<in> set (leaf_ids t)"
      "findLeafById t f0 \<noteq> None" "tree_ok t" "panel_ok t"
    using assms(1) wid(3) by (rule createSession_target)
  show ?thesis
  proof (cases "findLeafBySessionId t sid")
    case None
    then have "sid \<notin> set (listVisibleSessionIds t)" by (simp add: findLeafBySessionId_None)
    moreover obtain l where "findLeafById t f0 = Some l" "leaf_id l = f0"
      using f0(4) findLeafById_SomeD by blast
    ultimately show ?thesis
      using f0 derive_move [OF f0(2,3), of sid]
      by (intro exI [of _ "move_session t sid f0"] exI [of _ f0])
        (simp add: setActiveSession_def Let_def wid None moved.panel_ok_upd move_session_def [symmetric])
  next
    case (Some l)
    then have l: "leaf_session l = Some sid" "l \<in> set (listLeaves t)"
      by (auto dest: findLeafBySessionId_SomeD)
    have "leaf_id l \<in> set (leaf_ids t)" using l by (simp add: leaf_ids_def)
    moreover have "leaf_id l \<noteq> []" using calculation f0(6) by (auto simp: panel_ok_def)
    moreover have "findLeafById t (leaf_id l) = Some l"
      using findLeafById_mem [OF tree_ok_leaf_ids [OF f0(5)] l(2)] .
    moreover have "sid \<in> set (listVisibleSessionIds t)"
      using Some findLeafBySessionId_None [of t sid] by auto
    ultimately show ?thesis
      using f0 l(1)
      by (intro exI [of _ t] exI [of _ "leaf_id l"])
        (simp add: setActiveSession_def Let_def wid Some derive_leaf)
  qed
qed

lemma active_layout_None:
  "active_layout s = None \<longleftrightarrow>
    \<not> truthy (activeWorkspaceId s) \<or> layout_of s (the (activeWorkspaceId s)) = None"
  by (auto simp: active_layout_def)

lemma active_ok_no_layout: "active_layout s = None \<Longrightarrow> active_ok s"
  by (auto simp: active_ok_def active_layout_None)

lemma store_ok_setActiveSession:
  assumes "store_ok (app w)"
  shows "store_ok (app (outcome_state (setActiveSession sid w)))"
proof (cases "active_layout (app w)")
  case None
  show ?thesis
  proof (rule store_okI)
    show "active_ok (app (outcome_state (setActiveSession sid w)))"
      using None by (intro active_ok_no_layout)
        (auto simp: setActiveSession_def Let_def active_layout_None layout_of_def)
  qed (use None store_okD [OF assms] in \<open>auto simp: setActiveSession_def Let_def active_layout_None\<close>)
next
  case (Some a)
  obtain wid t where a: "a = (wid, t)" by (cases a)
  obtain t' f where eq: "setActiveSession sid w = Done ((cancel sid w)\<lparr>app := (app w)\<lparr>
        activeSessionId := Some sid,
        activeSessionByWorkspace := obj_set wid sid (activeSessionByWorkspace (app w)),
        layoutByWorkspace := obj_set wid t' (layoutByWorkspace (app w)),
        focusedPanelByWorkspace := obj_set wid f (focusedPanelByWorkspace (app w)),
        sessionActivity := clear_unread sid (sessionActivity (app w)),
        toasts := drop_toasts sid (toasts (app w))\<rparr>\<rparr>)"
    and t': "panel_ok t'" "f \<in> set (leaf_ids t')" "deriveActiveSession (Some t') (Some f) = Some sid"
    using setActiveSession_layout [OF assms Some [unfolded a], of sid] by blast
  show ?thesis
    unfolding eq
    by (rule store_ok_panel_update [OF assms _ t'(1,2)])
      (use t'(3) active_layoutD [OF Some [unfolded a]] store_okD(3) [OF assms] in simp_all)
qed

lemma store_ok_focusPanel:
  assumes "store_ok (app w)"
  shows "store_ok (app (focusPanel panelId w))"
proof (cases "active_layout (app w)")
  case None
  then show ?thesis using assms by (simp add: focusPanel_def Let_def)
next
  case (Some a)
  obtain wid t where a: "a = (wid, t)" by (cases a)
  note al = active_layoutD [OF Some [unfolded a]]
  show ?thesis
  proof (cases "focus_of (app w) wid = Some panelId \<or> findLeafById t panelId = None")
    case True
    then show ?thesis using assms Some a by (auto simp: focusPanel_def Let_def)
  next
    case False
    then have "panelId \<in> set (leaf_ids t)" by (simp add: findLeafById_None)
    then have "layouts_ok (layoutByWorkspace (app w)) (obj_set wid panelId (focusedPanelByWorkspace (app w)))"
      using store_okD(1) [OF assms] al by (auto simp: layouts_ok_def)
    then show ?thesis
      using False Some a al store_okD(3) [OF assms]
      by (intro store_okI)
        (auto simp: focusPanel_def Let_def active_ok_def layout_of_def focus_of_def)
  qed
qed

lemma store_ok_assignSession:
  assumes "store_ok (app w)"
  shows "store_ok (app (assignSession panelId sid w))"
proof (cases "active_layout (app w)")
  case None
  then show ?thesis using assms by (simp add: assignSession_def Let_def)
next
  case (Some a)
  obtain wid t where a: "a = (wid, t)" by (cases a)
  note al = active_layoutD [OF Some [unfolded a]]
  show ?thesis
  proof (cases "findLeafById t panelId")
    case None
    then show ?thesis using assms Some a by (simp add: assignSession_def Let_def)
  next
    case (Some l)
    then have i: "panelId \<in> set (leaf_ids t)" using findLeafById_None [of t panelId] by auto
    have ok: "panel_ok t" using layouts_okD(1) [OF store_okD(1) [OF assms]] al by blast
    have "panel_ok (move_session t sid panelId)" using ok by (rule moved.panel_ok_upd)
    then show ?thesis
      using i \<open>active_layout (app w) = Some a\<close> a al Some store_okD(3) [OF assms]
      by (intro store_ok_panel_update [OF assms, of wid "move_session t sid panelId" panelId])
        (simp_all add: assignSession_def Let_def move_session_def [symmetric])
  qed
qed

lemma store_ok_resizeSplit:
  assumes "store_ok (app w)"
  shows "store_ok (app (resizeSplit splitId sizes w))"
proof (cases "active_layout (app w)")
  case None
  then show ?thesis using assms by (simp add: resizeSplit_def Let_def)
next
  case (Some a)
  obtain wid t where a: "a = (wid, t)" by (cases a)
  note al = active_layoutD [OF Some [unfolded a]]
  have "layouts_ok (obj_set wid (resize splitId sizes t) (layoutByWorkspace (app w)))
      (focusedPanelByWorkspace (app w))"
    using store_okD(1) [OF assms] al by (intro resized.layouts_ok_upd) auto
  then show ?thesis
    using Some a al store_okD [OF assms] assms
    by (intro store_okI)
      (auto simp: resizeSplit_def Let_def setSplitSizes_eq active_ok_def layout_of_def focus_of_def)
qed

text \<open>
  The two ids a split draws are fresh when they are not ids of the layout: the counter makes the ids of
  one page load distinct, and the random part those of a restored layout.
\<close>

definition fresh_split :: "(nat \<Rightarrow> nat) \<Rightarrow> world \<Rightarrow> bool" where
  "fresh_split rnd w =
     (case active_layout (app w) of
        None \<Rightarrow> True
      | Some (wid, t) \<Rightarrow>
          fst (nextPanelId rnd ''leaf'' (idCounter w)) \<notin> set (node_ids t) \<and>
          fst (nextPanelId rnd ''split'' (idCounter w + 1)) \<notin> set (node_ids t))"

lemma leaf_split_id_distinct:
  "fst (nextPanelId rnd ''split'' c') \<noteq> fst (nextPanelId rnd ''leaf'' c)"
  by (simp add: nextPanelId_def Let_def)

lemma leaf_ids_subst_new:
  assumes "tree_ok t" "findLeafById t i = Some target"
  shows "set (leaf_ids (subst_node i (split_replacement sid d p new target) t)) =
    insert (leaf_id new) (set (leaf_ids t))"
proof -
  obtain xs ys where "listLeaves t = xs @ target # ys"
    "listLeaves (subst_node i (split_replacement sid d p new target) t) =
      xs @ pair_leaves p new target @ ys"
    using split_leaves_ex [OF assms] by metis
  then show ?thesis
    by (cases p) (auto simp: leaf_ids_def pair_leaves_def)
qed

lemma splitPanel_eq:
  assumes "active_layout (app w) = Some (wid, t)" "findLeafById t panelId = Some target"
  shows "splitPanel rnd panelId d p w =
    (let nid = fst (nextPanelId rnd ''leaf'' (idCounter w));
         sid = fst (nextPanelId rnd ''split'' (idCounter w + 1));
         t' = subst_node panelId (split_replacement sid d p \<lparr>leaf_id = nid, leaf_session = None\<rparr> target) t
     in (w\<lparr>idCounter := idCounter w + 2,
           app := (app w)\<lparr>layoutByWorkspace := obj_set wid t' (layoutByWorkspace (app w)),
             focusedPanelByWorkspace := obj_set wid nid (focusedPanelByWorkspace (app w)),
             activeSessionId := deriveActiveSession (Some t') (Some nid)\<rparr>\<rparr>, Some nid))"
  using assms by (simp add: splitPanel_def splitLeaf_eq Let_def)

lemma split_panel_ok:
  assumes "panel_ok t" "findLeafById t i = Some target"
    and "nid \<notin> set (node_ids t)" "sid \<notin> set (node_ids t)" "sid \<noteq> nid" "nid \<noteq> []"
  shows "panel_ok (subst_node i (split_replacement sid d p \<lparr>leaf_id = nid, leaf_session = None\<rparr> target) t)"
  using assms tree_ok_split [of t i target "\<lparr>leaf_id = nid, leaf_session = None\<rparr>" sid d p]
    leaf_ids_subst_new [of t i target sid d p "\<lparr>leaf_id = nid, leaf_session = None\<rparr>"]
  by (auto simp: panel_ok_def)

lemma store_ok_splitPanel:
  assumes "store_ok (app w)" "fresh_split rnd w"
  shows "store_ok (app (fst (splitPanel rnd panelId d p w)))"
proof (cases "active_layout (app w)")
  case None
  then show ?thesis using assms by (simp add: splitPanel_def Let_def)
next
  case (Some a)
  obtain wid t where a: "a = (wid, t)" by (cases a)
  note al = active_layoutD [OF Some [unfolded a]]
  have ok: "panel_ok t" using layouts_okD(1) [OF store_okD(1) [OF assms(1)]] al by blast
  show ?thesis
  proof (cases "findLeafById t panelId")
    case None
    then show ?thesis
      using assms Some a by (simp add: splitPanel_def splitLeaf_None Let_def)
  next
    case (Some target)
    let ?nid = "fst (nextPanelId rnd ''leaf'' (idCounter w))"
    let ?sid = "fst (nextPanelId rnd ''split'' (idCounter w + 1))"
    let ?new = "\<lparr>leaf_id = ?nid, leaf_session = None\<rparr>"
    let ?t' = "subst_node panelId (split_replacement ?sid d p ?new target) t"
    have fresh: "?nid \<notin> set (node_ids t)" "?sid \<notin> set (node_ids t)"
      using assms(2) \<open>active_layout (app w) = Some a\<close> by (simp_all add: fresh_split_def a)
    have t': "panel_ok ?t'"
      by (rule split_panel_ok [OF ok Some fresh leaf_split_id_distinct]) simp
    have nid: "?nid \<in> set (leaf_ids ?t')"
      using ok Some by (simp add: leaf_ids_subst_new panel_ok_def)
    show ?thesis
      unfolding splitPanel_eq [OF \<open>active_layout (app w) = Some a\<close> [unfolded a] Some] Let_def fst_conv
      by (rule store_ok_panel_update [OF assms(1) _ t' nid])
        (use al store_okD(3) [OF assms(1)] in simp_all)
  qed
qed

lemma panel_ok_removeLeaf: "panel_ok t \<Longrightarrow> removeLeaf t x = Some r \<Longrightarrow> panel_ok r"
  using tree_ok_removeLeaf [of t x r] by (auto simp: panel_ok_def leaf_ids_def removeLeaf_Some_leaves)

text \<open>
  The state \<open>closePanel\<close> leaves behind, in closed form: a good layout, and a focus that names one of its
  leaves.
\<close>

lemma closePanel_set_layout:
  assumes "store_ok (app w)" "active_layout (app w) = Some (wid, t)"
  shows "\<exists>t' f w'. closePanel_set rnd panelId sid w = Done w' \<and>
    panel_ok t' \<and> f \<in> set (leaf_ids t') \<and> f \<noteq> [] \<and>
    (removeLeaf t panelId = None \<longrightarrow> (\<exists>i. t' = PLeaf \<lparr>leaf_id = i, leaf_session = None\<rparr>)) \<and>
    (\<forall>r. removeLeaf t panelId = Some r \<longrightarrow> t' = r) \<and>
    (\<forall>f0. focus_of (app w) wid = Some f0 \<longrightarrow> f0 \<noteq> panelId \<longrightarrow> removeLeaf t panelId \<noteq> None \<longrightarrow> f = f0) \<and>
    layoutByWorkspace (app w') = obj_set wid t' (layoutByWorkspace (app w)) \<and>
    focusedPanelByWorkspace (app w') = obj_set wid f (focusedPanelByWorkspace (app w)) \<and>
    activeSessionId (app w') = deriveActiveSession (Some t') (Some f) \<and>
    activeWorkspaceId (app w') = Some wid \<and>
    sessions (app w') = (if truthy sid
      then obj_set wid (filter (\<lambda>x. Some (s_id x) \<noteq> sid) (sessions_of (app w) wid)) (sessions (app w))
      else sessions (app w)) \<and>
    toasts (app w') = (if truthy sid then drop_toasts (the sid) (toasts (app w)) else toasts (app w))"
proof -
  note al = active_layoutD [OF assms(2)]
  have ok: "panel_ok t" using layouts_okD(1) [OF store_okD(1) [OF assms(1)]] al by blast
  obtain f0 where f0: "focus_of (app w) wid = Some f0" "f0 \<noteq> []" "f0 \<in> set (leaf_ids t)"
    using layouts_okD(5) [OF store_okD(1) [OF assms(1)]] al by (auto simp: focus_of_def)
  let ?nid = "fst (nextPanelId rnd ''leaf'' (idCounter w))"
  define t' where "t' = (case removeLeaf t panelId of Some r \<Rightarrow> r
      | None \<Rightarrow> PLeaf \<lparr>leaf_id = ?nid, leaf_session = None\<rparr>)"
  have t': "panel_ok t'"
    using ok by (auto simp: t'_def panel_ok_single panel_ok_removeLeaf split: option.split)
  then have "arity_ok t'" by (simp add: panel_ok_def tree_ok_def)
  then obtain l where l: "firstLeaf t' = Some l" "leaf_id l \<in> set (leaf_ids t')"
    using firstLeaf_id by blast
  define f where "f = (if f0 \<noteq> panelId \<and> findLeafById t' f0 \<noteq> None then f0 else leaf_id l)"
  have f: "f \<in> set (leaf_ids t')" "f \<noteq> []"
    using l t' by (auto simp: f_def findLeafById_None panel_ok_def)
  have keep: "f = f0" if "f0 \<noteq> panelId" "removeLeaf t panelId \<noteq> None"
    using that f0(3) by (auto simp: f_def t'_def findLeafById_None leaf_ids_def removeLeaf_Some_leaves)
  show ?thesis
    using t' f al l f0(1,2) keep assms(2)
    by (intro exI [of _ t'] exI [of _ f])
      (cases "removeLeaf t panelId";
       auto simp: closePanel_set_def Let_def createLeaf_None t'_def f_def findLeafById_None)
qed

lemma store_ok_closePanel_set:
  assumes "store_ok (app w)"
  shows "store_ok (app (outcome_state (closePanel_set rnd panelId sid w)))"
proof (cases "active_layout (app w)")
  case None
  then show ?thesis using assms by (simp add: closePanel_set_def Let_def)
next
  case (Some a)
  obtain wid t where a: "a = (wid, t)" by (cases a)
  obtain t' f w' where eq: "closePanel_set rnd panelId sid w = Done w'"
    and t': "panel_ok t'" "f \<in> set (leaf_ids t')"
    and w': "layoutByWorkspace (app w') = obj_set wid t' (layoutByWorkspace (app w))"
      "focusedPanelByWorkspace (app w') = obj_set wid f (focusedPanelByWorkspace (app w))"
      "activeSessionId (app w') = deriveActiveSession (Some t') (Some f)"
      "activeWorkspaceId (app w') = Some wid"
      "toasts (app w') = (if truthy sid then drop_toasts (the sid) (toasts (app w)) else toasts (app w))"
    using closePanel_set_layout [OF assms Some [unfolded a], of rnd panelId sid] by blast
  show ?thesis
    unfolding eq outcome_state.simps
    by (rule store_ok_panel_update [OF assms _ t'])
      (use w' active_layoutD [OF Some [unfolded a]] store_okD(3) [OF assms] in simp_all)
qed

lemma store_ok_closePanel:
  "store_ok (app w) \<Longrightarrow> store_ok (app (outcome_state (closePanel_finish rnd panelId sid w)))"
  using store_ok_closePanel_set [of "if truthy sid then cancel (the sid) w else w"]
  by (simp add: closePanel_finish_def)

section \<open>Output, unread marks and toasts\<close>

lemma store_ok_toasts [simp]: "store_ok s \<Longrightarrow> toasts_ok ts \<Longrightarrow> store_ok (s\<lparr>toasts := ts\<rparr>)"
  by (rule store_ok_frame) simp_all

lemma store_ok_mark_unread: "store_ok s \<Longrightarrow> store_ok (mark_unread sid a s)"
  by (rule store_ok_frame) (auto simp: mark_unread_fields toasts_ok_mark_unread store_okD)

lemma app_markSessionOutput [simp]: "app (markSessionOutput doc now sid w) = app w"
  by (simp add: markSessionOutput_def Let_def)

lemma store_ok_fire_timer: "store_ok (app w) \<Longrightarrow> store_ok (app (fire_timer doc h w))"
  by (auto simp: fire_timer_def idle_callback_def Let_def store_ok_mark_unread split: option.split)

lemma store_ok_clearSessionUnread: "store_ok (app w) \<Longrightarrow> store_ok (app (clearSessionUnread sid w))"
  by (simp add: clearSessionUnread_def Let_def store_okD split: option.split)

lemma store_ok_clearWorkspaceVisibleUnread:
  "store_ok (app w) \<Longrightarrow> store_ok (app (clearWorkspaceVisibleUnread w))"
  by (simp add: clearWorkspaceVisibleUnread_def Let_def store_okD)

lemma store_ok_dismissToast: "store_ok (app w) \<Longrightarrow> store_ok (app (dismissToast tid w))"
  by (simp add: dismissToast_def Let_def store_okD)

end
