(* ===== verification/AppTracker.thy ===== *)
theory AppTracker
  imports AppInvariant
begin

text \<open>
  The idle tracker of \<open>frontend/src/stores/appStore.ts\<close>: no timeout is ever leaked or forgotten, a
  session has a pending timeout exactly while a burst of output is being tracked for it, and the
  timeout is due \<open>IDLE_MS\<close> after the last output of the burst.
\<close>

section \<open>The invariant\<close>

definition tracker_ok :: "tracker \<Rightarrow> bool" where
  "tracker_ok tr \<longleftrightarrow>
     (\<forall>h p. map_of (timers tr) h = Some p \<longrightarrow>
        h < nextHandle tr \<and> map_of (idleTimers tr) (tm_session p) = Some h \<and>
        (\<exists>b. map_of (busyTrack tr) (tm_session p) = Some b \<and> tm_due p = lastByteAt b + IDLE_MS)) \<and>
     (\<forall>sid h. map_of (idleTimers tr) sid = Some h \<longrightarrow>
        (\<exists>p. map_of (timers tr) h = Some p \<and> tm_session p = sid)) \<and>
     (\<forall>sid. (map_of (busyTrack tr) sid = None) = (map_of (idleTimers tr) sid = None))"

lemma tracker_okD:
  assumes "tracker_ok tr"
  shows "map_of (timers tr) h = Some p \<Longrightarrow>
      h < nextHandle tr \<and> map_of (idleTimers tr) (tm_session p) = Some h \<and>
        (\<exists>b. map_of (busyTrack tr) (tm_session p) = Some b \<and> tm_due p = lastByteAt b + IDLE_MS)"
    and "map_of (idleTimers tr) sid = Some h \<Longrightarrow> \<exists>p. map_of (timers tr) h = Some p \<and> tm_session p = sid"
    and "(map_of (busyTrack tr) sid = None) = (map_of (idleTimers tr) sid = None)"
  using assms by (simp_all add: tracker_ok_def)

lemma tracker_ok_cong:
  assumes "map_of (timers tr) = map_of (timers tr')" "map_of (idleTimers tr) = map_of (idleTimers tr')"
    and "map_of (busyTrack tr) = map_of (busyTrack tr')" "nextHandle tr = nextHandle tr'"
  shows "tracker_ok tr = tracker_ok tr'"
  unfolding tracker_ok_def assms ..

lemma tracker_ok_empty: "tracker_ok empty_tracker"
  by (simp add: tracker_ok_def empty_tracker_def)

lemma clearTimeout_fields [simp]:
  "busyTrack (clearTimeout h tr) = busyTrack tr" "idleTimers (clearTimeout h tr) = idleTimers tr"
  "nextHandle (clearTimeout h tr) = nextHandle tr"
  "map_of (timers (clearTimeout h tr)) = (map_of (timers tr))(h := None)"
  by (simp_all add: clearTimeout_def delete_conv')

section \<open>Cancelling\<close>

lemma cancel_fields:
  "map_of (busyTrack (cancelIdleTracking sid tr)) = (map_of (busyTrack tr))(sid := None)"
  "map_of (idleTimers (cancelIdleTracking sid tr)) = (map_of (idleTimers tr))(sid := None)"
  "nextHandle (cancelIdleTracking sid tr) = nextHandle tr"
  "map_of (timers (cancelIdleTracking sid tr)) =
     (case map_of (idleTimers tr) sid of None \<Rightarrow> map_of (timers tr) | Some h \<Rightarrow> (map_of (timers tr))(h := None))"
  by (auto simp: cancelIdleTracking_def Let_def fun_upd_idem split: option.split)

lemma cancel_timers:
  assumes "tracker_ok tr" "map_of (timers (cancelIdleTracking sid tr)) h = Some p"
  shows "map_of (timers tr) h = Some p \<and> tm_session p \<noteq> sid"
proof -
  have p: "map_of (timers tr) h = Some p"
    using assms(2) by (auto simp: cancel_fields split: option.splits if_splits)
  moreover have "tm_session p \<noteq> sid"
    using tracker_okD(1) [OF assms(1) p] assms(2)
    by (auto simp: cancel_fields split: option.splits if_splits)
  ultimately show ?thesis by simp
qed

lemma tracker_ok_cancel:
  assumes "tracker_ok tr"
  shows "tracker_ok (cancelIdleTracking sid tr)"
  unfolding tracker_ok_def
proof (intro conjI allI impI)
  fix h p
  assume "map_of (timers (cancelIdleTracking sid tr)) h = Some p"
  then have p: "map_of (timers tr) h = Some p" "tm_session p \<noteq> sid"
    using cancel_timers [OF assms] by blast+
  show "h < nextHandle (cancelIdleTracking sid tr)"
    "map_of (idleTimers (cancelIdleTracking sid tr)) (tm_session p) = Some h"
    "\<exists>b. map_of (busyTrack (cancelIdleTracking sid tr)) (tm_session p) = Some b \<and>
      tm_due p = lastByteAt b + IDLE_MS"
    using tracker_okD(1) [OF assms p(1)] p(2) by (simp_all add: cancel_fields)
next
  fix x h
  assume x: "map_of (idleTimers (cancelIdleTracking sid tr)) x = Some h"
  then have "x \<noteq> sid" "map_of (idleTimers tr) x = Some h"
    by (auto simp: cancel_fields split: if_splits)
  moreover obtain p where p: "map_of (timers tr) h = Some p" "tm_session p = x"
    using tracker_okD(2) [OF assms] calculation(2) by blast
  moreover have "map_of (idleTimers tr) sid \<noteq> Some h"
    using p calculation(1) tracker_okD(2) [OF assms, of sid h] by auto
  ultimately show "\<exists>p. map_of (timers (cancelIdleTracking sid tr)) h = Some p \<and> tm_session p = x"
    by (auto simp: cancel_fields split: option.split)
next
  fix x
  show "(map_of (busyTrack (cancelIdleTracking sid tr)) x = None) =
      (map_of (idleTimers (cancelIdleTracking sid tr)) x = None)"
    using tracker_okD(3) [OF assms] by (simp add: cancel_fields)
qed

lemma tracker_ok_fold_cancel: "tracker_ok tr \<Longrightarrow> tracker_ok (fold cancelIdleTracking ids tr)"
  by (induction ids arbitrary: tr) (simp_all add: tracker_ok_cancel)

section \<open>Output\<close>

lemma track_output_fields:
  assumes "tracker_ok tr"
  shows "map_of (busyTrack (track_output sid now tr)) = (map_of (busyTrack tr))(sid \<mapsto>
      (case map_of (busyTrack tr) sid of None \<Rightarrow> \<lparr>startedAt = now, lastByteAt = now\<rparr>
       | Some b \<Rightarrow> b\<lparr>lastByteAt := now\<rparr>))"
    and "map_of (idleTimers (track_output sid now tr)) = (map_of (idleTimers tr))(sid \<mapsto> nextHandle tr)"
    and "nextHandle (track_output sid now tr) = Suc (nextHandle tr)"
    and "map_of (timers (track_output sid now tr)) =
      (\<lambda>h. if h = nextHandle tr then Some \<lparr>tm_session = sid, tm_due = now + IDLE_MS\<rparr>
           else if map_of (idleTimers tr) sid = Some h then None else map_of (timers tr) h)"
proof -
  have fresh: "map_of (timers tr) (nextHandle tr) = None"
    using tracker_okD(1) [OF assms, of "nextHandle tr"] by fastforce
  have old: "map_of (idleTimers tr) sid \<noteq> Some (nextHandle tr)"
    using tracker_okD(2) [OF assms, of sid "nextHandle tr"] fresh by auto
  show "map_of (busyTrack (track_output sid now tr)) = (map_of (busyTrack tr))(sid \<mapsto>
      (case map_of (busyTrack tr) sid of None \<Rightarrow> \<lparr>startedAt = now, lastByteAt = now\<rparr>
       | Some b \<Rightarrow> b\<lparr>lastByteAt := now\<rparr>))"
    "map_of (idleTimers (track_output sid now tr)) = (map_of (idleTimers tr))(sid \<mapsto> nextHandle tr)"
    "nextHandle (track_output sid now tr) = Suc (nextHandle tr)"
    by (auto simp: track_output_def setTimeout_def Let_def split: option.split)
  show "map_of (timers (track_output sid now tr)) =
      (\<lambda>h. if h = nextHandle tr then Some \<lparr>tm_session = sid, tm_due = now + IDLE_MS\<rparr>
           else if map_of (idleTimers tr) sid = Some h then None else map_of (timers tr) h)"
  proof (cases "map_of (idleTimers tr) sid")
    case None
    then show ?thesis
      using fresh by (auto simp: fun_eq_iff track_output_def setTimeout_def Let_def map_add_def split: option.split)
  next
    case (Some h')
    have "timers (track_output sid now tr) =
        timers (clearTimeout h' tr) @ [(nextHandle tr, \<lparr>tm_session = sid, tm_due = now + IDLE_MS\<rparr>)]"
      using Some by (simp add: track_output_def setTimeout_def Let_def clearTimeout_def)
    then show ?thesis
      using fresh old Some by (auto simp: fun_eq_iff map_add_def split: option.split)
  qed
qed

lemma tracker_ok_track_output:
  assumes "tracker_ok tr"
  shows "tracker_ok (track_output sid now tr)"
  unfolding tracker_ok_def track_output_fields [OF assms]
proof (intro conjI allI impI, goal_cases)
  case (1 h p)
  then show ?case using tracker_okD(1) [OF assms, of h p] by (auto split: if_splits)
next
  case (2 h p)
  then show ?case using tracker_okD(1) [OF assms, of h p] by (auto split: if_splits)
next
  case (3 h p)
  show ?case
  proof (cases "h = nextHandle tr")
    case True
    with 3 show ?thesis by (auto split: option.split)
  next
    case False
    with 3 have p: "map_of (timers tr) h = Some p" "map_of (idleTimers tr) sid \<noteq> Some h"
      by (auto split: if_splits)
    then have "tm_session p \<noteq> sid" using tracker_okD(1) [OF assms p(1)] by auto
    with p show ?thesis using tracker_okD(1) [OF assms p(1)] by auto
  qed
next
  case (4 x h)
  show ?case
  proof (cases "x = sid")
    case True
    with 4 show ?thesis by auto
  next
    case False
    with 4 have x: "map_of (idleTimers tr) x = Some h" by auto
    then obtain p where p: "map_of (timers tr) h = Some p" "tm_session p = x"
      using tracker_okD(2) [OF assms] by blast
    moreover have "map_of (idleTimers tr) sid \<noteq> Some h"
      using p False tracker_okD(2) [OF assms, of sid h] by auto
    moreover have "h \<noteq> nextHandle tr" using tracker_okD(1) [OF assms p(1)] by auto
    ultimately show ?thesis by auto
  qed
next
  case (5 x)
  then show ?case using tracker_okD(3) [OF assms] by auto
qed

section \<open>Firing\<close>

lemma fire_timer_None: "map_of (timers (track w)) h = None \<Longrightarrow> fire_timer doc h w = w"
  by (simp add: fire_timer_def)

lemma track_with_app [simp]: "track (with_app w f) = track w"
  by (simp add: with_app_def)

lemma fire_timer_track:
  assumes "map_of (timers (track w)) h = Some p"
  shows "track (fire_timer doc h w) =
    (clearTimeout h (track w))\<lparr>idleTimers := obj_del (tm_session p) (idleTimers (track w)),
                              busyTrack := obj_del (tm_session p) (busyTrack (track w))\<rparr>"
  using assms by (auto simp: fire_timer_def idle_callback_def Let_def split: option.split)

lemma tracker_ok_fire_timer:
  assumes "tracker_ok (track w)"
  shows "tracker_ok (track (fire_timer doc h w))"
proof (cases "map_of (timers (track w)) h")
  case None
  then show ?thesis using assms by (simp add: fire_timer_None)
next
  case (Some p)
  let ?tr = "track w" and ?s = "tm_session p"
  have h: "map_of (idleTimers ?tr) ?s = Some h"
    using tracker_okD(1) [OF assms Some] by simp
  have "map_of (timers (track (fire_timer doc h w))) = map_of (timers (cancelIdleTracking ?s ?tr))"
    "map_of (idleTimers (track (fire_timer doc h w))) = map_of (idleTimers (cancelIdleTracking ?s ?tr))"
    "map_of (busyTrack (track (fire_timer doc h w))) = map_of (busyTrack (cancelIdleTracking ?s ?tr))"
    "nextHandle (track (fire_timer doc h w)) = nextHandle (cancelIdleTracking ?s ?tr)"
    using h by (simp_all add: fire_timer_track [OF Some] cancel_fields clearTimeout_def delete_conv')
  then show ?thesis
    using tracker_ok_cancel [OF assms, of ?s] by (rule tracker_ok_cong [THEN iffD2])
qed

text \<open>A newly unread session: what the idle callback checked before marking it.\<close>

lemma sessionUnread_mark:
  "sessionUnread (mark_unread sid a s) x \<longleftrightarrow> x = sid \<or> sessionUnread s x"
  by (auto simp: mark_unread_def sessionUnread_def Let_def split: prod.splits option.splits)

lemma fire_timer_new_unread:
  assumes "tracker_ok (track w)" "map_of (timers (track w)) h = Some p"
    and "\<not> sessionUnread (app w) x" "sessionUnread (app (fire_timer doc h w)) x"
  shows "x = tm_session p \<and>
    (\<exists>b. map_of (busyTrack (track w)) x = Some b \<and> tm_due p = lastByteAt b + IDLE_MS \<and>
       MIN_BUSY_MS \<le> lastByteAt b - startedAt b) \<and>
    (\<not> isSessionVisibleInActiveWorkspace (app w) x \<or> doc = Hidden)"
  using assms tracker_okD(1) [OF assms(1,2)]
  by (auto simp: fire_timer_def idle_callback_def Let_def sessionUnread_mark split: option.splits if_splits)

end
