(* ===== verification/AppReach.thy ===== *)
theory AppReach
  imports AppTracker
begin

text \<open>
  The store as a transition system: one rule per way an action of
  \<open>frontend/src/stores/appStore.ts\<close> changes the world, with every response the server may give, every
  timer the browser may run and every interleaving. The invariants hold in all reachable worlds.
\<close>

section \<open>Start-up and saved layouts\<close>

definition saved_ok :: "persisted_layouts \<Rightarrow> bool" where
  "saved_ok saved \<longleftrightarrow> (\<forall>w e. map_of saved w = Some e \<longrightarrow> panel_ok (pl_layout e))"

lemma init_layout_ok:
  assumes "\<And>p. persisted = Some p \<Longrightarrow> panel_ok (pl_layout p)"
  shows "\<exists>t f c'. init_layout rnd persisted wS c = Some (t, f, c') \<and> panel_ok t \<and> f \<in> set (leaf_ids t)"
proof (cases persisted)
  case None
  then show ?thesis by (simp add: init_layout_def createLeaf_None panel_ok_single)
next
  case (Some p)
  then have p: "panel_ok (pl_layout p)" using assms by blast
  then have "arity_ok (pl_layout p)" by (simp add: panel_ok_def tree_ok_def)
  then obtain r where r: "reconcileLayout p (set (map s_id wS)) = Some r"
      "pl_layout r = map_leaves (keep_sessions (set (map s_id wS))) (pl_layout p)"
      "pl_focused r \<in> set (leaf_ids (pl_layout r))"
    using reconcile_Some by blast
  have ok: "panel_ok (pl_layout r)" unfolding r(2) using p by (rule pruned.panel_ok_upd)
  have "panel_ok (map_leaves (put_session (pl_focused r) s) (pl_layout r))"
    if "listVisibleSessionIds (pl_layout r) = []" for s
    using ok that by (auto simp: panel_ok_def intro: tree_ok_put)
  then show ?thesis
    using Some r ok by (auto simp: init_layout_def Let_def setLeafSession_eq)
qed

lemma init_layouts_ok:
  assumes "saved_ok saved" "layouts_ok ls fs"
  shows "\<exists>ls' fs' c'. init_layouts rnd saved sess wss ls fs c = Some (ls', fs', c') \<and> layouts_ok ls' fs'"
  using assms(2)
proof (induction wss arbitrary: ls fs c)
  case (Cons x xs)
  let ?wS = "case map_of sess (ws_id x) of None \<Rightarrow> [] | Some l \<Rightarrow> l"
  obtain t f c' where t: "init_layout rnd (map_of saved (ws_id x)) ?wS c = Some (t, f, c')"
      "panel_ok t" "f \<in> set (leaf_ids t)"
    using init_layout_ok [of "map_of saved (ws_id x)" rnd ?wS c] assms(1) by (auto simp: saved_ok_def)
  then show ?case
    using Cons.IH [OF layouts_ok_set [OF Cons.prems t(2,3), of "ws_id x"], of c'] by simp
qed simp

lemma init_finish_ok:
  assumes "saved_ok saved" "toasts_ok (toasts (app w))"
  shows "\<exists>w'. init_finish rnd saved wss sess active w = Done w' \<and> store_ok (app w') \<and> track w' = track w"
proof -
  obtain ls fs c where eq: "init_layouts rnd saved sess wss [] [] (idCounter w) = Some (ls, fs, c)"
    and ok: "layouts_ok ls fs"
    using init_layouts_ok [OF assms(1) layouts_ok_Nil] by metis
  show ?thesis
    using ok assms(2)
    by (simp add: init_finish_def eq Let_def store_ok_def active_ok_def layout_of_def focus_of_def)
qed

lemma init_outcome:
  assumes "saved_ok saved" "store_ok (app w)"
  shows "store_ok (app (outcome_state (init rnd a b c d saved w)))"
    and "track (outcome_state (init rnd a b c d saved w)) = track w"
    and "\<forall>w'. init rnd a b c d saved w \<noteq> Throws TypeError w'"
proof -
  have fin: "\<exists>w'. init_finish rnd saved wss sess active w = Done w' \<and> store_ok (app w') \<and> track w' = track w"
    for wss sess active
    using init_finish_ok [OF assms(1) store_okD(3) [OF assms(2)]] .
  have "(\<exists>w'. init rnd a b c d saved w = Done w' \<and> store_ok (app w') \<and> track w' = track w) \<or>
      init rnd a b c d saved w = Throws ApiRejected w"
    using fin by (auto simp: init_def Let_def split: response.split)
  then show "store_ok (app (outcome_state (init rnd a b c d saved w)))"
    "track (outcome_state (init rnd a b c d saved w)) = track w"
    "\<forall>w'. init rnd a b c d saved w \<noteq> Throws TypeError w'"
    using assms by auto
qed

text \<open>What the subscriber saves of a good state is good, so the next start-up may rely on it.\<close>

lemma layouts_to_save_Some:
  assumes "layouts_ok (layoutByWorkspace s) (focusedPanelByWorkspace s)"
    and "\<And>w. w \<in> set wids \<Longrightarrow> layout_of s w \<noteq> None"
  shows "\<exists>r. layouts_to_save s wids out = Some r \<and>
    (\<forall>w. map_of r w = (if w \<in> set wids
       then Some \<lparr>pl_layout = the (layout_of s w), pl_focused = the (focus_of s w)\<rparr> else map_of out w)) \<and>
    (distinct (map fst out) \<longrightarrow> distinct (map fst r))"
  using assms(2)
proof (induction wids arbitrary: out)
  case (Cons x xs)
  obtain t where t: "layout_of s x = Some t" using Cons.prems by force
  moreover obtain f where f: "focus_of s x = Some f"
    using layouts_okD(5) [OF assms(1), of x t] t by (auto simp: layout_of_def focus_of_def)
  let ?out = "obj_set x \<lparr>pl_layout = t, pl_focused = f\<rparr> out"
  obtain r where r: "layouts_to_save s xs ?out = Some r"
      "\<forall>w. map_of r w = (if w \<in> set xs
         then Some \<lparr>pl_layout = the (layout_of s w), pl_focused = the (focus_of s w)\<rparr> else map_of ?out w)"
      "distinct (map fst ?out) \<longrightarrow> distinct (map fst r)"
    using Cons.IH [of ?out] Cons.prems by auto
  show ?case
    using r t f by (intro exI [of _ r]) (auto intro: distinct_keys_set)
qed simp

lemma layouts_to_save_all:
  assumes "store_ok s"
  obtains r where "layouts_to_save s (obj_keys (layoutByWorkspace s)) [] = Some r"
    "\<And>w. map_of r w = map_option (\<lambda>t. \<lparr>pl_layout = t, pl_focused = the (focus_of s w)\<rparr>) (layout_of s w)"
    "distinct (map fst r)" "saved_ok r"
proof -
  have dom: "w \<in> set (obj_keys (layoutByWorkspace s)) \<longleftrightarrow> layout_of s w \<noteq> None" for w
    by (auto simp: layout_of_def map_of_eq_None_iff)
  obtain r where r: "layouts_to_save s (obj_keys (layoutByWorkspace s)) [] = Some r"
      "\<forall>w. map_of r w = (if w \<in> set (obj_keys (layoutByWorkspace s))
         then Some \<lparr>pl_layout = the (layout_of s w), pl_focused = the (focus_of s w)\<rparr> else map_of [] w)"
      "distinct (map fst r)"
    using layouts_to_save_Some [OF store_okD(1) [OF assms], of "obj_keys (layoutByWorkspace s)" "[]"] dom
    by auto
  have m: "map_of r w = map_option (\<lambda>t. \<lparr>pl_layout = t, pl_focused = the (focus_of s w)\<rparr>) (layout_of s w)" for w
    using r(2) dom [of w] by auto
  moreover have "saved_ok r"
    using m layouts_okD(1) [OF store_okD(1) [OF assms]] by (auto simp: saved_ok_def layout_of_def)
  ultimately show thesis using that r by blast
qed

section \<open>Steps\<close>

inductive app_step :: "(nat \<Rightarrow> nat) \<Rightarrow> world \<Rightarrow> world \<Rightarrow> bool" for rnd where
  init: "saved_ok saved \<Longrightarrow> app_step rnd w (outcome_state (init rnd lw nw ls ns saved w))"
| fetch_workspaces: "app_step rnd w (outcome_state (fetchWorkspaces r w))"
| create_workspace: "app_step rnd w (outcome_state (createWorkspace rnd rw rs w))"
| delete_workspace: "app_step rnd w (outcome_state (deleteWorkspace wid rb w))"
| rename_workspace: "app_step rnd w (outcome_state (renameWorkspace wid rw w))"
| activate_cached: "setActiveWorkspace_call rnd wid w = Some w' \<Longrightarrow> app_step rnd w w'"
| activate_fetched: "app_step rnd w (outcome_state (setActiveWorkspace_response rnd wid rl w))"
| fetch_sessions: "app_step rnd w (outcome_state (fetchSessions wid rl w))"
| poll: "app_step rnd w (outcome_state (pollActive_response wid rl w))"
| create_session: "app_step rnd w (outcome_state (createSession rnd wid rs w))"
| delete_session: "app_step rnd w (outcome_state (deleteSession sid rb w))"
| rename_session: "app_step rnd w (outcome_state (renameSession sid rs w))"
| set_active_session: "app_step rnd w (outcome_state (setActiveSession sid w))"
| mark_output: "app_step rnd w (markSessionOutput doc now sid w)"
| timer: "app_step rnd w (fire_timer doc h w)"
| clear_session: "app_step rnd w (clearSessionUnread sid w)"
| clear_visible: "app_step rnd w (clearWorkspaceVisibleUnread w)"
| dismiss: "app_step rnd w (dismissToast tid w)"
| split: "fresh_split rnd w \<Longrightarrow> app_step rnd w (fst (splitPanel rnd panelId d p w))"
| close: "app_step rnd w (outcome_state (closePanel_finish rnd panelId sido w))"
| focus: "app_step rnd w (focusPanel panelId w)"
| assign: "app_step rnd w (assignSession panelId sid w)"
| resize: "app_step rnd w (resizeSplit splitId sizes w)"

definition start_world :: "world \<Rightarrow> bool" where
  "start_world w \<longleftrightarrow> w = initial_world"

definition reachable_world :: "(nat \<Rightarrow> nat) \<Rightarrow> world \<Rightarrow> bool" where
  "reachable_world rnd = reachable_from start_world (app_step rnd)"

definition world_ok :: "world \<Rightarrow> bool" where
  "world_ok w \<longleftrightarrow> store_ok (app w) \<and> tracker_ok (track w)"

lemma app_step_store: "app_step rnd w w' \<Longrightarrow> store_ok (app w) \<Longrightarrow> store_ok (app w')"
proof (induction rule: app_step.induct)
  case (activate_cached wid w w')
  then show ?case
    by (auto simp: setActiveWorkspace_call_def store_ok_setActiveWorkspace split: option.splits)
next
  case (activate_fetched w wid rl)
  then show ?case
    by (cases rl) (simp_all add: setActiveWorkspace_response_def store_ok_setActiveWorkspace)
qed (simp_all add: init_outcome(1) store_ok_fetchWorkspaces store_ok_createWorkspace
    store_ok_deleteWorkspace store_ok_renameWorkspace store_ok_fetchSessions store_ok_pollActive
    store_ok_createSession store_ok_deleteSession store_ok_renameSession store_ok_setActiveSession
    store_ok_fire_timer store_ok_clearSessionUnread store_ok_clearWorkspaceVisibleUnread
    store_ok_dismissToast store_ok_splitPanel store_ok_closePanel store_ok_focusPanel
    store_ok_assignSession store_ok_resizeSplit)

section \<open>The tracker under every step\<close>

lemma track_cancel [simp]: "track (cancel sid w) = cancelIdleTracking sid (track w)"
  by (simp add: cancel_def)

lemma tracker_ok_setActiveWorkspace:
  "tracker_ok (track w) \<Longrightarrow> tracker_ok (track (setActiveWorkspace_finish rnd wid sess w))"
  by (auto simp: setActiveWorkspace_finish_def Let_def tracker_ok_cancel split: prod.split)

lemma track_createSession [simp]: "track (outcome_state (createSession rnd wid r w)) = track w"
  by (auto simp: createSession_def Let_def createLeaf_None split: response.split option.split prod.split)

lemma track_setActiveSession [simp]:
  "track (outcome_state (setActiveSession sid w)) = cancelIdleTracking sid (track w)"
  by (auto simp: setActiveSession_def Let_def split: option.split)

lemma track_splitPanel [simp]: "track (fst (splitPanel rnd i d p w)) = track w"
  by (auto simp: splitPanel_def Let_def split: option.split prod.split)

lemma track_closePanel:
  "track (outcome_state (closePanel_finish rnd i sid w)) =
    (if truthy sid then cancelIdleTracking (the sid) (track w) else track w)"
  by (auto simp: closePanel_finish_def closePanel_set_def Let_def createLeaf_None split: option.split prod.split)

lemma track_createWorkspace [simp]: "track (outcome_state (createWorkspace rnd a b w)) = track w"
  by (auto simp: createWorkspace_def createLeaf_None split: response.split)

lemma app_step_tracker: "app_step rnd w w' \<Longrightarrow> store_ok (app w) \<Longrightarrow> tracker_ok (track w) \<Longrightarrow> tracker_ok (track w')"
proof (induction rule: app_step.induct)
  case (init saved w lw nw ls ns)
  then show ?case by (simp add: init_outcome(2))
next
  case (fetch_workspaces w r)
  then show ?case by (cases r) (simp_all add: fetchWorkspaces_def)
next
  case (delete_workspace w wid rb)
  then show ?case by (cases rb) (simp_all add: deleteWorkspace_def Let_def tracker_ok_fold_cancel)
next
  case (rename_workspace w wid rw)
  then show ?case by (cases rw) (simp_all add: renameWorkspace_def)
next
  case (activate_cached wid w w')
  then show ?case
    by (auto simp: setActiveWorkspace_call_def tracker_ok_setActiveWorkspace split: option.splits)
next
  case (activate_fetched w wid rl)
  then show ?case
    by (cases rl) (simp_all add: setActiveWorkspace_response_def tracker_ok_setActiveWorkspace)
next
  case (fetch_sessions w wid rl)
  then show ?case by (cases rl) (simp_all add: fetchSessions_def)
next
  case (poll w wid rl)
  then show ?case by (cases rl) (simp_all add: pollActive_response_def)
next
  case (delete_session w sid rb)
  then show ?case by (cases rb) (simp_all add: deleteSession_def tracker_ok_cancel)
next
  case (rename_session w sid rs)
  then show ?case by (cases rs) (simp_all add: renameSession_def)
next
  case (mark_output w doc now sid)
  then show ?case
    by (simp add: markSessionOutput_def Let_def tracker_ok_cancel tracker_ok_track_output)
next
  case (focus w panelId)
  then show ?case by (auto simp: focusPanel_def Let_def tracker_ok_cancel split: option.split)
next
  case (assign w panelId sid)
  then show ?case by (auto simp: assignSession_def Let_def tracker_ok_cancel split: option.split)
next
  case (resize w splitId sizes)
  then show ?case by (auto simp: resizeSplit_def Let_def split: option.split prod.split)
qed (simp_all add: tracker_ok_fire_timer clearSessionUnread_def tracker_ok_cancel
    clearWorkspaceVisibleUnread_def Let_def tracker_ok_fold_cancel dismissToast_def track_closePanel)

interpretation store: invariant_system start_world "app_step rnd" world_ok for rnd
proof unfold_locales
  show "world_ok s" if "start_world s" for s
    using that by (simp add: start_world_def world_ok_def initial_world_def store_ok_initial tracker_ok_empty)
  show "world_ok t" if "app_step rnd s t" "world_ok s" for s t
    using that app_step_store app_step_tracker by (auto simp: world_ok_def)
qed

lemma reachable_world_ok: "reachable_world rnd w \<Longrightarrow> world_ok w"
  unfolding reachable_world_def by (rule store.reachable_inv)

text \<open>The invariant, for use on reachable worlds.\<close>

lemma reachable_store: "reachable_world rnd w \<Longrightarrow> store_ok (app w)"
  using reachable_world_ok by (simp add: world_ok_def)

lemma reachable_tracker: "reachable_world rnd w \<Longrightarrow> tracker_ok (track w)"
  using reachable_world_ok by (simp add: world_ok_def)

lemma focus_leaf:
  assumes "store_ok s" "active_layout s = Some (wid, t)"
  shows "\<exists>f l. focus_of s wid = Some f \<and> findLeafById t f = Some l \<and> activeSessionId s = leaf_session l \<and>
    panel_ok t \<and> f \<noteq> []"
proof -
  note al = active_layoutD [OF assms(2)]
  obtain f where f: "map_of (focusedPanelByWorkspace s) wid = Some f" "f \<in> set (leaf_ids t)" "f \<noteq> []"
    using layouts_okD(5) [OF store_okD(1) [OF assms(1)], of wid t] al by blast
  then obtain l where l: "findLeafById t f = Some l"
    using findLeafById_None [of t f] by auto
  have "activeSessionId s = deriveActiveSession (Some t) (Some f)"
    using store_okD(2) [OF assms(1)] al f by (auto simp: active_ok_def layout_of_def focus_of_def)
  then show ?thesis
    using f l layouts_okD(1) [OF store_okD(1) [OF assms(1)], of wid t] al
    by (auto simp: focus_of_def derive_leaf)
qed

lemma reachable_focus:
  assumes "reachable_world rnd w" "active_layout (app w) = Some (wid, t)"
  shows "\<exists>f l. focus_of (app w) wid = Some f \<and> findLeafById t f = Some l \<and>
    activeSessionId (app w) = leaf_session l \<and> panel_ok t \<and> f \<noteq> []"
  using focus_leaf [OF reachable_store [OF assms(1)] assms(2)] .

text \<open>The calls that could dereference \<open>undefined\<close> do not.\<close>

lemma no_type_error:
  assumes "store_ok (app w)" "saved_ok saved"
  shows "createSession r wid rs w \<noteq> Throws TypeError w'"
    and "setActiveSession sid w \<noteq> Throws TypeError w'"
    and "closePanel_finish r panelId sido w \<noteq> Throws TypeError w'"
    and "init r lw nw ls ns saved w \<noteq> Throws TypeError w'"
    and "persist_subscriber stringify sameLayouts sameFocus (app w) st \<noteq> Throws TypeError st'"
proof -
  show "createSession r wid rs w \<noteq> Throws TypeError w'"
  proof (cases rs)
    case Rejected
    then show ?thesis by (simp add: createSession_def)
  next
    case (Resolved x)
    have "\<exists>v. createSession r wid rs w = Done v"
      using createSession_Resolved [OF assms(1), of r wid x] Resolved by blast
    then show ?thesis by auto
  qed
  show "setActiveSession sid w \<noteq> Throws TypeError w'"
  proof (cases "active_layout (app w)")
    case None
    then show ?thesis by (auto simp: setActiveSession_def Let_def active_layout_None)
  next
    case (Some a)
    then obtain wid t where "active_layout (app w) = Some (wid, t)" by (cases a) simp
    then have "\<exists>v. setActiveSession sid w = Done v"
      using setActiveSession_layout [OF assms(1), of wid t sid] by blast
    then show ?thesis by auto
  qed
  show "closePanel_finish r panelId sido w \<noteq> Throws TypeError w'"
  proof (cases "active_layout (app w)")
    case None
    then show ?thesis by (simp add: closePanel_finish_def closePanel_set_def Let_def)
  next
    case (Some a)
    let ?w = "if truthy sido then cancel (the sido) w else w"
    obtain wid t where "active_layout (app ?w) = Some (wid, t)"
      using Some by (cases a) simp
    then have "\<exists>v. closePanel_set r panelId sido ?w = Done v"
      using closePanel_set_layout [of ?w wid t r panelId sido] assms(1) by auto
    then show ?thesis by (auto simp: closePanel_finish_def)
  qed
  show "init r lw nw ls ns saved w \<noteq> Throws TypeError w'"
    using init_outcome(3) [OF assms(2,1)] by blast
  obtain out where "layouts_to_save (app w) (obj_keys (layoutByWorkspace (app w))) [] = Some out"
    using layouts_to_save_all [OF assms(1)] by metis
  then show "persist_subscriber stringify sameLayouts sameFocus (app w) st \<noteq> Throws TypeError st'"
    by (simp add: persist_subscriber_def)
qed

end
