(* ===== verification/AppEffects.thy ===== *)
theory AppEffects
  imports AppReach
begin

text \<open>
  What the store's actions do, as lemmas over whole actions: which of them can mark a session unread,
  what a burst of output leaves in the idle tracker, where a session goes when it is moved or
  deleted, what start-up shows, and what comes back from the storage after a save.
\<close>

section \<open>Only the idle callback marks a session unread\<close>

definition unread_in :: "session_activity obj \<Rightarrow> string \<Rightarrow> bool" where
  "unread_in acts x = (case map_of acts x of None \<Rightarrow> False | Some a \<Rightarrow> unread a)"

lemma sessionUnread_in: "sessionUnread s x = unread_in (sessionActivity s) x"
  by (simp add: sessionUnread_def unread_in_def)

lemma unread_in_clear: "unread_in (clear_unread sid acts) x \<longleftrightarrow> x \<noteq> sid \<and> unread_in acts x"
  by (auto simp: unread_in_def clear_unread_def split: option.splits)

lemma unread_in_del: "unread_in (obj_del sid acts) x \<longleftrightarrow> x \<noteq> sid \<and> unread_in acts x"
  by (auto simp: unread_in_def)

lemma unread_in_fold_clear: "unread_in (fold clear_unread ids acts) x \<longleftrightarrow> x \<notin> set ids \<and> unread_in acts x"
  by (induction ids arbitrary: acts) (auto simp: unread_in_clear)

lemma unread_in_fold_del: "unread_in (fold obj_del ids acts) x \<longleftrightarrow> x \<notin> set ids \<and> unread_in acts x"
  by (induction ids arbitrary: acts) (auto simp: unread_in_del)

lemma unread_in_read: "unread_in (obj_set sid (a\<lparr>unread := False\<rparr>) acts) x \<longleftrightarrow> x \<noteq> sid \<and> unread_in acts x"
  by (auto simp: unread_in_def)

lemmas unread_simps = sessionUnread_in unread_in_clear unread_in_del unread_in_fold_clear
  unread_in_fold_del unread_in_read

lemma unread_setActiveWorkspace:
  "sessionUnread (app (setActiveWorkspace_finish rnd wid sess w)) x \<Longrightarrow> sessionUnread (app w) x"
  by (auto simp: setActiveWorkspace_finish_def Let_def unread_simps
      split: prod.splits option.splits if_splits)

lemma unread_keep:
  "sessionUnread (s\<lparr>sessions := a\<rparr>) x = sessionUnread s x"
  "sessionUnread (s\<lparr>workspaces := b\<rparr>) x = sessionUnread s x"
  "sessionUnread (s\<lparr>toasts := c\<rparr>) x = sessionUnread s x"
  by (simp_all add: sessionUnread_def)

lemma unread_init: "sessionUnread (app (outcome_state (init rnd a b c d saved w))) x = sessionUnread (app w) x"
  by (auto simp: init_def init_finish_def Let_def unread_simps split: response.split option.split)

lemma unread_createWorkspace:
  "sessionUnread (app (outcome_state (createWorkspace rnd a b w))) x = sessionUnread (app w) x"
  by (auto simp: createWorkspace_def createLeaf_None unread_simps split: response.split)

lemma unread_createSession:
  "sessionUnread (app (outcome_state (createSession rnd wid r w))) x = sessionUnread (app w) x"
  by (auto simp: createSession_def Let_def createLeaf_None unread_simps
      split: response.split option.split prod.split)

lemma unread_setActiveSession:
  "sessionUnread (app (outcome_state (setActiveSession sid w))) x \<Longrightarrow> sessionUnread (app w) x"
  by (auto simp: setActiveSession_def Let_def unread_simps split: option.splits prod.splits)

lemma unread_deleteSession:
  "sessionUnread (app (outcome_state (deleteSession sid r w))) x \<Longrightarrow> sessionUnread (app w) x"
  by (cases r) (auto simp: deleteSession_def deleteSession_set_def Let_def unread_simps split: if_splits option.splits)

lemma unread_clearSession:
  "sessionUnread (app (clearSessionUnread sid w)) x \<Longrightarrow> sessionUnread (app w) x"
  by (auto simp: clearSessionUnread_def Let_def unread_simps split: if_splits option.splits)

lemma unread_splitPanel:
  "sessionUnread (app (fst (splitPanel rnd i d p w))) x = sessionUnread (app w) x"
  by (auto simp: splitPanel_def Let_def unread_simps split: option.split prod.split)

lemma unread_closePanel:
  "sessionUnread (app (outcome_state (closePanel_finish rnd i sid w))) x \<Longrightarrow> sessionUnread (app w) x"
  by (auto simp: closePanel_finish_def closePanel_set_def Let_def createLeaf_None unread_simps
      split: option.splits prod.splits if_splits)

lemma unread_focusPanel:
  "sessionUnread (app (focusPanel i w)) x \<Longrightarrow> sessionUnread (app w) x"
  by (auto simp: focusPanel_def Let_def unread_simps split: option.splits prod.splits if_splits)

lemma unread_assignSession:
  "sessionUnread (app (assignSession i sid w)) x \<Longrightarrow> sessionUnread (app w) x"
  by (auto simp: assignSession_def Let_def unread_simps split: option.splits prod.splits if_splits)

lemma unread_resizeSplit:
  "sessionUnread (app (resizeSplit i sz w)) x = sessionUnread (app w) x"
  by (auto simp: resizeSplit_def Let_def unread_simps split: option.splits prod.splits if_splits)

lemma unread_clearVisible:
  "sessionUnread (app (clearWorkspaceVisibleUnread w)) x \<Longrightarrow> sessionUnread (app w) x"
  by (auto simp: clearWorkspaceVisibleUnread_def Let_def unread_simps split: if_splits option.splits)

lemma unread_deleteWorkspace:
  "sessionUnread (app (outcome_state (deleteWorkspace wid r w))) x \<Longrightarrow> sessionUnread (app w) x"
  by (cases r) (auto simp: deleteWorkspace_def Let_def unread_simps)

lemma step_new_unread:
  assumes "app_step rnd w w'" "sessionUnread (app w') x" "\<not> sessionUnread (app w) x"
  shows "\<exists>doc h. w' = fire_timer doc h w"
  using assms
proof (induction rule: app_step.induct)
  case (fetch_workspaces w r)
  then show ?case by (cases r) (simp_all add: fetchWorkspaces_def unread_keep)
next
  case (rename_workspace w wid rw)
  then show ?case by (cases rw) (simp_all add: renameWorkspace_def unread_keep)
next
  case (activate_cached wid w w')
  then show ?case
    by (auto simp: setActiveWorkspace_call_def dest: unread_setActiveWorkspace split: option.splits)
next
  case (activate_fetched w wid rl)
  then show ?case
    by (cases rl) (auto simp: setActiveWorkspace_response_def dest: unread_setActiveWorkspace)
next
  case (fetch_sessions w wid rl)
  then show ?case by (cases rl) (simp_all add: fetchSessions_def unread_keep)
next
  case (poll w wid rl)
  then show ?case by (cases rl) (simp_all add: pollActive_response_def unread_keep split: if_splits)
next
  case (rename_session w sid rs)
  then show ?case by (cases rs) (simp_all add: renameSession_def Let_def unread_keep split: if_splits)
next
  case (dismiss w tid)
  then show ?case by (simp add: dismissToast_def unread_keep split: if_splits)
next
  case (timer w doc h)
  then show ?case by blast
qed (simp_all add: unread_init unread_createWorkspace unread_createSession unread_splitPanel unread_resizeSplit,
   (metis unread_deleteWorkspace unread_deleteSession unread_setActiveSession unread_clearSession
      unread_clearVisible unread_closePanel unread_focusPanel unread_assignSession)+)


section \<open>A burst of output\<close>

lemma burst_tracker:
  assumes "tracker_ok tr" "map_of (busyTrack tr) sid = None" "ts \<noteq> []"
  shows "tracker_ok (fold (track_output sid) ts tr) \<and>
    map_of (busyTrack (fold (track_output sid) ts tr)) sid = Some \<lparr>startedAt = hd ts, lastByteAt = last ts\<rparr>"
  using assms(3)
proof (induction ts rule: rev_induct)
  case (snoc t ts)
  show ?case
  proof (cases "ts = []")
    case True
    then show ?thesis
      using assms(1,2) by (simp add: tracker_ok_track_output track_output_fields)
  next
    case False
    then have "tracker_ok (fold (track_output sid) ts tr)"
      "map_of (busyTrack (fold (track_output sid) ts tr)) sid = Some \<lparr>startedAt = hd ts, lastByteAt = last ts\<rparr>"
      using snoc.IH by simp_all
    then show ?thesis
      using False by (simp add: tracker_ok_track_output track_output_fields)
  qed
qed simp

lemma tracked_timer:
  assumes "tracker_ok tr" "map_of (busyTrack tr) sid = Some b"
  shows "\<exists>h. map_of (idleTimers tr) sid = Some h \<and>
    map_of (timers tr) h = Some \<lparr>tm_session = sid, tm_due = lastByteAt b + IDLE_MS\<rparr>"
proof -
  obtain h where h: "map_of (idleTimers tr) sid = Some h"
    using tracker_okD(3) [OF assms(1), of sid] assms(2) by auto
  then obtain p where p: "map_of (timers tr) h = Some p" "tm_session p = sid"
    using tracker_okD(2) [OF assms(1)] by blast
  then have "tm_due p = lastByteAt b + IDLE_MS"
    using tracker_okD(1) [OF assms(1) p(1)] assms(2) by auto
  then have "p = \<lparr>tm_session = sid, tm_due = lastByteAt b + IDLE_MS\<rparr>"
    using p(2) by (cases p) simp
  with h p(1) show ?thesis by simp
qed

lemma background_burst:
  assumes "\<not> (isSessionVisibleInActiveWorkspace (app w) sid \<and> doc = Visible)"
  shows "fold (\<lambda>now. markSessionOutput doc now sid) ts w = w\<lparr>track := fold (track_output sid) ts (track w)\<rparr>"
  using assms
proof (induction ts arbitrary: w)
  case (Cons t ts)
  have "markSessionOutput doc t sid w = w\<lparr>track := track_output sid t (track w)\<rparr>"
    using Cons.prems by (auto simp: markSessionOutput_def Let_def)
  then show ?case
    using Cons.IH [of "markSessionOutput doc t sid w"] Cons.prems by simp
qed simp

lemma fire_timer_unread:
  assumes "map_of (timers (track w)) h = Some p" "map_of (busyTrack (track w)) (tm_session p) = Some b"
  shows "sessionUnread (app (fire_timer doc h w)) (tm_session p) \<longleftrightarrow>
    sessionUnread (app w) (tm_session p) \<or>
    MIN_BUSY_MS \<le> lastByteAt b - startedAt b \<and>
      (\<not> isSessionVisibleInActiveWorkspace (app w) (tm_session p) \<or> doc = Hidden)"
  using assms by (auto simp: fire_timer_def idle_callback_def Let_def sessionUnread_mark)

section \<open>Moving a session\<close>

lemma listLeaves_move:
  "listLeaves (move_session t s i) =
     map (\<lambda>l. if leaf_id l = i then l\<lparr>leaf_session := Some s\<rparr>
              else if leaf_session l = Some s then l\<lparr>leaf_session := None\<rparr> else l) (listLeaves t)"
  by (auto simp: move_session_eq put_session_def drop_session_def)

lemma only_leaf_move:
  assumes "i \<in> set (leaf_ids t)"
  shows "[l \<leftarrow> listLeaves (move_session t s i). leaf_session l = Some s] =
    [l\<lparr>leaf_session := Some s\<rparr>. l \<leftarrow> listLeaves t, leaf_id l = i]"
proof -
  have "[l \<leftarrow> map (\<lambda>l. if leaf_id l = i then l\<lparr>leaf_session := Some s\<rparr>
              else if leaf_session l = Some s then l\<lparr>leaf_session := None\<rparr> else l) ls. leaf_session l = Some s] =
    [l\<lparr>leaf_session := Some s\<rparr>. l \<leftarrow> ls, leaf_id l = i]" for ls
    by (induction ls) auto
  then show ?thesis by (simp only: listLeaves_move)
qed

lemma leaf_ids_of_one:
  assumes "distinct (leaf_ids t)" "i \<in> set (leaf_ids t)"
  shows "map leaf_id [l\<lparr>leaf_session := s\<rparr>. l \<leftarrow> listLeaves t, leaf_id l = i] = [i]"
proof -
  have "distinct (map leaf_id ls) \<Longrightarrow> i \<in> leaf_id ` set ls \<Longrightarrow>
    map leaf_id [l\<lparr>leaf_session := s\<rparr>. l \<leftarrow> ls, leaf_id l = i] = [i]" for ls
  proof (induction ls)
    case (Cons l ls)
    have "[l\<lparr>leaf_session := s\<rparr>. l \<leftarrow> ls, leaf_id l = i] = []" if "i \<notin> leaf_id ` set ls"
      using that by (induction ls) auto
    with Cons show ?case by auto
  qed simp
  then show ?thesis using assms by (simp add: leaf_ids_def)
qed


lemma visible_move:
  "x \<in> set (listVisibleSessionIds (move_session t s i)) \<Longrightarrow> x = s \<or> x \<in> set (listVisibleSessionIds t)"
  by (auto simp: set_listVisibleSessionIds listLeaves_move split: if_splits)

section \<open>Deleting a session\<close>

lemma deleteSession_layouts:
  assumes "map_of (layoutByWorkspace (deleteSession_set sid s)) k = Some t" "truthy (activeWorkspaceId s)"
  shows "sid \<notin> set (listVisibleSessionIds t)"
proof -
  obtain wid where wid: "activeWorkspaceId s = Some wid" "wid \<noteq> []" using assms(2) by (elim truthyE)
  let ?rem = "filter (\<lambda>x. s_id x \<noteq> sid) (sessions_of s wid)"
  have det: "sid \<notin> set (listVisibleSessionIds (map_leaves (drop_session sid) u))" for u
    by (simp add: visible_detach)
  have hd: "s_id (hd ?rem) \<noteq> sid" if "?rem \<noteq> []"
    using hd_in_set [OF that] by simp
  have "sid \<notin> set (listVisibleSessionIds (move_session (map_leaves (drop_session sid) u) (s_id (hd ?rem)) i))"
    if "?rem \<noteq> []" for u i
    using det [of u] hd [OF that] visible_move [of sid "map_leaves (drop_session sid) u"] by metis
  then show ?thesis
    using assms(1) det
    by (auto simp: deleteSession_set_def wid Let_def detach_everywhere_eq move_session_def [symmetric]
        split: option.splits if_splits)
qed

lemma deleteSession_fields:
  assumes "activeWorkspaceId s = Some wid" "wid \<noteq> []"
  shows "sessionActivity (deleteSession_set sid s) = obj_del sid (sessionActivity s)"
    and "toasts (deleteSession_set sid s) = filter (\<lambda>t. t_sessionId t \<noteq> sid) (toasts s)"
    and "sessions (deleteSession_set sid s) = obj_set wid (filter (\<lambda>x. s_id x \<noteq> sid) (sessions_of s wid)) (sessions s)"
    and "activeWorkspaceId (deleteSession_set sid s) = Some wid"
    and "focusedPanelByWorkspace (deleteSession_set sid s) = focusedPanelByWorkspace s"
  using assms by (simp_all add: deleteSession_set_def Let_def drop_toasts_eq)

section \<open>Unread marks and toasts of visible sessions\<close>

lemma any_unread_iff: "any_unread s xs \<longleftrightarrow> (\<exists>x \<in> set xs. sessionUnread s (s_id x))"
  by (induction xs) auto

section \<open>Comparing session lists\<close>

definition shown_fields :: "session \<Rightarrow> string \<times> string \<times> string option \<times> string" where
  "shown_fields x = (s_id x, s_title x, s_cwd x, s_updatedAt x)"

lemma sessionsEqual_iff: "sessionsEqual a b \<longleftrightarrow> map shown_fields a = map shown_fields b"
  unfolding sessionsEqual_def list_eq_iff_nth_eq [of "map shown_fields a"]
  by (auto simp: shown_fields_def)

section \<open>Start-up shows a session of every workspace\<close>

lemma visible_put:
  assumes "i \<in> set (leaf_ids t)"
  shows "s \<in> set (listVisibleSessionIds (map_leaves (put_session i (Some s)) t))"
proof -
  obtain l where "l \<in> set (listLeaves t)" "leaf_id l = i" using assms by (auto simp: leaf_ids_def)
  then have "put_session i (Some s) l \<in> set (listLeaves (map_leaves (put_session i (Some s)) t))"
    "leaf_session (put_session i (Some s) l) = Some s"
    by (simp_all add: put_session_def)
  then show ?thesis unfolding set_listVisibleSessionIds by blast
qed

lemma visible_single: "listVisibleSessionIds (PLeaf \<lparr>leaf_id = i, leaf_session = s\<rparr>) = (case s of None \<Rightarrow> [] | Some x \<Rightarrow> [x])"
  by (cases s) (simp_all add: visible_eq List.map_filter_simps)

lemma init_layout_live:
  assumes "\<And>p. persisted = Some p \<Longrightarrow> panel_ok (pl_layout p) \<and> [] \<notin> set (listVisibleSessionIds (pl_layout p))"
    and "init_layout rnd persisted wS c = Some (t, f, c')"
  shows "set (listVisibleSessionIds t) \<subseteq> set (map s_id wS) \<and> (wS \<noteq> [] \<longrightarrow> listVisibleSessionIds t \<noteq> [])"
proof (cases persisted)
  case None
  then have "t = PLeaf \<lparr>leaf_id = fst (nextPanelId rnd ''leaf'' c), leaf_session = first_session_id wS\<rparr>"
    using assms(2) by (auto simp: init_layout_def createLeaf_None)
  then show ?thesis
    by (cases wS) (auto simp: visible_single first_session_id_def)
next
  case (Some p)
  let ?V = "set (map s_id wS)"
  have p: "arity_ok (pl_layout p)" "[] \<notin> set (listVisibleSessionIds (pl_layout p))"
    using assms(1) [OF Some] by (auto simp: panel_ok_def tree_ok_def)
  obtain r where r: "reconcileLayout p ?V = Some r"
      "pl_layout r = map_leaves (keep_sessions ?V) (pl_layout p)"
      "pl_focused r \<in> set (leaf_ids (pl_layout r))"
    using reconcile_Some [OF p(1)] by blast
  have vis: "set (listVisibleSessionIds (pl_layout r)) \<subseteq> ?V"
    using p(2) by (auto simp: r(2) visible_prune)
  show ?thesis
  proof (cases "listVisibleSessionIds (pl_layout r) = [] \<and> wS \<noteq> []")
    case True
    then obtain x xs where x: "wS = x # xs" by (cases wS) auto
    have t: "t = map_leaves (put_session (pl_focused r) (Some (s_id x))) (pl_layout r)"
      using assms(2) Some r(1) True x
      by (auto simp: init_layout_def Let_def setLeafSession_eq first_session_id_def)
    have "set (listVisibleSessionIds t) \<subseteq> {s_id x}"
      using True by (auto simp: t set_listVisibleSessionIds put_session_def visible_eq List.map_filter_def
          filter_empty_conv split: if_splits)
    moreover have "s_id x \<in> set (listVisibleSessionIds t)"
      unfolding t by (rule visible_put [OF r(3)])
    ultimately show ?thesis using x by auto
  next
    case False
    then have "t = pl_layout r"
      using assms(2) Some r(1) by (auto simp: init_layout_def Let_def)
    with vis False show ?thesis by auto
  qed
qed


text \<open>The sessions of a workspace in the dictionary, and a layout that shows only, and some, of them.\<close>

definition known_sessions :: "session list obj \<Rightarrow> string \<Rightarrow> session list" where
  "known_sessions sess wid = (case map_of sess wid of None \<Rightarrow> [] | Some l \<Rightarrow> l)"

definition shows_live :: "session list obj \<Rightarrow> string \<Rightarrow> panel_node \<Rightarrow> bool" where
  "shows_live sess wid t \<longleftrightarrow>
     set (listVisibleSessionIds t) \<subseteq> set (map s_id (known_sessions sess wid)) \<and>
     (known_sessions sess wid \<noteq> [] \<longrightarrow> listVisibleSessionIds t \<noteq> [])"

definition saved_live :: "persisted_layouts \<Rightarrow> bool" where
  "saved_live saved \<longleftrightarrow> (\<forall>w e. map_of saved w = Some e \<longrightarrow>
     panel_ok (pl_layout e) \<and> [] \<notin> set (listVisibleSessionIds (pl_layout e)))"

lemma saved_live_ok: "saved_live saved \<Longrightarrow> saved_ok saved"
  by (simp add: saved_live_def saved_ok_def)

lemma init_layouts_live:
  assumes "saved_live saved" "init_layouts rnd saved sess wss ls fs c = Some (ls', fs', c')"
    and "\<And>k t. map_of ls k = Some t \<Longrightarrow> shows_live sess k t"
  shows "(\<forall>k t. map_of ls' k = Some t \<longrightarrow> shows_live sess k t) \<and>
    dom (map_of ls') = dom (map_of ls) \<union> ws_id ` set wss"
  using assms(2,3)
proof (induction wss arbitrary: ls fs c)
  case (Cons x xs)
  obtain t f c1 where t: "init_layout rnd (map_of saved (ws_id x)) (known_sessions sess (ws_id x)) c = Some (t, f, c1)"
    and rest: "init_layouts rnd saved sess xs (obj_set (ws_id x) t ls) (obj_set (ws_id x) f fs) c1 = Some (ls', fs', c')"
    using Cons.prems(1) by (auto simp: known_sessions_def Let_def split: option.splits)
  have "shows_live sess (ws_id x) t"
    unfolding shows_live_def
    by (rule init_layout_live [OF _ t]) (use assms(1) in \<open>simp add: saved_live_def\<close>)
  then have "(\<forall>k t. map_of ls' k = Some t \<longrightarrow> shows_live sess k t) \<and>
    dom (map_of ls') = dom (map_of (obj_set (ws_id x) t ls)) \<union> ws_id ` set xs"
    using Cons.prems(2) by (intro Cons.IH [OF rest]) (auto split: if_splits)
  then show ?case by auto
qed simp

lemma init_Done:
  assumes "init rnd lw nw ls ns saved w = Done w'"
  shows "\<exists>c'. init_layouts rnd saved (sessions (app w')) (workspaces (app w')) [] [] (idCounter w) =
      Some (layoutByWorkspace (app w'), focusedPanelByWorkspace (app w'), c') \<and>
    activeWorkspaceId (app w') = Some (ws_id (hd (workspaces (app w')))) \<and> workspaces (app w') \<noteq> [] \<and>
    initialized (app w')"
proof -
  have "\<exists>wss sess active. wss \<noteq> [] \<and> init_finish rnd saved wss sess active w = Done w'"
    using assms by (auto simp: init_def Let_def split: response.splits if_splits)
  then show ?thesis
    by (auto simp: init_finish_def Let_def split: option.splits)
qed

lemma init_live:
  assumes "saved_live saved" "init rnd lw nw ls ns saved w = Done w'" "x \<in> set (workspaces (app w'))"
  shows "\<exists>t. layout_of (app w') (ws_id x) = Some t \<and> shows_live (sessions (app w')) (ws_id x) t"
proof -
  obtain c' where "init_layouts rnd saved (sessions (app w')) (workspaces (app w')) [] [] (idCounter w) =
      Some (layoutByWorkspace (app w'), focusedPanelByWorkspace (app w'), c')"
    using init_Done [OF assms(2)] by blast
  from init_layouts_live [OF assms(1) this] assms(3)
  have "(\<forall>k t. layout_of (app w') k = Some t \<longrightarrow> shows_live (sessions (app w')) k t)"
    "ws_id x \<in> dom (layout_of (app w'))"
    by (auto simp: layout_of_def [abs_def])
  then show ?thesis by blast
qed

section \<open>Saving and restoring\<close>

lemma load_saved_state:
  assumes "store_ok s" "layouts_to_save s (obj_keys (layoutByWorkspace s)) [] = Some out"
    and "stringify (layouts_file out) \<noteq> []"
    and "parse (stringify (layouts_file out)) = Some (layouts_file out)"
  shows "map_of (loadLayouts parse (saveLayouts stringify out (Working False m))) wid =
      map_option (\<lambda>t. \<lparr>pl_layout = t, pl_focused = the (focus_of s wid)\<rparr>) (layout_of s wid)"
proof -
  obtain r where r: "layouts_to_save s (obj_keys (layoutByWorkspace s)) [] = Some r"
    "\<And>w. map_of r w = map_option (\<lambda>t. \<lparr>pl_layout = t, pl_focused = the (focus_of s w)\<rparr>) (layout_of s w)"
    "distinct (map fst r)" "saved_ok r"
    using layouts_to_save_all [OF assms(1)] by metis
  have "out = r" using r(1) assms(2) by simp
  moreover have "arity_ok (pl_layout e)" if "(w, e) \<in> set r" for w e
  proof -
    have "map_of r w = Some e" using r(3) that by simp
    then show ?thesis using r(4) by (auto simp: saved_ok_def panel_ok_def tree_ok_def)
  qed
  ultimately show ?thesis
    using load_save [of r stringify parse m] r(2,3) assms(3,4) by simp
qed

section \<open>Closing a panel\<close>

lemma leaf_ids_all: "distinct (leaf_ids t) \<Longrightarrow> arity_ok t \<Longrightarrow>
    (\<forall>l \<in> set (listLeaves t). leaf_id l = i) \<longleftrightarrow> leaf_ids t = [i]"
  using arity_ok_leaves [of t]
  by (cases "listLeaves t"; cases "tl (listLeaves t)") (auto simp: leaf_ids_def)

lemma hidden_after_removal:
  assumes "tree_ok t" "findLeafById t i = Some leaf" "leaf_session leaf = Some sid"
    and "removeLeaf t i = Some r"
  shows "sid \<notin> set (listVisibleSessionIds r)"
proof -
  obtain xs ys where leaves: "listLeaves t = xs @ leaf # ys" "leaf_id leaf = i"
    using findLeafById_SomeD [OF assms(2)] by (meson split_list)
  let ?f = "List.map_filter leaf_session"
  have split: "?f (xs @ leaf # ys) = ?f xs @ sid # ?f ys"
    using assms(3) by (simp add: List.map_filter_def)
  have "distinct (?f xs @ sid # ?f ys)"
    using assms(1) leaves(1) split by (simp add: tree_ok_def visible_eq)
  then have "sid \<notin> set (?f xs) \<union> set (?f ys)" by simp
  moreover have "\<exists>l \<in> set zs. leaf_session l = Some sid \<Longrightarrow> sid \<in> set (?f zs)" for zs
    by (induction zs) (auto simp: List.map_filter_simps split: option.split)
  ultimately have none: "\<forall>l \<in> set xs \<union> set ys. leaf_session l \<noteq> Some sid" by blast
  have "set (listLeaves r) \<subseteq> set xs \<union> set ys"
    using leaves removeLeaf_Some_leaves [OF assms(4)] by auto
  with none show ?thesis by (auto simp: set_listVisibleSessionIds)
qed

lemma closePanel_result:
  assumes "store_ok (app w)" "active_layout (app w) = Some (wid, t)"
    and "findLeafById t panelId = Some leaf"
  shows "\<exists>w' t' f. closePanel_finish rnd panelId (leaf_session leaf) w = Done w' \<and>
    layout_of (app w') wid = Some t' \<and> focus_of (app w') wid = Some f \<and> f \<in> set (leaf_ids t') \<and>
    (if leaf_ids t = [panelId] then \<exists>i. t' = PLeaf \<lparr>leaf_id = i, leaf_session = None\<rparr>
     else listLeaves t' = [l \<leftarrow> listLeaves t. leaf_id l \<noteq> panelId] \<and> arity_ok t' \<and> sizes_ok t' \<and>
       (focus_of (app w) wid \<noteq> Some panelId \<longrightarrow> focus_of (app w') wid = focus_of (app w) wid)) \<and>
    (\<forall>sid. leaf_session leaf = Some sid \<and> sid \<noteq> [] \<longrightarrow>
       sid \<notin> set (listVisibleSessionIds t') \<and> (\<forall>x \<in> set (sessions_of (app w') wid). s_id x \<noteq> sid) \<and>
       (\<forall>x \<in> set (toasts (app w')). t_sessionId x \<noteq> sid))"
proof -
  let ?sido = "leaf_session leaf"
  let ?w = "if truthy ?sido then cancel (the ?sido) w else w"
  have app: "app ?w = app w" by simp
  obtain f0 where f0: "focus_of (app w) wid = Some f0" and ok: "panel_ok t"
    using focus_leaf [OF assms(1,2)] by blast
  then have t: "tree_ok t" "arity_ok t" "distinct (leaf_ids t)"
    by (auto simp: panel_ok_def tree_ok_def tree_ok_leaf_ids)
  have "store_ok (app ?w)" "active_layout (app ?w) = Some (wid, t)"
    using assms(1,2) app by simp_all
  from closePanel_set_layout [OF this, of rnd panelId ?sido, unfolded app]
  obtain t' f w' where r: "closePanel_set rnd panelId ?sido ?w = Done w'" "f \<in> set (leaf_ids t')"
      "removeLeaf t panelId = None \<longrightarrow> (\<exists>i. t' = PLeaf \<lparr>leaf_id = i, leaf_session = None\<rparr>)"
      "\<forall>r. removeLeaf t panelId = Some r \<longrightarrow> t' = r"
      "\<forall>f0. focus_of (app w) wid = Some f0 \<longrightarrow> f0 \<noteq> panelId \<longrightarrow> removeLeaf t panelId \<noteq> None \<longrightarrow> f = f0"
      "layoutByWorkspace (app w') = obj_set wid t' (layoutByWorkspace (app w))"
      "focusedPanelByWorkspace (app w') = obj_set wid f (focusedPanelByWorkspace (app w))"
      "sessions (app w') = (if truthy ?sido
        then obj_set wid (filter (\<lambda>x. Some (s_id x) \<noteq> ?sido) (sessions_of (app w) wid)) (sessions (app w))
        else sessions (app w))"
      "toasts (app w') = (if truthy ?sido then drop_toasts (the ?sido) (toasts (app w)) else toasts (app w))"
    by (elim exE conjE) (rule that; assumption)
  have none: "removeLeaf t panelId = None \<longleftrightarrow> leaf_ids t = [panelId]"
    unfolding removeLeaf_None using leaf_ids_all [OF t(3,2)] .
  have shape: "if leaf_ids t = [panelId] then \<exists>i. t' = PLeaf \<lparr>leaf_id = i, leaf_session = None\<rparr>
     else listLeaves t' = [l \<leftarrow> listLeaves t. leaf_id l \<noteq> panelId] \<and> arity_ok t' \<and> sizes_ok t'"
    using none r(3,4) removeLeaf_normal removeLeaf_Some_leaves
    by (cases "removeLeaf t panelId") (auto split: if_splits)
  have hidden: "sid \<notin> set (listVisibleSessionIds t')" if "?sido = Some sid" for sid
  proof (cases "removeLeaf t panelId")
    case None
    then obtain i where "t' = PLeaf \<lparr>leaf_id = i, leaf_session = None\<rparr>" using r(3) by auto
    then show ?thesis by (simp add: visible_single)
  next
    case (Some u)
    then show ?thesis using r(4) hidden_after_removal [OF t(1) assms(3) that Some] by simp
  qed
  have "closePanel_finish rnd panelId ?sido w = Done w'"
    using r(1) by (simp add: closePanel_finish_def)
  moreover have "layout_of (app w') wid = Some t'" "focus_of (app w') wid = Some f"
    using r(6,7) by (simp_all add: layout_of_def focus_of_def)
  ultimately show ?thesis
    using r(2,5) f0 shape none hidden r(8,9)
    by (intro exI [of _ w'] exI [of _ t'] exI [of _ f]) (auto simp: sessions_of_def drop_toasts_eq)
qed

section \<open>Looking at the active workspace\<close>

lemma fold_cancel_timers:
  assumes "tracker_ok tr" "map_of (timers (fold cancelIdleTracking ids tr)) h = Some p"
  shows "map_of (timers tr) h = Some p \<and> tm_session p \<notin> set ids"
  using assms
proof (induction ids arbitrary: tr)
  case (Cons i ids)
  have "map_of (timers (cancelIdleTracking i tr)) h = Some p \<and> tm_session p \<notin> set ids"
    using Cons.prems by (intro Cons.IH) (simp_all add: tracker_ok_cancel)
  then show ?case
    using cancel_timers [OF Cons.prems(1), of i h p] by simp
qed simp

lemma clear_visible_result:
  assumes "tracker_ok (track w)" "active_layout (app w) = Some (wid, t)"
  shows "sessionUnread (app (clearWorkspaceVisibleUnread w)) x \<longleftrightarrow>
      sessionUnread (app w) x \<and> x \<notin> set (listVisibleSessionIds t)"
    and "toasts (app (clearWorkspaceVisibleUnread w)) =
      [y \<leftarrow> toasts (app w). t_sessionId y \<notin> set (listVisibleSessionIds t)]"
    and "map_of (timers (track (clearWorkspaceVisibleUnread w))) h = Some p \<Longrightarrow>
       map_of (timers (track w)) h = Some p \<and> tm_session p \<notin> set (listVisibleSessionIds t)"
proof -
  let ?ids = "listVisibleSessionIds t"
  have al: "truthy (activeWorkspaceId (app w))" "layout_of (app w) (the (activeWorkspaceId (app w))) = Some t"
    using active_layoutD [OF assms(2)] by (auto simp: layout_of_def)
  have "filter (\<lambda>t. t_sessionId t \<notin> set ?ids) (toasts (app w)) = toasts (app w)"
    if "\<not> list_ex (\<lambda>t. t_sessionId t \<in> set ?ids) (toasts (app w))"
    using that by (auto simp: list_ex_iff intro: filter_True)
  with al show "sessionUnread (app (clearWorkspaceVisibleUnread w)) x \<longleftrightarrow>
      sessionUnread (app w) x \<and> x \<notin> set ?ids"
    "toasts (app (clearWorkspaceVisibleUnread w)) = [y \<leftarrow> toasts (app w). t_sessionId y \<notin> set ?ids]"
    by (auto simp: clearWorkspaceVisibleUnread_def Let_def unread_simps)
  show "map_of (timers (track w)) h = Some p \<and> tm_session p \<notin> set ?ids"
    if "map_of (timers (track (clearWorkspaceVisibleUnread w))) h = Some p"
  proof (cases "?ids = []")
    case True
    with that al show ?thesis by (simp add: clearWorkspaceVisibleUnread_def Let_def)
  next
    case False
    with that al have "map_of (timers (fold cancelIdleTracking ?ids (track w))) h = Some p"
      by (simp add: clearWorkspaceVisibleUnread_def Let_def)
    then show ?thesis using fold_cancel_timers [OF assms(1)] by blast
  qed
qed

section \<open>Deleting a workspace\<close>

lemma map_of_fold_obj_del: "map_of (fold obj_del ids m) k = (if k \<in> set ids then None else map_of m k)"
  by (induction ids arbitrary: m) auto

lemma fold_cancel_tracked: "busyTrack (fold cancelIdleTracking ids tr) = fold obj_del ids (busyTrack tr)"
proof (induction ids arbitrary: tr)
  case (Cons i ids)
  have "busyTrack (cancelIdleTracking i tr) = obj_del i (busyTrack tr)"
    by (simp add: cancelIdleTracking_def clearTimeout_def Let_def split: option.split)
  then show ?case by (simp add: Cons.IH)
qed simp

lemma deleteWorkspace_fields:
  fixes w :: world and wid :: string and b :: bool
  defines "w' \<equiv> outcome_state (deleteWorkspace wid (Resolved b) w)"
  shows "deleteWorkspace wid (Resolved b) w = Done w'"
    "workspaces (app w') = filter (\<lambda>x. ws_id x \<noteq> wid) (workspaces (app w))"
    "activeWorkspaceId (app w') =
      (case filter (\<lambda>x. ws_id x \<noteq> wid) (workspaces (app w)) of [] \<Rightarrow> None | x # _ \<Rightarrow> Some (ws_id x))"
    "track w' = fold cancelIdleTracking (map s_id (sessions_of (app w) wid)) (track w)"
    "sessionActivity (app w') = fold obj_del (map s_id (sessions_of (app w) wid)) (sessionActivity (app w))"
    "layoutByWorkspace (app w') = obj_del wid (layoutByWorkspace (app w))"
    "focusedPanelByWorkspace (app w') = obj_del wid (focusedPanelByWorkspace (app w))"
    "sessions (app w') = obj_del wid (sessions (app w))"
  by (simp_all add: w'_def deleteWorkspace_def Let_def)

lemma deleteWorkspace_toasts:
  "set (toasts (app (outcome_state (deleteWorkspace wid (Resolved b) w)))) =
    {t \<in> set (toasts (app w)). t_sessionId t \<notin> s_id ` set (sessions_of (app w) wid)}"
  by (auto simp: deleteWorkspace_def Let_def list_ex_iff)

end
