(* ===== verification/AppExample.thy ===== *)
theory AppExample
  imports AppEffects
begin

text \<open>
  A concrete run of the store: a workspace is created, its panel split, a second session created in
  the new panel, and the first panel focused again while the second session prints. The instances of the
  properties are taken at its states.
\<close>

definition ex_rnd :: "nat \<Rightarrow> nat" where "ex_rnd _ = 7"

definition ex_workspace :: workspace where
  "ex_workspace = \<lparr>ws_id = ''w1'', ws_name = ''main'', ws_sortOrder = 0, ws_createdAt = ''t0'', ws_updatedAt = ''t0''\<rparr>"

definition ex_session :: "string \<Rightarrow> session" where
  "ex_session i = \<lparr>s_id = i, s_workspaceId = ''w1'', s_title = ''zsh'', s_shell = None, s_cwd = None,
     s_sortOrder = 0, s_createdAt = ''t0'', s_updatedAt = ''t0''\<rparr>"

definition ex_one :: world where
  "ex_one = outcome_state (createWorkspace ex_rnd (Resolved ex_workspace) (Resolved (ex_session ''s1'')) initial_world)"

definition ex_split :: world where
  "ex_split = fst (splitPanel ex_rnd ''leaf-1-7'' Row After ex_one)"

definition ex_two :: world where
  "ex_two = outcome_state (createSession ex_rnd ''w1'' (Resolved (ex_session ''s2'')) ex_split)"

definition ex_closed_tree :: panel_node where
  "ex_closed_tree = PSplit ''split-3-7'' Row [50, 50]
     [PLeaf \<lparr>leaf_id = ''leaf-1-7'', leaf_session = Some ''s1''\<rparr>,
      PLeaf \<lparr>leaf_id = ''leaf-2-7'', leaf_session = Some ''s2''\<rparr>]"

lemma ex_ids: "digit_char (Suc 0) = CHR ''1''" "digit_char (Suc (Suc 0)) = CHR ''2''"
  "digit_char (Suc (Suc (Suc 0))) = CHR ''3''"
  "digit_char 7 = CHR ''7''"
  by code_simp+

lemmas ex_simps = ex_rnd_def ex_workspace_def ex_session_def initial_world_def initial_state_def
  with_app_def createWorkspace_def createLeaf_def nextPanelId_def to_radix.simps ex_ids

lemma ex_one_eq: "ex_one = \<lparr>app = \<lparr>workspaces = [ex_workspace], sessions = [(''w1'', [ex_session ''s1''])],
    activeWorkspaceId = Some ''w1'', activeSessionId = Some ''s1'',
    activeSessionByWorkspace = [(''w1'', ''s1'')], sessionActivity = [], toasts = [], initialized = False,
    layoutByWorkspace = [(''w1'', PLeaf \<lparr>leaf_id = ''leaf-1-7'', leaf_session = Some ''s1''\<rparr>)],
    focusedPanelByWorkspace = [(''w1'', ''leaf-1-7'')]\<rparr>, track = empty_tracker, idCounter = 1\<rparr>"
  by (simp add: ex_one_def ex_simps)

lemma ex_fresh: "fresh_split ex_rnd ex_one"
  by (simp add: fresh_split_def ex_one_eq active_layout_def layout_of_def nextPanelId_def ex_rnd_def
      to_radix.simps ex_ids)

lemma ex_split_eq: "ex_split = \<lparr>app = \<lparr>workspaces = [ex_workspace], sessions = [(''w1'', [ex_session ''s1''])],
    activeWorkspaceId = Some ''w1'', activeSessionId = None,
    activeSessionByWorkspace = [(''w1'', ''s1'')], sessionActivity = [], toasts = [], initialized = False,
    layoutByWorkspace = [(''w1'', PSplit ''split-3-7'' Row [50, 50]
      [PLeaf \<lparr>leaf_id = ''leaf-1-7'', leaf_session = Some ''s1''\<rparr>, PLeaf \<lparr>leaf_id = ''leaf-2-7'', leaf_session = None\<rparr>])],
    focusedPanelByWorkspace = [(''w1'', ''leaf-2-7'')]\<rparr>, track = empty_tracker, idCounter = 3\<rparr>"
  by (simp add: ex_split_def ex_one_eq splitPanel_def active_layout_def layout_of_def splitLeaf_def
      createLeaf_def createSplit_def nextPanelId_def ex_rnd_def to_radix.simps ex_ids
      deriveActiveSession_def)

lemma ex_two_eq: "ex_two = \<lparr>app = \<lparr>workspaces = [ex_workspace],
    sessions = [(''w1'', [ex_session ''s1'', ex_session ''s2''])],
    activeWorkspaceId = Some ''w1'', activeSessionId = Some ''s2'',
    activeSessionByWorkspace = [(''w1'', ''s2'')], sessionActivity = [], toasts = [], initialized = False,
    layoutByWorkspace = [(''w1'', ex_closed_tree)],
    focusedPanelByWorkspace = [(''w1'', ''leaf-2-7'')]\<rparr>, track = empty_tracker, idCounter = 3\<rparr>"
  by (simp add: ex_two_def ex_split_eq ex_closed_tree_def put_session_def createSession_def layout_of_def focus_of_def
      sessions_of_def setLeafSession_def setLeafSession_fn_def detachSession_def detachSession_fn_def
      Let_def) (simp add: ex_session_def)

lemma ex_reachable: "reachable_world ex_rnd ex_one" "reachable_world ex_rnd ex_split" "reachable_world ex_rnd ex_two"
proof -
  have s: "reachable_world ex_rnd initial_world"
    unfolding reachable_world_def by (rule reachable_start) (simp add: start_world_def)
  show one: "reachable_world ex_rnd ex_one"
    using s unfolding reachable_world_def ex_one_def
    by (rule reachable_step) (rule app_step.create_workspace)
  show two: "reachable_world ex_rnd ex_split"
    using one unfolding reachable_world_def ex_split_def
    by (rule reachable_step) (rule app_step.split [OF ex_fresh])
  show "reachable_world ex_rnd ex_two"
    using two unfolding reachable_world_def ex_two_def
    by (rule reachable_step) (rule app_step.create_session)
qed

text \<open>
  Then a session the window shows nowhere prints three chunks and falls silent, and its timer
  fires: it becomes unread and, once its workspace lists it, gets a toast.
\<close>

definition ex_third :: world where
  "ex_third = outcome_state (fetchSessions ''w1'' (Resolved (map ex_session [''s1'', ''s2'', ''s9''])) ex_two)"

definition ex_busy :: world where
  "ex_busy = fold (\<lambda>now. markSessionOutput Hidden now ''s9'') [100, 400, 900] ex_third"

definition ex_unread :: world where
  "ex_unread = fire_timer Visible 2 ex_busy"

lemma ex_third_eq: "ex_third = with_app ex_two (\<lambda>s. s\<lparr>sessions := [(''w1'', map ex_session [''s1'', ''s2'', ''s9''])]\<rparr>)"
  by (simp add: ex_third_def fetchSessions_def with_app_def ex_two_eq)

lemma ex_busy_eq: "track ex_busy = \<lparr>busyTrack = [(''s9'', \<lparr>startedAt = 100, lastByteAt = 900\<rparr>)],
    idleTimers = [(''s9'', 2)], timers = [(2, \<lparr>tm_session = ''s9'', tm_due = 2400\<rparr>)], nextHandle = 3\<rparr>"
  by (simp add: ex_busy_def ex_third_eq with_app_def ex_two_eq markSessionOutput_def Let_def
      track_output_def setTimeout_def clearTimeout_def empty_tracker_def IDLE_MS_def)

lemma ex_busy_app: "app ex_busy = app ex_third"
  by (simp add: ex_busy_def)

lemma ex_unread_eq: "toasts (app ex_unread) = [\<lparr>t_id = ''s9-'' @ dec_int 900, t_sessionId = ''s9'',
      t_workspaceId = ''w1'', t_sessionTitle = ''zsh'', t_createdAt = 900\<rparr>]"
    "sessionUnread (app ex_unread) ''s9''" "\<not> sessionUnread (app ex_busy) ''s9''"
proof -
  have "obj_entries [(''w1'', l)] = [(''w1'', l)]" for l :: "session list"
    by (simp add: obj_entries_def)
  then show "toasts (app ex_unread) = [\<lparr>t_id = ''s9-'' @ dec_int 900, t_sessionId = ''s9'',
      t_workspaceId = ''w1'', t_sessionTitle = ''zsh'', t_createdAt = 900\<rparr>]"
    by (simp add: ex_unread_def fire_timer_def idle_callback_def ex_busy_eq clearTimeout_def ex_busy_app
        ex_third_eq ex_two_eq MIN_BUSY_MS_def isSessionVisibleInActiveWorkspace_def layout_of_def
        ex_closed_tree_def mark_unread_def MAX_TOASTS_def take_last_def)
      (simp add: ex_session_def)
  show "sessionUnread (app ex_unread) ''s9''"
    by (simp add: ex_unread_def fire_timer_def idle_callback_def ex_busy_eq clearTimeout_def ex_busy_app
        ex_third_eq ex_two_eq MIN_BUSY_MS_def isSessionVisibleInActiveWorkspace_def layout_of_def
        ex_closed_tree_def sessionUnread_mark)
  show "\<not> sessionUnread (app ex_busy) ''s9''"
    by (simp add: ex_busy_app ex_third_eq ex_two_eq sessionUnread_def)
qed

lemma ex_later_reachable: "reachable_world ex_rnd ex_third" "reachable_world ex_rnd ex_busy"
  "app_step ex_rnd ex_busy ex_unread" "reachable_world ex_rnd ex_unread"
proof -
  show third: "reachable_world ex_rnd ex_third"
    using ex_reachable(3) unfolding reachable_world_def ex_third_def
    by (rule reachable_step) (rule app_step.fetch_sessions)
  have "reachable_world ex_rnd w \<Longrightarrow> reachable_world ex_rnd (markSessionOutput doc now sid w)" for w doc now sid
    unfolding reachable_world_def by (rule reachable_step) (auto intro: app_step.mark_output)
  then show busy: "reachable_world ex_rnd ex_busy"
    using third by (simp add: ex_busy_def)
  show step: "app_step ex_rnd ex_busy ex_unread"
    unfolding ex_unread_def by (rule app_step.timer)
  show "reachable_world ex_rnd ex_unread"
    using busy step unfolding reachable_world_def by (rule reachable_step)
qed

text \<open>A second workspace, which becomes the active one.\<close>

definition ex_other :: world where
  "ex_other = outcome_state (createWorkspace ex_rnd (Resolved (ex_workspace\<lparr>ws_id := ''w2''\<rparr>))
     (Resolved (ex_session ''s5'')) ex_two)"

lemma ex_other_eq: "activeWorkspaceId (app ex_other) = Some ''w2''"
  "sessions (app ex_other) = [(''w1'', [ex_session ''s1'', ex_session ''s2'']), (''w2'', [ex_session ''s5''])]"
  by (simp_all add: ex_other_def createWorkspace_def createLeaf_None with_app_def ex_two_eq ex_workspace_def)

lemma ex_other_reachable: "reachable_world ex_rnd ex_other"
  using ex_reachable(3) unfolding reachable_world_def ex_other_def
  by (rule reachable_step) (rule app_step.create_workspace)

text \<open>Start-up with a saved layout.\<close>

definition ex_saved :: persisted_layouts where
  "ex_saved = [(''w1'', \<lparr>pl_layout = ex_closed_tree, pl_focused = ''leaf-1-7''\<rparr>)]"

definition ex_started :: world where
  "ex_started = outcome_state (init ex_rnd (Resolved [ex_workspace]) Rejected
     (\<lambda>_. Resolved [ex_session ''s1'', ex_session ''s2'']) Rejected ex_saved ex_one)"

lemma ex_tree_visible: "listVisibleSessionIds ex_closed_tree = [''s1'', ''s2'']"
  by (simp add: ex_closed_tree_def listVisibleSessionIds_def)

lemma ex_saved_live: "saved_live ex_saved"
  by (simp add: saved_live_def ex_saved_def panel_ok_def tree_ok_def ex_tree_visible)
    (simp add: ex_closed_tree_def leaf_ids_simps)

lemma ex_tree_prune: "fst (pruneSessionIds ex_closed_tree {''s1'', ''s2''}) = ex_closed_tree"
  by (simp add: pruneSessionIds_eq ex_closed_tree_def keep_sessions_def)

lemma ex_started_eq:
  "init ex_rnd (Resolved [ex_workspace]) Rejected (\<lambda>_. Resolved [ex_session ''s1'', ex_session ''s2''])
     Rejected ex_saved ex_one = Done ex_started"
  "workspaces (app ex_started) = [ex_workspace]"
  "sessions (app ex_started) = [(''w1'', [ex_session ''s1'', ex_session ''s2''])]"
proof -
  have r: "reconcileLayout \<lparr>pl_layout = ex_closed_tree, pl_focused = ''leaf-1-7''\<rparr> {''s1'', ''s2''} =
      Some \<lparr>pl_layout = ex_closed_tree, pl_focused = ''leaf-1-7''\<rparr>"
    by (simp add: reconcileLayout_def ex_tree_prune) (simp add: ex_closed_tree_def)
  have id: "s_id (ex_session i) = i" "ws_id ex_workspace = ''w1''" for i
    by (simp_all add: ex_session_def ex_workspace_def)
  have "\<exists>w'. init ex_rnd (Resolved [ex_workspace]) Rejected (\<lambda>_. Resolved [ex_session ''s1'', ex_session ''s2''])
     Rejected ex_saved ex_one = Done w' \<and> workspaces (app w') = [ex_workspace] \<and>
     sessions (app w') = [(''w1'', [ex_session ''s1'', ex_session ''s2''])]"
    by (simp add: init_def init_sessions_def init_active_map_def init_finish_def Let_def id
        ex_saved_def init_layout_def r ex_tree_visible)
  then show "init ex_rnd (Resolved [ex_workspace]) Rejected (\<lambda>_. Resolved [ex_session ''s1'', ex_session ''s2''])
     Rejected ex_saved ex_one = Done ex_started"
    "workspaces (app ex_started) = [ex_workspace]"
    "sessions (app ex_started) = [(''w1'', [ex_session ''s1'', ex_session ''s2''])]"
    by (auto simp: ex_started_def)
qed

lemma ex_unread_layout: "active_layout (app ex_unread) = Some (''w1'', ex_closed_tree)"
proof -
  have "active_layout (app ex_busy) = Some (''w1'', ex_closed_tree)"
    by (simp add: ex_busy_app ex_third_eq ex_two_eq active_layout_def layout_of_def)
  from active_layoutD [OF this] show ?thesis
    by (simp add: ex_unread_def fire_timer_def idle_callback_def Let_def ex_busy_eq MIN_BUSY_MS_def
        active_layout_def layout_of_def mark_unread_fields clearTimeout_def)
qed

end
