(* ===== verification/DragDrop.thy ===== *)
theory DragDrop
  imports AppExample
begin

text \<open>
  Dragging a tab onto a panel: the zone the pointer is in (\<open>frontend/src/lib/dropZone.ts\<close>) and what the
  drop does to the store (\<open>handleDragEnd\<close> of \<open>frontend/src/App.tsx\<close>). Pointer coordinates are
  rationals in place of doubles.
\<close>

datatype drop_zone = TopZone | BottomZone | LeftZone | RightZone | CenterZone

definition classifyDropZone :: "rat \<Rightarrow> rat \<Rightarrow> drop_zone" where
  "classifyDropZone x y =
     (if x \<ge> 1 / 4 \<and> x \<le> 3 / 4 \<and> y \<ge> 1 / 4 \<and> y \<le> 3 / 4 then CenterZone
      else
        let top = y; bottom = 1 - y; left = x; right = 1 - x;
            m = min (min top bottom) (min left right)
        in if m = top then TopZone
           else if m = bottom then BottomZone
           else if m = left then LeftZone
           else RightZone)"

text \<open>Only called for the four edges; the type of the argument excludes the center.\<close>

fun zoneToSplit :: "drop_zone \<Rightarrow> (split_direction \<times> split_placement) option" where
  "zoneToSplit TopZone = Some (Column, Before)"
| "zoneToSplit BottomZone = Some (Column, After)"
| "zoneToSplit LeftZone = Some (Row, Before)"
| "zoneToSplit RightZone = Some (Row, After)"
| "zoneToSplit CenterZone = None"

text \<open>
  The data \<open>@dnd-kit\<close> hands to the handler: \<open>over\<close> is \<open>None\<close> when the drop is outside every target.
\<close>

record drag_event =
  ev_type :: string
  ev_sessionId :: "string option"
  ev_over :: "(string option \<times> drop_zone option) option"

definition handleDragEnd :: "(nat \<Rightarrow> nat) \<Rightarrow> drag_event \<Rightarrow> world \<Rightarrow> world" where
  "handleDragEnd rnd ev w =
     (case ev_over ev of
        None \<Rightarrow> w
      | Some (leafIdo, zoneo) \<Rightarrow>
          if ev_type ev \<noteq> ''tab'' \<or> \<not> truthy (ev_sessionId ev) \<or> \<not> truthy leafIdo \<or> zoneo = None then w
          else
            let sid = the (ev_sessionId ev); leafId = the leafIdo; zone = the zoneo;
                toSelf = (case active_layout (app w) of
                    None \<Rightarrow> False
                  | Some (wid, layout) \<Rightarrow>
                      (case findLeafBySessionId layout sid of None \<Rightarrow> False | Some l \<Rightarrow> leaf_id l = leafId))
            in if toSelf then w
               else case zoneToSplit zone of
                      None \<Rightarrow> assignSession leafId sid w
                    | Some (d, p) \<Rightarrow>
                        (let (w1, newLeafId) = splitPanel rnd leafId d p w
                         in if truthy newLeafId then assignSession (the newLeafId) sid w1 else w1))"

section \<open>Assigning a session in closed form\<close>

lemma assignSession_eq:
  assumes "active_layout (app w) = Some (wid, t)" "panelId \<in> set (leaf_ids t)"
  shows "assignSession panelId sid w = (cancel sid w)\<lparr>app := (app w)\<lparr>
      layoutByWorkspace := obj_set wid (move_session t sid panelId) (layoutByWorkspace (app w)),
      focusedPanelByWorkspace := obj_set wid panelId (focusedPanelByWorkspace (app w)),
      activeSessionId := deriveActiveSession (Some (move_session t sid panelId)) (Some panelId),
      activeSessionByWorkspace := obj_set wid sid (activeSessionByWorkspace (app w)),
      sessionActivity := clear_unread sid (sessionActivity (app w)),
      toasts := drop_toasts sid (toasts (app w))\<rparr>\<rparr>"
proof -
  have "findLeafById t panelId \<noteq> None" using assms(2) findLeafById_None by blast
  then show ?thesis using assms(1) by (auto simp: assignSession_def Let_def move_session_def)
qed

lemma assign_layout:
  assumes "store_ok (app w)" "active_layout (app w) = Some (wid, t)" "panelId \<in> set (leaf_ids t)"
  shows "layout_of (app (assignSession panelId sid w)) wid = Some (move_session t sid panelId)"
    and "focus_of (app (assignSession panelId sid w)) wid = Some panelId"
    and "activeSessionId (app (assignSession panelId sid w)) = Some sid"
    and "map leaf_id [l \<leftarrow> listLeaves (move_session t sid panelId). leaf_session l = Some sid] = [panelId]"
proof -
  have ok: "panel_ok t" using focus_leaf [OF assms(1,2)] by blast
  then have "panelId \<noteq> []" using assms(3) by (auto simp: panel_ok_def)
  then have "deriveActiveSession (Some (move_session t sid panelId)) (Some panelId) = Some sid"
    using assms(3) by (rule derive_move)
  then show "layout_of (app (assignSession panelId sid w)) wid = Some (move_session t sid panelId)"
    "focus_of (app (assignSession panelId sid w)) wid = Some panelId"
    "activeSessionId (app (assignSession panelId sid w)) = Some sid"
    by (simp_all add: assignSession_eq [OF assms(2,3)] layout_of_def focus_of_def)
  show "map leaf_id [l \<leftarrow> listLeaves (move_session t sid panelId). leaf_session l = Some sid] = [panelId]"
    unfolding only_leaf_move [OF assms(3)]
    using tree_ok_leaf_ids [of t] ok assms(3) by (simp add: panel_ok_def leaf_ids_of_one)
qed

section \<open>A drop on an edge\<close>

lemma split_new_layout:
  assumes "store_ok (app w)" "active_layout (app w) = Some (wid, t)"
    and "listLeaves t = xs @ target # ys" "leaf_id target = panelId"
  obtains w1 t1 i j where "splitPanel rnd panelId d p w = (w1, Some i)" "active_layout (app w1) = Some (wid, t1)"
    "listLeaves t1 = xs @ pair_leaves p \<lparr>leaf_id = i, leaf_session = None\<rparr> target @ ys" "i \<noteq> []"
    "i = fst (nextPanelId rnd ''leaf'' (idCounter w))"
    "t1 = subst_node panelId (split_replacement j d p \<lparr>leaf_id = i, leaf_session = None\<rparr> target) t"
proof -
  have ok: "tree_ok t" using focus_leaf [OF assms(1,2)] by (auto simp: panel_ok_def)
  have target: "findLeafById t panelId = Some target"
    using findLeafById_mem [OF tree_ok_leaf_ids [OF ok], of target] assms(3,4) by simp
  let ?i = "fst (nextPanelId rnd ''leaf'' (idCounter w))"
  let ?s = "fst (nextPanelId rnd ''split'' (idCounter w + 1))"
  let ?t1 = "subst_node panelId (split_replacement ?s d p \<lparr>leaf_id = ?i, leaf_session = None\<rparr> target) t"
  have "\<exists>w1. splitPanel rnd panelId d p w = (w1, Some ?i) \<and> active_layout (app w1) = Some (wid, ?t1)"
    unfolding splitPanel_eq [OF assms(2) target] Let_def
    using active_layoutD [OF assms(2)] by (auto simp: active_layout_def layout_of_def)
  then show thesis
    using that [of _ ?i ?t1 ?s] split_leaves [OF ok target assms(3)] by auto
qed


lemma handleDragEnd_edge:
  assumes "active_layout (app w) = Some (wid, t)"
    and "\<And>l. findLeafBySessionId t sid = Some l \<Longrightarrow> leaf_id l \<noteq> panelId"
    and "sid \<noteq> []" "panelId \<noteq> []" "zoneToSplit zone = Some (d, p)"
    and "splitPanel rnd panelId d p w = (w1, Some n)" "n \<noteq> []"
  shows "handleDragEnd rnd \<lparr>ev_type = ''tab'', ev_sessionId = Some sid, ev_over = Some (Some panelId, Some zone)\<rparr> w =
    assignSession n sid w1"
proof (cases "findLeafBySessionId t sid")
  case None
  then show ?thesis using assms by (simp add: handleDragEnd_def)
next
  case (Some l)
  then show ?thesis using assms(1,3-) assms(2) [OF Some] by (simp add: handleDragEnd_def)
qed

lemma session_elsewhere:
  assumes "panel_ok t" "target \<in> set (listLeaves t)" "leaf_session target \<noteq> Some sid"
    and "findLeafBySessionId t sid = Some l"
  shows "leaf_id l \<noteq> leaf_id target"
proof
  assume eq: "leaf_id l = leaf_id target"
  have l: "leaf_session l = Some sid" "l \<in> set (listLeaves t)" using findLeafBySessionId_SomeD [OF assms(4)] by auto
  have "distinct (leaf_ids t)" using assms(1) tree_ok_leaf_ids by (simp add: panel_ok_def)
  from findLeafById_mem [OF this l(2)] findLeafById_mem [OF this assms(2)] have "l = target"
    unfolding eq by (metis option.inject)
  with l(1) assms(3) show False by simp
qed

lemma drop_edge_result:
  assumes "reachable_world rnd w" "fresh_split rnd w" "active_layout (app w) = Some (wid, t)"
    and "listLeaves t = xs @ target # ys" "leaf_session target \<noteq> Some sid" "sid \<noteq> []"
    and "zoneToSplit zone = Some (d, p)"
    and "w' = handleDragEnd rnd \<lparr>ev_type = ''tab'', ev_sessionId = Some sid,
        ev_over = Some (Some (leaf_id target), Some zone)\<rparr> w"
    and "dropped = (\<lambda>i j. move_session (subst_node (leaf_id target)
        (split_replacement j d p \<lparr>leaf_id = i, leaf_session = None\<rparr> target) t) sid i)"
  shows "\<exists>i j. layout_of (app w') wid = Some (dropped i j) \<and> focus_of (app w') wid = Some i \<and>
    activeSessionId (app w') = Some sid \<and>
    map leaf_id (listLeaves (dropped i j)) = map leaf_id xs @
      (case p of Before \<Rightarrow> [i, leaf_id target] | After \<Rightarrow> [leaf_id target, i]) @ map leaf_id ys \<and>
    map leaf_id [l \<leftarrow> listLeaves (dropped i j). leaf_session l = Some sid] = [i] \<and>
    target \<in> set (listLeaves (dropped i j))"
proof -
  note ok = reachable_store [OF assms(1)]
  have tree: "panel_ok t" using focus_leaf [OF ok assms(3)] by blast
  have in_t: "target \<in> set (listLeaves t)" using assms(4) by simp
  then have "leaf_id target \<in> set (leaf_ids t)" by (simp add: leaf_ids_def)
  then have id: "leaf_id target \<noteq> []" using tree by (auto simp: panel_ok_def)
  obtain w1 t1 i j where split: "splitPanel rnd (leaf_id target) d p w = (w1, Some i)"
      "active_layout (app w1) = Some (wid, t1)"
      "listLeaves t1 = xs @ pair_leaves p \<lparr>leaf_id = i, leaf_session = None\<rparr> target @ ys" "i \<noteq> []"
      "i = fst (nextPanelId rnd ''leaf'' (idCounter w))"
      "t1 = subst_node (leaf_id target) (split_replacement j d p \<lparr>leaf_id = i, leaf_session = None\<rparr> target) t"
    using split_new_layout [OF ok assms(3,4) refl] by metis
  have ok1: "store_ok (app w1)"
    using store_ok_splitPanel [OF ok assms(2), of "leaf_id target" d p] split(1) by simp
  have new: "i \<in> set (leaf_ids t1)"
    using split(3) by (cases p) (simp_all add: leaf_ids_def pair_leaves_def)
  have w': "w' = assignSession i sid w1"
    unfolding assms(8) by (rule handleDragEnd_edge [OF assms(3) session_elsewhere [OF tree in_t assms(5)] assms(6) id assms(7) split(1,4)])
  have "i \<notin> set (node_ids t)"
    using assms(2,3) split(5) by (simp add: fresh_split_def)
  moreover have "leaf_id target \<in> set (node_ids t)"
    using in_t by (simp add: set_node_ids leaf_ids_def)
  ultimately have fresh: "leaf_id target \<noteq> i" by blast
  have leaves: "listLeaves (move_session t1 sid i) =
     map (\<lambda>l. if leaf_id l = i then l\<lparr>leaf_session := Some sid\<rparr>
              else if leaf_session l = Some sid then l\<lparr>leaf_session := None\<rparr> else l) (listLeaves t1)"
    by (rule listLeaves_move)
  have ids: "map leaf_id (listLeaves (move_session t1 sid i)) = map leaf_id (listLeaves t1)"
    using leaf_ids_move [of t1 sid i] by (simp add: leaf_ids_def)
  have kept: "target \<in> set (listLeaves (move_session t1 sid i))"
    using fresh assms(5) split(3) by (cases p) (auto simp: leaves pair_leaves_def image_iff)
  have "dropped i j = move_session t1 sid i" by (simp add: assms(9) split(6))
  then have "layout_of (app w') wid = Some (dropped i j) \<and> focus_of (app w') wid = Some i \<and>
    activeSessionId (app w') = Some sid \<and>
    map leaf_id (listLeaves (dropped i j)) = map leaf_id xs @
      (case p of Before \<Rightarrow> [i, leaf_id target] | After \<Rightarrow> [leaf_id target, i]) @ map leaf_id ys \<and>
    map leaf_id [l \<leftarrow> listLeaves (dropped i j). leaf_session l = Some sid] = [i] \<and>
    target \<in> set (listLeaves (dropped i j))"
    using assign_layout [OF ok1 split(2) new, of sid] ids kept split(3) w' by (cases p) (simp_all add: pair_leaves_def)
  then show ?thesis by (intro exI)
qed

end
