(* ===== verification/PanelSpec.thy ===== *)
theory PanelSpec
  imports DragDrop
begin

text \<open>
  What the panels of a workspace promise, without trees, sizes or generated ids: a board, which is a row of slots
  that show a session or nothing, and a cursor on one of them. Every panel action of
  \<open>frontend/src/stores/appStore.ts\<close> on the active workspace refines one step of the board.
\<close>

section \<open>The abstract board\<close>

record board =
  slots :: "(string \<times> string option) list"
  cursor :: string

datatype panel_op =
    Assign string string
  | Focus string
  | Split string split_direction split_placement
  | Close string
  | ResizeTo string "rat list"
  | Show string

definition slot_ids :: "board \<Rightarrow> string list" where
  "slot_ids b = map fst (slots b)"

definition show_in :: "string \<Rightarrow> string \<Rightarrow> (string \<times> string option) list \<Rightarrow> (string \<times> string option) list" where
  "show_in p sid = map (\<lambda>(i, s). (i, if i = p then Some sid else if s = Some sid then None else s))"

definition beside :: "split_placement \<Rightarrow> string \<Rightarrow> string \<times> string option \<Rightarrow> (string \<times> string option) list" where
  "beside pl new x = (case pl of Before \<Rightarrow> [(new, None), x] | After \<Rightarrow> [x, (new, None)])"

inductive board_step :: "panel_op \<Rightarrow> board \<Rightarrow> board \<Rightarrow> bool" where
  assign: "p \<in> set (slot_ids b) \<Longrightarrow>
     board_step (Assign p sid) b \<lparr>slots = show_in p sid (slots b), cursor = p\<rparr>"
| focus: "p \<in> set (slot_ids b) \<Longrightarrow> board_step (Focus p) b (b\<lparr>cursor := p\<rparr>)"
| split: "slots b = xs @ (p, s) # ys \<Longrightarrow> new \<notin> set (slot_ids b) \<Longrightarrow>
     board_step (Split p d pl) b \<lparr>slots = xs @ beside pl new (p, s) @ ys, cursor = new\<rparr>"
| close: "p \<in> set (slot_ids b) \<Longrightarrow> slot_ids b \<noteq> [p] \<Longrightarrow> rest = filter (\<lambda>x. fst x \<noteq> p) (slots b) \<Longrightarrow>
     board_step (Close p) b \<lparr>slots = rest, cursor = (if cursor b = p then fst (hd rest) else cursor b)\<rparr>"
| close_last: "slot_ids b = [p] \<Longrightarrow> board_step (Close p) b \<lparr>slots = [(new, None)], cursor = new\<rparr>"
| resize: "board_step (ResizeTo i sz) b b"
| show_visible: "(p, Some sid) \<in> set (slots b) \<Longrightarrow> board_step (Show sid) b (b\<lparr>cursor := p\<rparr>)"
| show_hidden: "\<forall>x \<in> set (slots b). snd x \<noteq> Some sid \<Longrightarrow>
     board_step (Show sid) b \<lparr>slots = show_in (cursor b) sid (slots b), cursor = cursor b\<rparr>"
| absent: "p \<notin> set (slot_ids b) \<Longrightarrow> opn = Assign p sid \<or> opn = Focus p \<or> opn = Split p d pl \<or> opn = Close p \<Longrightarrow>
     board_step opn b b"

section \<open>Simulation\<close>

locale simulation =
  fixes cstep :: "'op \<Rightarrow> 's \<Rightarrow> 's \<Rightarrow> bool"
    and astep :: "'op \<Rightarrow> 'a \<Rightarrow> 'a \<Rightarrow> bool"
    and good :: "'s \<Rightarrow> bool"
    and view :: "'s \<Rightarrow> 'a"
  assumes good_step: "good s \<Longrightarrow> cstep opn s t \<Longrightarrow> good t"
    and simulates: "good s \<Longrightarrow> cstep opn s t \<Longrightarrow> astep opn (view s) (view t)"

fun runs :: "('op \<Rightarrow> 's \<Rightarrow> 's \<Rightarrow> bool) \<Rightarrow> 'op list \<Rightarrow> 's \<Rightarrow> 's \<Rightarrow> bool" where
  "runs step [] s t \<longleftrightarrow> t = s"
| "runs step (x # xs) s t \<longleftrightarrow> (\<exists>u. step x s u \<and> runs step xs u t)"

context simulation begin

lemma run_simulates: "good s \<Longrightarrow> runs cstep xs s t \<Longrightarrow> good t \<and> runs astep xs (view s) (view t)"
  by (induction xs arbitrary: s) (auto intro: good_step simulates)

end

text \<open>A specification with an invariant passes it on to what simulates it.\<close>

locale guarded_simulation = simulation cstep astep good view
  for cstep :: "'op \<Rightarrow> 's \<Rightarrow> 's \<Rightarrow> bool" and astep :: "'op \<Rightarrow> 'a \<Rightarrow> 'a \<Rightarrow> bool"
    and good :: "'s \<Rightarrow> bool" and view :: "'s \<Rightarrow> 'a" +
  fixes aok :: "'a \<Rightarrow> bool"
  assumes aok_step: "astep opn a b \<Longrightarrow> aok a \<Longrightarrow> aok b"
begin

lemma runs_aok: "runs astep xs a b \<Longrightarrow> aok a \<Longrightarrow> aok b"
  by (induction xs arbitrary: a) (auto intro: aok_step)

lemma run_view_aok: "good s \<Longrightarrow> aok (view s) \<Longrightarrow> runs cstep xs s t \<Longrightarrow> aok (view t)"
  using run_simulates runs_aok by blast

end

section \<open>What a board guarantees\<close>

inductive_cases board_assignE: "board_step (Assign p sid) b b'"
inductive_cases board_focusE: "board_step (Focus p) b b'"
inductive_cases board_splitE: "board_step (Split p d pl) b b'"
inductive_cases board_closeE: "board_step (Close p) b b'"
inductive_cases board_showE: "board_step (Show sid) b b'"
inductive_simps board_resize: "board_step (ResizeTo i sz) b b'"

definition board_ok :: "board \<Rightarrow> bool" where
  "board_ok b \<longleftrightarrow> distinct (slot_ids b) \<and> cursor b \<in> set (slot_ids b) \<and>
     (\<forall>p q sid. (p, Some sid) \<in> set (slots b) \<longrightarrow> (q, Some sid) \<in> set (slots b) \<longrightarrow> p = q)"

lemma slot_ids_show [simp]: "map fst (show_in p sid xs) = map fst xs"
  by (auto simp: show_in_def)

lemma show_in_rec [simp]:
  "show_in p sid [] = []"
  "show_in p sid ((i, s) # xs) = (i, if i = p then Some sid else if s = Some sid then None else s) # show_in p sid xs"
  by (simp_all add: show_in_def)

lemma in_show_in:
  "(q, Some s) \<in> set (show_in p sid xs) \<longleftrightarrow>
     (if s = sid then q = p \<and> p \<in> fst ` set xs else q \<noteq> p \<and> (q, Some s) \<in> set xs)"
proof (induction xs)
  case (Cons x xs)
  then show ?case by (cases x) (auto split: if_splits)
qed simp

lemma board_ok_show:
  "board_ok b \<Longrightarrow> p \<in> set (slot_ids b) \<Longrightarrow> board_ok \<lparr>slots = show_in p sid (slots b), cursor = p\<rparr>"
  unfolding board_ok_def slot_ids_def by (simp add: in_show_in) blast

lemma beside_cases: "beside pl new x = [(new, None), x] \<or> beside pl new x = [x, (new, None)]"
  by (cases pl) (simp_all add: beside_def)

lemma board_ok_step:
  assumes "board_step opn b b'" "board_ok b"
  shows "board_ok b'"
proof (cases opn)
  case (Assign p sid)
  then show ?thesis using assms board_ok_show by (auto elim!: board_assignE)
next
  case (Focus p)
  then show ?thesis using assms by (auto elim!: board_focusE simp: board_ok_def slot_ids_def)
next
  case (Split p d pl)
  have "board_step (Split p d pl) b b'" using assms(1) Split by simp
  then show ?thesis
  proof (rule board_splitE)
    fix xs s ys new
    assume "b' = \<lparr>slots = xs @ beside pl new (p, s) @ ys, cursor = new\<rparr>" "slots b = xs @ (p, s) # ys" "new \<notin> set (slot_ids b)"
    note b = this
    have mem: "set (beside pl new (p, s)) = {(new, None), (p, s)}" and ids: "distinct (map fst (beside pl new (p, s))) = (new \<noteq> p)"
      by (cases pl; auto simp: beside_def)+
    have "set (slots b') = insert (new, None) (set (slots b))" "cursor b' = new"
      unfolding b(1,2) by (auto simp: mem)
    moreover have "distinct (slot_ids b')"
      using assms(2) b(3) unfolding board_ok_def slot_ids_def b(1,2) by (auto simp: mem ids)
    moreover have "\<forall>p q sid. (p, Some sid) \<in> set (slots b) \<longrightarrow> (q, Some sid) \<in> set (slots b) \<longrightarrow> p = q"
      using assms(2) unfolding board_ok_def by blast
    ultimately show ?thesis unfolding board_ok_def by (simp add: slot_ids_def)
  qed (use assms(2) in simp_all)
next
  case (Close p)
  have "board_step (Close p) b b'" using assms(1) Close by simp
  then show ?thesis
  proof (rule board_closeE)
    let ?rest = "filter (\<lambda>x. fst x \<noteq> p) (slots b)"
    assume 1: "b' = \<lparr>slots = ?rest, cursor = if cursor b = p then fst (hd ?rest) else cursor b\<rparr>"
      "p \<in> set (slot_ids b)" "slot_ids b \<noteq> [p]"
    have "\<exists>q \<in> set (slot_ids b). q \<noteq> p"
      using 1(2,3) assms(2) unfolding board_ok_def by (cases "slot_ids b" rule: remdups_adj.cases) auto
    then have "?rest \<noteq> []" by (auto simp: slot_ids_def filter_empty_conv)
    then have "fst (hd ?rest) \<in> fst ` set ?rest" by (intro imageI hd_in_set)
    moreover have "distinct (map fst ?rest)" using assms(2) by (simp add: board_ok_def slot_ids_def distinct_map_filter)
    ultimately show ?thesis
      using assms(2) 1 unfolding board_ok_def slot_ids_def by (auto intro: rev_image_eqI)
  qed (use assms(2) in \<open>simp_all add: board_ok_def slot_ids_def\<close>)
next
  case (ResizeTo i sz)
  then show ?thesis using assms by (auto simp: board_resize)
next
  case (Show sid)
  have "board_step (Show sid) b b'" using assms(1) Show by simp
  then show ?thesis
  proof (rule board_showE)
    show "board_ok b'" if "b' = b\<lparr>cursor := p\<rparr>" "(p, Some sid) \<in> set (slots b)" for p
      using assms(2) that by (auto simp: board_ok_def slot_ids_def intro: rev_image_eqI)
    show "board_ok b'" if "b' = \<lparr>slots = show_in (cursor b) sid (slots b), cursor = cursor b\<rparr>"
      unfolding that using assms(2) by (intro board_ok_show) (simp_all add: board_ok_def)
  qed (use assms(2) in simp_all)
qed

text \<open>Apart from the ids of new slots the board leaves no choice.\<close>

lemma board_determined:
  assumes "board_ok b" "board_step opn b b1" "board_step opn b b2"
    and "\<forall>p d pl. opn \<noteq> Split p d pl" "\<forall>p. opn = Close p \<longrightarrow> slot_ids b \<noteq> [p]"
  shows "b1 = b2"
proof (cases opn)
  case (Assign p sid)
  then show ?thesis using assms(2,3) by (auto elim!: board_assignE)
next
  case (Focus p)
  then show ?thesis using assms(2,3) by (auto elim!: board_focusE)
next
  case (Split p d pl)
  then show ?thesis using assms(4) by simp
next
  case (Close p)
  then show ?thesis using assms(2,3,5) by (auto elim!: board_closeE)
next
  case (ResizeTo i sz)
  then show ?thesis using assms(2,3) by (auto simp: board_resize)
next
  case (Show sid)
  have "p = q" if "(p, Some sid) \<in> set (slots b)" "(q, Some sid) \<in> set (slots b)" for p q
    using assms(1) that by (auto simp: board_ok_def)
  moreover have "board_step (Show sid) b b1" "board_step (Show sid) b b2" using assms(2,3) Show by simp_all
  ultimately show ?thesis by (elim board_showE) auto
qed

section \<open>The panel actions of the store\<close>

definition do_op :: "(nat \<Rightarrow> nat) \<Rightarrow> panel_op \<Rightarrow> world \<Rightarrow> world" where
  "do_op rnd opn w =
     (case opn of
        Assign p sid \<Rightarrow> assignSession p sid w
      | Focus p \<Rightarrow> focusPanel p w
      | Split p d pl \<Rightarrow> fst (splitPanel rnd p d pl w)
      | Close p \<Rightarrow> (case closePanel_call p w of None \<Rightarrow> w
          | Some sido \<Rightarrow> outcome_state (closePanel_finish rnd p sido w))
      | ResizeTo i sz \<Rightarrow> resizeSplit i sz w
      | Show sid \<Rightarrow> outcome_state (setActiveSession sid w))"

definition op_step :: "(nat \<Rightarrow> nat) \<Rightarrow> panel_op \<Rightarrow> world \<Rightarrow> world \<Rightarrow> bool" where
  "op_step rnd opn w w' \<longleftrightarrow> w' = do_op rnd opn w \<and> ((\<exists>p d pl. opn = Split p d pl) \<longrightarrow> fresh_split rnd w)"

definition board_of :: "app_state \<Rightarrow> board" where
  "board_of s =
     (case active_layout s of
        None \<Rightarrow> \<lparr>slots = [], cursor = []\<rparr>
      | Some (wid, t) \<Rightarrow> \<lparr>slots = map (\<lambda>l. (leaf_id l, leaf_session l)) (listLeaves t), cursor = the (focus_of s wid)\<rparr>)"

definition op_ready :: "(nat \<Rightarrow> nat) \<Rightarrow> world \<Rightarrow> bool" where
  "op_ready rnd w \<longleftrightarrow> reachable_world rnd w \<and> active_layout (app w) \<noteq> None"

definition displays :: "world \<Rightarrow> string \<Rightarrow> panel_node \<Rightarrow> string \<Rightarrow> bool" where
  "displays w wid t f \<longleftrightarrow> active_layout (app w) = Some (wid, t) \<and> focus_of (app w) wid = Some f"

lemma board_eq:
  "displays w wid t f \<Longrightarrow> board_of (app w) = \<lparr>slots = map (\<lambda>l. (leaf_id l, leaf_session l)) (listLeaves t), cursor = f\<rparr>"
  by (simp add: displays_def board_of_def)

lemma slot_ids_eq: "displays w wid t f \<Longrightarrow> slot_ids (board_of (app w)) = leaf_ids t"
  by (simp add: board_eq slot_ids_def leaf_ids_def)

lemma show_in_eq:
  "map (\<lambda>l. (leaf_id l, leaf_session l)) (listLeaves (move_session t sid p)) =
   show_in p sid (map (\<lambda>l. (leaf_id l, leaf_session l)) (listLeaves t))"
  by (simp add: listLeaves_move show_in_def)

lemma ready_displays:
  assumes "op_ready rnd w"
  obtains wid t f where "displays w wid t f" "panel_ok t" "f \<in> set (leaf_ids t)" "store_ok (app w)"
proof -
  obtain wid t where al: "active_layout (app w) = Some (wid, t)" using assms by (auto simp: op_ready_def)
  have ok: "store_ok (app w)" using assms reachable_store by (auto simp: op_ready_def)
  obtain f l where f: "focus_of (app w) wid = Some f" "findLeafById t f = Some l" "panel_ok t"
    using focus_leaf [OF ok al] by blast
  have "f \<in> set (leaf_ids t)" using f(2) findLeafById_None [of t f] by auto
  moreover have "displays w wid t f" using al f(1) by (simp add: displays_def)
  ultimately show thesis by (intro that [OF _ f(3) _ ok])
qed

lemma displays_update:
  assumes "displays w wid t f" "activeWorkspaceId (app w') = activeWorkspaceId (app w)"
    "layoutByWorkspace (app w') = obj_set wid t' (layoutByWorkspace (app w))"
    "focusedPanelByWorkspace (app w') = obj_set wid f' (focusedPanelByWorkspace (app w))"
  shows "displays w' wid t' f'"
proof -
  have "activeWorkspaceId (app w) = Some wid" "wid \<noteq> []"
    using assms(1) active_layoutD by (auto simp: displays_def)
  then show ?thesis by (simp add: displays_def active_layout_def layout_of_def focus_of_def assms(2-4))
qed

section \<open>Every action refines a step\<close>

lemma assign_refines:
  assumes "displays w wid t f" "p \<in> set (leaf_ids t)"
  shows "displays (assignSession p sid w) wid (move_session t sid p) p"
  using assms by (intro displays_update [OF assms(1)]) (simp_all add: displays_def assignSession_eq)

lemma focusPanel_layouts:
  assumes "active_layout (app w) = Some (wid, t)" "focus_of (app w) wid \<noteq> Some p" "findLeafById t p \<noteq> None"
  shows "activeWorkspaceId (app (focusPanel p w)) = activeWorkspaceId (app w)"
    "layoutByWorkspace (app (focusPanel p w)) = layoutByWorkspace (app w)"
    "focusedPanelByWorkspace (app (focusPanel p w)) = obj_set wid p (focusedPanelByWorkspace (app w))"
  using assms by (cases "findLeafById t p"; simp add: focusPanel_def Let_def)+

lemma focus_refines:
  assumes "displays w wid t f" "p \<in> set (leaf_ids t)"
  shows "displays (focusPanel p w) wid t p"
proof (cases "f = p")
  case True
  then have "focusPanel p w = w" using assms by (simp add: displays_def focusPanel_def Let_def)
  then show ?thesis using assms(1) True by simp
next
  case False
  have al: "active_layout (app w) = Some (wid, t)" "focus_of (app w) wid \<noteq> Some p" "findLeafById t p \<noteq> None"
    using assms False findLeafById_None [of t p] by (auto simp: displays_def)
  show ?thesis
    using al(1) focusPanel_layouts [OF al] active_layoutD [OF al(1)]
    by (simp add: displays_def active_layout_def layout_of_def focus_of_def)
qed

lemma setActiveSession_hidden:
  assumes "store_ok (app w)" "active_layout (app w) = Some (wid, t)" "focus_of (app w) wid = Some f"
    and "sid \<notin> set (listVisibleSessionIds t)"
  shows "focus_of (app (outcome_state (setActiveSession sid w))) wid = Some f"
proof -
  obtain l where l: "findLeafById t f = Some l" "f \<noteq> []" using focus_leaf [OF assms(1,2)] assms(3) by auto
  have "leaf_id l = f" using findLeafById_SomeD [OF l(1)] by simp
  moreover have "layout_of (app w) wid = Some t" "activeWorkspaceId (app w) = Some wid" "wid \<noteq> []"
    using active_layoutD [OF assms(2)] by (auto simp: layout_of_def)
  moreover have "findLeafBySessionId t sid = None" using assms(4) findLeafBySessionId_None by blast
  ultimately show ?thesis
    using l assms(3) by (simp add: setActiveSession_def Let_def focus_of_def)
qed

lemma show_refines:
  assumes "store_ok (app w)" "displays w wid t f"
  shows "\<exists>p. (p, Some sid) \<in> set (slots (board_of (app w))) \<and>
      displays (outcome_state (setActiveSession sid w)) wid t p \<or>
    sid \<notin> set (listVisibleSessionIds t) \<and>
      displays (outcome_state (setActiveSession sid w)) wid (move_session t sid f) f"
proof -
  have al: "active_layout (app w) = Some (wid, t)" and f: "focus_of (app w) wid = Some f"
    using assms(2) by (auto simp: displays_def)
  obtain t' p where eq: "setActiveSession sid w = Done ((cancel sid w)\<lparr>app := (app w)\<lparr>
        activeSessionId := Some sid,
        activeSessionByWorkspace := obj_set wid sid (activeSessionByWorkspace (app w)),
        layoutByWorkspace := obj_set wid t' (layoutByWorkspace (app w)),
        focusedPanelByWorkspace := obj_set wid p (focusedPanelByWorkspace (app w)),
        sessionActivity := clear_unread sid (sessionActivity (app w)),
        toasts := drop_toasts sid (toasts (app w))\<rparr>\<rparr>)"
    and t': "deriveActiveSession (Some t') (Some p) = Some sid"
      "t' = (if sid \<in> set (listVisibleSessionIds t) then t else move_session t sid p)"
    using setActiveSession_layout [OF assms(1) al, of sid] by blast
  have after: "displays (outcome_state (setActiveSession sid w)) wid t' p"
    by (rule displays_update [OF assms(2)]) (simp_all add: eq)
  show ?thesis
  proof (cases "sid \<in> set (listVisibleSessionIds t)")
    case True
    then obtain l where l: "findLeafById t p = Some l" "leaf_session l = Some sid"
      using t' by (auto simp: deriveActiveSession_def split: if_splits option.splits)
    then have "(p, Some sid) \<in> set (slots (board_of (app w)))"
      using findLeafById_SomeD [OF l(1)] by (force simp: board_eq [OF assms(2)])
    then show ?thesis using after True t'(2) by auto
  next
    case False
    have "p = f"
      using setActiveSession_hidden [OF assms(1) al f False] by (simp add: eq focus_of_def)
    then show ?thesis using after False t'(2) by simp
  qed
qed

lemma close_focused:
  assumes "active_layout (app w) = Some (wid, t)" "focus_of (app w) wid = Some p" "removeLeaf t p = Some r"
    and "closePanel_set rnd p sido w = Done w'"
  shows "focus_of (app w') wid = map_option leaf_id (firstLeaf r)"
  using assms by (auto simp: closePanel_set_def Let_def focus_of_def split: option.splits)

lemma close_refines:
  assumes "store_ok (app w)" "displays w wid t f" "p \<in> set (leaf_ids t)"
  shows "if leaf_ids t = [p] then \<exists>i. displays (do_op rnd (Close p) w) wid (PLeaf \<lparr>leaf_id = i, leaf_session = None\<rparr>) i
     else \<exists>t'. listLeaves t' = [l \<leftarrow> listLeaves t. leaf_id l \<noteq> p] \<and>
       displays (do_op rnd (Close p) w) wid t' (if f = p then leaf_id (hd (listLeaves t')) else f)"
proof -
  have al: "active_layout (app w) = Some (wid, t)" and f: "focus_of (app w) wid = Some f"
    using assms(2) by (auto simp: displays_def)
  obtain l where l: "findLeafById t p = Some l" using assms(3) findLeafById_None [of t p] by auto
  define v where "v = (if truthy (leaf_session l) then cancel (the (leaf_session l)) w else w)"
  have v: "app v = app w" by (simp add: v_def)
  obtain t' g w' where set: "closePanel_set rnd p (leaf_session l) v = Done w'" "panel_ok t'" "g \<in> set (leaf_ids t')"
      "removeLeaf t p = None \<longrightarrow> (\<exists>i. t' = PLeaf \<lparr>leaf_id = i, leaf_session = None\<rparr>)"
      "\<forall>r. removeLeaf t p = Some r \<longrightarrow> t' = r"
      "\<forall>f0. focus_of (app v) wid = Some f0 \<longrightarrow> f0 \<noteq> p \<longrightarrow> removeLeaf t p \<noteq> None \<longrightarrow> g = f0"
      "layoutByWorkspace (app w') = obj_set wid t' (layoutByWorkspace (app v))"
      "focusedPanelByWorkspace (app w') = obj_set wid g (focusedPanelByWorkspace (app v))"
      "activeWorkspaceId (app w') = Some wid"
    using closePanel_set_layout [of v wid t rnd p "leaf_session l", unfolded v, OF assms(1) al]
    unfolding v [symmetric] by (elim exE conjE) (rule that; assumption)
  have "do_op rnd (Close p) w = w'"
    using set(1) by (simp add: do_op_def closePanel_call_def al l closePanel_finish_def flip: v_def)
  then have after: "displays (do_op rnd (Close p) w) wid t' g"
    using active_layoutD [OF al] by (intro displays_update [OF assms(2)]) (simp_all add: set(7-9) v)
  have t: "distinct (leaf_ids t)" "arity_ok t"
    using focus_leaf [OF assms(1) al] by (auto simp: panel_ok_def tree_ok_def tree_ok_leaf_ids)
  have none: "removeLeaf t p = None \<longleftrightarrow> leaf_ids t = [p]"
    unfolding removeLeaf_None using leaf_ids_all [OF t] .
  show ?thesis
  proof (cases "removeLeaf t p")
    case None
    then obtain i where "t' = PLeaf \<lparr>leaf_id = i, leaf_session = None\<rparr>" using set(4) by blast
    then show ?thesis using after none None set(3) by (auto simp: leaf_ids_def)
  next
    case (Some r)
    then have r: "t' = r" "listLeaves r = [l \<leftarrow> listLeaves t. leaf_id l \<noteq> p]" "arity_ok r"
      using set(5) removeLeaf_Some_leaves removeLeaf_normal by auto
    have "g = (if f = p then leaf_id (hd (listLeaves r)) else f)"
    proof (cases "f = p")
      case True
      have "focus_of (app w') wid = map_option leaf_id (firstLeaf r)"
        using close_focused [of v wid t p r rnd "leaf_session l" w'] al f True Some set(1) by (simp add: v)
      then show ?thesis using True firstLeaf_hd [OF r(3)] by (simp add: set(8) focus_of_def)
    next
      case False
      then show ?thesis using set(6) f Some by (simp add: v)
    qed
    then have "displays (do_op rnd (Close p) w) wid r (if f = p then leaf_id (hd (listLeaves r)) else f)"
      using after r(1) by simp
    then show ?thesis using none Some r(2) by auto
  qed
qed

lemma split_refines:
  assumes "store_ok (app w)" "fresh_split rnd w" "displays w wid t f" "findLeafById t p = Some target"
    and "listLeaves t = xs @ target # ys"
  shows "\<exists>t' new. new \<notin> set (leaf_ids t) \<and> displays (do_op rnd (Split p d pl) w) wid t' new \<and>
    listLeaves t' = xs @ pair_leaves pl \<lparr>leaf_id = new, leaf_session = None\<rparr> target @ ys"
proof -
  have al: "active_layout (app w) = Some (wid, t)" using assms(3) by (simp add: displays_def)
  have ok: "tree_ok t" using focus_leaf [OF assms(1) al] by (auto simp: panel_ok_def)
  let ?new = "fst (nextPanelId rnd ''leaf'' (idCounter w))"
  let ?s = "fst (nextPanelId rnd ''split'' (idCounter w + 1))"
  let ?t' = "subst_node p (split_replacement ?s d pl \<lparr>leaf_id = ?new, leaf_session = None\<rparr> target) t"
  have "?new \<notin> set (node_ids t)" using assms(2) by (simp add: fresh_split_def al)
  then have "?new \<notin> set (leaf_ids t)" by (simp add: set_node_ids)
  moreover have "displays (do_op rnd (Split p d pl) w) wid ?t' ?new"
    by (rule displays_update [OF assms(3)]) (simp_all add: do_op_def splitPanel_eq [OF al assms(4)] Let_def)
  ultimately show ?thesis using split_leaves [OF ok assms(4,5)] by blast
qed

lemma resize_refines:
  assumes "displays w wid t f"
  shows "displays (resizeSplit i sz w) wid (resize i sz t) f"
proof -
  have al: "active_layout (app w) = Some (wid, t)" using assms by (simp add: displays_def)
  show ?thesis
  proof (cases "resize i sz t = t")
    case True
    then show ?thesis using assms al by (simp add: resizeSplit_def setSplitSizes_eq Let_def)
  next
    case False
    then show ?thesis
      using assms active_layoutD [OF al]
      by (simp add: displays_def resizeSplit_def setSplitSizes_eq active_layout_def layout_of_def focus_of_def Let_def)
  qed
qed

text \<open>An operation on a panel that is not there changes nothing the board shows.\<close>

lemma absent_refines:
  assumes "displays w wid t f" "p \<notin> set (leaf_ids t)"
    and "opn = Assign p sid \<or> opn = Focus p \<or> opn = Split p d pl \<or> opn = Close p"
  shows "app (do_op rnd opn w) = app w"
proof -
  have al: "active_layout (app w) = Some (wid, t)" and f: "focus_of (app w) wid = Some f"
    using assms(1) by (auto simp: displays_def)
  have none: "findLeafById t p = None" using assms(2) findLeafById_None by blast
  show ?thesis
    using assms(3) al f none
    by (auto simp: do_op_def assignSession_def focusPanel_def splitPanel_def splitLeaf_None closePanel_call_def Let_def)
qed

abbreviation slot_of :: "panel_leaf \<Rightarrow> string \<times> string option" where
  "slot_of l \<equiv> (leaf_id l, leaf_session l)"

lemma slots_filter: "map slot_of [l \<leftarrow> ls. leaf_id l \<noteq> p] = filter (\<lambda>x. fst x \<noteq> p) (map slot_of ls)"
  by (simp add: filter_map o_def)

lemma op_result:
  assumes "store_ok (app w)" "displays w wid t f" "(\<exists>p d pl. opn = Split p d pl) \<longrightarrow> fresh_split rnd w"
  shows "\<exists>t' f'. displays (do_op rnd opn w) wid t' f' \<and>
    board_step opn (board_of (app w)) (board_of (app (do_op rnd opn w)))"
proof -
  note board = board_eq [OF assms(2)] and ids = slot_ids_eq [OF assms(2), unfolded board_eq [OF assms(2)]]
  have keep: ?thesis if "app (do_op rnd opn w) = app w" "board_step opn (board_of (app w)) (board_of (app w))"
    using that assms(2) by (auto simp: displays_def)
  have absent: ?thesis if "p \<notin> set (leaf_ids t)"
    "opn = Assign p sid \<or> opn = Focus p \<or> opn = Split p d pl \<or> opn = Close p" for p sid d pl
    using keep [OF absent_refines [OF assms(2) that]] board_step.absent [of p "board_of (app w)" opn sid d pl] that
    by (simp add: board ids)
  have next_board: ?thesis if "displays (do_op rnd opn w) wid t' f'"
    "board_step opn (board_of (app w)) \<lparr>slots = map slot_of (listLeaves t'), cursor = f'\<rparr>" for t' f'
    using that board_eq [OF that(1)] by auto
  show ?thesis
  proof (cases opn)
    case (Assign p sid)
    show ?thesis
    proof (cases "p \<in> set (leaf_ids t)")
      case True
      show ?thesis
        by (rule next_board [of "move_session t sid p" p])
          (use assign_refines [OF assms(2) True, of sid] board_step.assign [of p "board_of (app w)" sid] True in
            \<open>simp_all add: Assign do_op_def show_in_eq ids board\<close>)
    qed (use absent Assign in blast)
  next
    case (Focus p)
    show ?thesis
    proof (cases "p \<in> set (leaf_ids t)")
      case True
      show ?thesis
        by (rule next_board [of t p])
          (use focus_refines [OF assms(2) True] board_step.focus [of p "board_of (app w)"] True in
            \<open>simp_all add: Focus do_op_def ids board\<close>)
    qed (use absent Focus in blast)
  next
    case (Split p d pl)
    show ?thesis
    proof (cases "findLeafById t p")
      case None
      then show ?thesis using absent [of p] Split by (auto simp: findLeafById_None)
    next
      case (Some target)
      then obtain xs ys where xs: "listLeaves t = xs @ target # ys" "leaf_id target = p"
        using findLeafById_SomeD by (metis split_list)
      obtain t' new where new: "new \<notin> set (leaf_ids t)" "displays (do_op rnd opn w) wid t' new"
          "listLeaves t' = xs @ pair_leaves pl \<lparr>leaf_id = new, leaf_session = None\<rparr> target @ ys"
        using split_refines [OF assms(1) _ assms(2) Some xs(1), of rnd d pl] assms(3) Split by auto
      have "map slot_of (pair_leaves pl \<lparr>leaf_id = new, leaf_session = None\<rparr> target) = beside pl new (p, leaf_session target)"
        by (cases pl) (simp_all add: pair_leaves_def beside_def xs(2))
      moreover have "slots (board_of (app w)) = map slot_of xs @ (p, leaf_session target) # map slot_of ys"
        by (simp add: board xs)
      then have "board_step (Split p d pl) (board_of (app w))
          \<lparr>slots = map slot_of xs @ beside pl new (p, leaf_session target) @ map slot_of ys, cursor = new\<rparr>"
        using new(1) slot_ids_eq [OF assms(2)] by (intro board_step.split) simp_all
      ultimately show ?thesis by (intro next_board [OF new(2)]) (simp add: new(3) Split)
    qed
  next
    case (Close p)
    show ?thesis
    proof (cases "p \<in> set (leaf_ids t)")
      case True
      show ?thesis
      proof (cases "leaf_ids t = [p]")
        case one: True
        then obtain i where "displays (do_op rnd opn w) wid (PLeaf \<lparr>leaf_id = i, leaf_session = None\<rparr>) i"
          using close_refines [OF assms(1,2) True, of rnd] Close by auto
        then show ?thesis
          by (rule next_board) (use board_step.close_last [of "board_of (app w)" p i] one in \<open>simp add: Close board ids\<close>)
      next
        case False
        obtain t' where t': "listLeaves t' = [l \<leftarrow> listLeaves t. leaf_id l \<noteq> p]"
            "displays (do_op rnd opn w) wid t' (if f = p then leaf_id (hd (listLeaves t')) else f)"
          using close_refines [OF assms(1,2) True, of rnd] False Close by auto
        have "listLeaves t' \<noteq> []"
        proof -
          have "distinct (leaf_ids t)"
            using focus_leaf [OF assms(1)] assms(2) by (auto simp: displays_def panel_ok_def tree_ok_leaf_ids)
          then have "\<exists>l \<in> set (listLeaves t). leaf_id l \<noteq> p"
            using False True by (cases "listLeaves t"; cases "tl (listLeaves t)") (auto simp: leaf_ids_def)
          then show ?thesis by (auto simp: t'(1) filter_empty_conv)
        qed
        then have hd: "leaf_id (hd (listLeaves t')) = fst (hd (map slot_of (listLeaves t')))" by (simp add: hd_map)
        have "map slot_of (listLeaves t') = filter (\<lambda>x. fst x \<noteq> p) (slots (board_of (app w)))"
          unfolding t'(1) slots_filter by (simp add: board)
        then have "board_step (Close p) (board_of (app w)) \<lparr>slots = map slot_of (listLeaves t'),
            cursor = (if cursor (board_of (app w)) = p then fst (hd (map slot_of (listLeaves t')))
              else cursor (board_of (app w)))\<rparr>"
          using True False slot_ids_eq [OF assms(2)] by (intro board_step.close) simp_all
        moreover have cur: "cursor (board_of (app w)) = f" by (simp add: board)
        ultimately show ?thesis unfolding cur by (intro next_board [OF t'(2)]) (simp only: Close hd)
      qed
    qed (use absent Close in blast)
  next
    case (ResizeTo i sz)
    have "board_of (app w) = \<lparr>slots = map slot_of (listLeaves (resize i sz t)), cursor = f\<rparr>" by (simp add: board)
    then show ?thesis
      using resize_refines [OF assms(2), of i sz] board_step.resize [of i sz "board_of (app w)"]
      by (intro next_board [of "resize i sz t" f]) (simp_all add: ResizeTo do_op_def)
  next
    case (Show sid)
    consider (seen) p where "(p, Some sid) \<in> set (slots (board_of (app w)))" "displays (do_op rnd opn w) wid t p"
      | (unseen) "sid \<notin> set (listVisibleSessionIds t)" "displays (do_op rnd opn w) wid (move_session t sid f) f"
      using show_refines [OF assms(1,2), of sid] by (auto simp: Show do_op_def)
    then show ?thesis
    proof cases
      case seen
      show ?thesis
        by (rule next_board [OF seen(2)])
          (use board_step.show_visible [OF seen(1)] in \<open>simp add: Show board\<close>)
    next
      case unseen
      have "\<forall>x \<in> set (slots (board_of (app w))). snd x \<noteq> Some sid"
        using unseen(1) by (auto simp: board set_listVisibleSessionIds)
      from board_step.show_hidden [OF this] show ?thesis
        by (intro next_board [OF unseen(2)]) (simp add: Show board show_in_eq)
    qed
  qed
qed

lemma op_is_step: "op_step rnd opn w w' \<Longrightarrow> app_step rnd w w' \<or> w' = w"
  by (cases opn)
    (auto simp: op_step_def do_op_def intro: app_step.assign app_step.focus app_step.split app_step.close
      app_step.resize app_step.set_active_session split: option.split)

interpretation panels: simulation "op_step rnd" board_step "op_ready rnd" "\<lambda>w. board_of (app w)" for rnd
proof unfold_locales
  fix opn and s t :: world
  assume ready: "op_ready rnd s" and step: "op_step rnd opn s t"
  obtain wid u f where s: "displays s wid u f" "store_ok (app s)" by (rule ready_displays [OF ready])
  have t: "t = do_op rnd opn s" "(\<exists>p d pl. opn = Split p d pl) \<longrightarrow> fresh_split rnd s"
    using step by (auto simp: op_step_def)
  note result = op_result [OF s(2,1) t(2), folded t(1)]
  then show "board_step opn (board_of (app s)) (board_of (app t))" by blast
  have "reachable_world rnd t"
    using op_is_step [OF step] ready reachable_step [of start_world "app_step rnd" s t]
    by (auto simp: op_ready_def reachable_world_def)
  then show "op_ready rnd t" using result by (auto simp: op_ready_def displays_def)
qed

text \<open>The slot under the cursor is the session the store calls active.\<close>

lemma board_active:
  assumes "op_ready rnd w"
  shows "map_of (slots (board_of (app w))) (cursor (board_of (app w))) = Some (activeSessionId (app w))"
proof -
  obtain wid t f where s: "displays w wid t f" "panel_ok t" "store_ok (app w)" by (rule ready_displays [OF assms])
  obtain l where l: "findLeafById t f = Some l" "activeSessionId (app w) = leaf_session l"
    using focus_leaf [OF s(3)] s(1) by (auto simp: displays_def)
  have "distinct (map fst (map slot_of (listLeaves t)))"
    using s(2) tree_ok_leaf_ids by (auto simp: panel_ok_def leaf_ids_def comp_def)
  moreover have "(f, leaf_session l) \<in> set (map slot_of (listLeaves t))"
    using findLeafById_SomeD [OF l(1)] by force
  ultimately show ?thesis by (simp add: board_eq [OF s(1)] l(2))
qed

text \<open>A board that an action of the store shows is in order, and the only one the action may lead to.\<close>

lemma ready_board_ok:
  assumes "op_ready rnd w"
  shows "board_ok (board_of (app w))"
proof -
  obtain wid t f where s: "displays w wid t f" "panel_ok t" "f \<in> set (leaf_ids t)" by (rule ready_displays [OF assms])
  have ids: "slot_ids (board_of (app w)) = leaf_ids t" by (rule slot_ids_eq [OF s(1)])
  have "distinct (leaf_ids t)" "distinct (List.map_filter leaf_session (listLeaves t))"
    using s(2) tree_ok_leaf_ids by (auto simp: panel_ok_def tree_ok_def visible_eq)
  then show ?thesis
    unfolding board_ok_def ids using s(3) map_filter_inj [of leaf_session "listLeaves t"]
    by (auto simp: board_eq [OF s(1)]) (metis)
qed

interpretation boards: guarded_simulation "op_step rnd" board_step "op_ready rnd" "\<lambda>w. board_of (app w)" board_ok for rnd
  by unfold_locales (rule board_ok_step)

lemma board_decides:
  assumes "op_ready rnd w" "op_step rnd opn w w'" "board_step opn (board_of (app w)) b"
    and "\<forall>p d pl. opn \<noteq> Split p d pl" "\<forall>p. opn = Close p \<longrightarrow> slot_ids (board_of (app w)) \<noteq> [p]"
  shows "b = board_of (app w')"
  using board_determined [OF ready_board_ok [OF assms(1)] assms(3) panels.simulates [OF assms(1,2)] assms(4,5)] .

end
