(* ===== verification/ApiClient.thy ===== *)
theory ApiClient
  imports PanelPersistence
begin

text \<open>
  \<open>frontend/src/api/client.ts\<close> and \<open>frontend/src/api/upload.ts\<close>: the requests the front end makes of
  the server and what it makes of the replies. The server is outside the model: a call is the request it
  sends and a function of the reply. The reply's body is the JSON value it parses to.
\<close>

section \<open>Replies\<close>

text \<open>
  What \<open>fetch\<close> settles with: a rejection (no network), or a response with its status and its body,
  which is \<open>None\<close> when \<open>res.json()\<close> rejects. \<open>res.ok\<close> is the status range 200 to 299.
\<close>

datatype fetch_result = NetworkError | Response (res_status: nat) (res_body: "json option")

definition res_ok :: "fetch_result \<Rightarrow> bool" where
  "res_ok r = (case r of NetworkError \<Rightarrow> False | Response st body \<Rightarrow> 200 \<le> st \<and> st \<le> 299)"

section \<open>Requests\<close>

datatype http_method = GET | POST | PATCH | DELETE

record api_call =
  call_path :: string
  call_method :: http_method
  call_body :: "json option"

definition BASE :: string where "BASE = ''/api/v1''"

text \<open>\<open>request\<close>: the value the promise resolves with, \<open>None\<close> when it rejects.\<close>

definition request :: "fetch_result \<Rightarrow> json option" where
  "request res = (case res of NetworkError \<Rightarrow> None | Response st body \<Rightarrow> body)"

definition get_call :: "string \<Rightarrow> api_call" where
  "get_call path = \<lparr>call_path = BASE @ path, call_method = GET, call_body = None\<rparr>"

definition listWorkspaces_call :: api_call where
  "listWorkspaces_call = get_call ''/workspaces''"

definition createWorkspace_call :: "string \<Rightarrow> api_call" where
  "createWorkspace_call n = (get_call ''/workspaces'')
     \<lparr>call_method := POST, call_body := Some (JObject [(''name'', JString n)])\<rparr>"

definition updateWorkspace_call :: "string \<Rightarrow> string \<Rightarrow> api_call" where
  "updateWorkspace_call i n = (get_call (''/workspaces/'' @ i))
     \<lparr>call_method := PATCH, call_body := Some (JObject [(''name'', JString n)])\<rparr>"

definition deleteWorkspace_call :: "string \<Rightarrow> api_call" where
  "deleteWorkspace_call i = (get_call (''/workspaces/'' @ i))\<lparr>call_method := DELETE\<rparr>"

definition listSessions_call :: "string \<Rightarrow> api_call" where
  "listSessions_call w = get_call (''/workspaces/'' @ w @ ''/sessions'')"

text \<open>\<open>title || 'Terminal'\<close>\<close>

definition createSession_call :: "string \<Rightarrow> string option \<Rightarrow> api_call" where
  "createSession_call w title = (get_call (''/workspaces/'' @ w @ ''/sessions''))
     \<lparr>call_method := POST,
      call_body := Some (JObject [(''title'', JString (if truthy title then the title else ''Terminal''))])\<rparr>"

definition updateSession_call :: "string \<Rightarrow> string \<Rightarrow> api_call" where
  "updateSession_call i title = (get_call (''/sessions/'' @ i))
     \<lparr>call_method := PATCH, call_body := Some (JObject [(''title'', JString title)])\<rparr>"

definition deleteSession_call :: "string \<Rightarrow> api_call" where
  "deleteSession_call i = (get_call (''/sessions/'' @ i))\<lparr>call_method := DELETE\<rparr>"

section \<open>Uploading a file\<close>

text \<open>
  The result is an error message or the parsed reply. A rejected \<open>fetch\<close> or an unreadable body of
  a good reply rejects with an error of the browser, whose message is the parameter \<open>native\<close>.
\<close>

definition upload_detail :: "nat \<Rightarrow> json option \<Rightarrow> string" where
  "upload_detail st body =
     (case body of
        None \<Rightarrow> dec st
      | Some data \<Rightarrow>
          if json_truthy data \<and> is_string (jprop data ''error'')
          then json_string (jprop data ''error'') @ '' ('' @ dec st @ '')'' else dec st)"

definition uploadFile :: "string \<Rightarrow> fetch_result \<Rightarrow> string + json" where
  "uploadFile native res =
     (case res of
        NetworkError \<Rightarrow> Inl native
      | Response st body \<Rightarrow>
          if \<not> res_ok res then Inl (''upload failed: '' @ upload_detail st body)
          else (case body of None \<Rightarrow> Inl native | Some v \<Rightarrow> Inr v))"

section \<open>Facts\<close>

text \<open>\<open>request\<close> hands an error reply to its caller as if it were data; \<open>uploadFile\<close> does not.\<close>

lemma request_error_reply: "\<not> (200 \<le> st \<and> st \<le> 299) \<Longrightarrow> request (Response st (Some v)) = Some v"
  by (simp add: request_def)

lemma uploadFile_Inr:
  "uploadFile native res = Inr v \<longleftrightarrow> (\<exists>st. res = Response st (Some v) \<and> 200 \<le> st \<and> st \<le> 299)"
  by (cases res) (auto simp: uploadFile_def res_ok_def split: option.splits)

lemma uploadFile_failed:
  "res = Response st body \<Longrightarrow> \<not> res_ok res \<Longrightarrow> uploadFile native res = Inl (''upload failed: '' @ upload_detail st body)"
  by (simp add: uploadFile_def)

end
