(* ===== verification/Terminal.thy ===== *)
theory Terminal
  imports ApiClient Complex_Main
begin

text \<open>
  \<open>frontend/src/hooks/useTerminal.ts\<close>: the connection of one cached terminal. The state of a terminal
  instance is kept together with what the browser holds for it: the WebSockets it opened, the ticket requests in
  flight and the pending timers. Every callback is a function of that state, so any order of
  events is a list of them; an asynchronous function is split at its \<open>await\<close>.

  One session with one instance is modelled: sessions share nothing here but the map they are
  found in (\<open>cached\<close>: the map holds this instance) and the lock, whose verdict for this session is \<open>owns\<close>. A
  terminal mounted after it was disposed gets an instance of its own, which is another \<open>conn\<close>. The
  xterm instance, the addons and the DOM are not modelled. Delays are milliseconds, and \<open>Math.random\<close> is an
  argument of the functions that draw.
\<close>

section \<open>State\<close>

datatype ready_state = SConnecting | SOpen | SClosing | SClosed

datatype frame = Data string | Resize nat nat

text \<open>
  The fields up to \<open>reconnectAttempts\<close> are those of \<open>TerminalInstance\<close> (\<open>lastSent\<close> is the pair
  \<open>lastSentCols\<close>, \<open>lastSentRows\<close>, which are set together); the others belong to the browser. A socket handle
  that was never given out counts as closed.
\<close>

record conn =
  inst_ws :: "nat option"
  connecting :: bool
  reconnectTimer :: "nat option"
  lastSent :: "(nat \<times> nat) option"
  resizeDebounceTimer :: "nat option"
  attached :: bool
  composing :: bool
  compositionSuppressUntil :: rat
  reconnectAttempts :: nat
  cached :: bool
  disposed :: bool
  owns :: bool
  socks :: "nat \<Rightarrow> ready_state"
  nextSock :: nat
  requests :: nat
  reconnects :: "(nat \<times> int) list"
  debounces :: "nat list"
  nextTimer :: nat
  outbox :: "(nat \<times> frame) list"

definition new_conn :: conn where
  "new_conn = \<lparr>inst_ws = None, connecting = False, reconnectTimer = None, lastSent = None, resizeDebounceTimer = None,
     attached = False, composing = False, compositionSuppressUntil = 0, reconnectAttempts = 0,
     cached = False, disposed = False, owns = False, socks = (\<lambda>_. SClosed), nextSock = 0, requests = 0,
     reconnects = [], debounces = [], nextTimer = 0, outbox = []\<rparr>"

definition wsState :: "conn \<Rightarrow> ready_state option" where
  "wsState c = map_option (socks c) (inst_ws c)"

section \<open>Reconnecting\<close>

definition nextReconnectDelay :: "nat \<Rightarrow> rat \<Rightarrow> int" where
  "nextReconnectDelay attempts random =
     (let base = min 10000 (500 * 2 ^ attempts);
          jitter = base * (2 / 10) * (random * 2 - 1)
      in max 250 \<lfloor>base + jitter\<rfloor>)"

definition clear_reconnect :: "conn \<Rightarrow> conn" where
  "clear_reconnect c =
     (case reconnectTimer c of None \<Rightarrow> c | Some t \<Rightarrow> c\<lparr>reconnects := AList.delete t (reconnects c)\<rparr>)"

definition scheduleReconnect :: "rat \<Rightarrow> conn \<Rightarrow> conn" where
  "scheduleReconnect random c0 =
     (let c = clear_reconnect c0;
          delay = nextReconnectDelay (reconnectAttempts c) random
      in c\<lparr>reconnectAttempts := Suc (reconnectAttempts c),
           reconnects := reconnects c @ [(nextTimer c, delay)],
           reconnectTimer := Some (nextTimer c), nextTimer := Suc (nextTimer c)\<rparr>)"

section \<open>Connecting\<close>

text \<open>The ticket in a reply, \<open>None\<close> when the function throws.\<close>

definition isWebSocketTicketResponse :: "json \<Rightarrow> bool" where
  "isWebSocketTicketResponse v \<longleftrightarrow>
     typeof_object v \<and> v \<noteq> JNull \<and> jprop v ''ticket'' \<noteq> None \<and> is_string (jprop v ''ticket'')"

definition requestWebSocketTicket :: "fetch_result \<Rightarrow> string option" where
  "requestWebSocketTicket res =
     (if \<not> res_ok res then None
      else case res of
        NetworkError \<Rightarrow> None
      | Response st body \<Rightarrow>
          (case body of None \<Rightarrow> None
           | Some v \<Rightarrow> if \<not> isWebSocketTicketResponse v then None else Some (json_string (jprop v ''ticket''))))"

definition connectWebSocket :: "conn \<Rightarrow> conn" where
  "connectWebSocket c =
     (if connecting c \<or> wsState c = Some SConnecting \<or> wsState c = Some SOpen then c
      else if \<not> owns c then c
      else c\<lparr>connecting := True, requests := Suc (requests c)\<rparr>)"

text \<open>After the \<open>await\<close>: the ticket request failed, or gave a ticket. The ticket itself goes into the URL only.\<close>

definition ticket_failed :: "rat \<Rightarrow> conn \<Rightarrow> conn" where
  "ticket_failed random c = scheduleReconnect random (c\<lparr>requests := requests c - 1, connecting := False\<rparr>)"

definition ticket_ok :: "conn \<Rightarrow> conn" where
  "ticket_ok c0 =
     (let c = c0\<lparr>requests := requests c0 - 1\<rparr> in
      if \<not> cached c then c\<lparr>connecting := False\<rparr>
      else c\<lparr>socks := (socks c)(nextSock c := SConnecting), nextSock := Suc (nextSock c),
             inst_ws := Some (nextSock c)\<rparr>)"

definition ticket_reply :: "rat \<Rightarrow> fetch_result \<Rightarrow> conn \<Rightarrow> conn" where
  "ticket_reply random res c =
     (case requestWebSocketTicket res of None \<Rightarrow> ticket_failed random c | Some ticket \<Rightarrow> ticket_ok c)"

definition ws_onopen :: "nat \<Rightarrow> conn \<Rightarrow> conn" where
  "ws_onopen h c = c\<lparr>socks := (socks c)(h := SOpen), connecting := False, reconnectAttempts := 0,
     attached := False\<rparr>"

definition ws_onerror :: "conn \<Rightarrow> conn" where
  "ws_onerror c = c\<lparr>connecting := False\<rparr>"

definition ws_onclose :: "rat \<Rightarrow> nat \<Rightarrow> conn \<Rightarrow> conn" where
  "ws_onclose random h c0 =
     (let c = c0\<lparr>socks := (socks c0)(h := SClosed), connecting := False\<rparr>
      in if owns c then scheduleReconnect random c else c)"

text \<open>\<open>ws.close()\<close> starts the closing handshake; the close event follows later.\<close>

definition close_socket :: "nat \<Rightarrow> conn \<Rightarrow> conn" where
  "close_socket h c =
     (if socks c h = SConnecting \<or> socks c h = SOpen then c\<lparr>socks := (socks c)(h := SClosing)\<rparr> else c)"

definition send_frame :: "frame \<Rightarrow> conn \<Rightarrow> conn" where
  "send_frame f c =
     (case inst_ws c of
        None \<Rightarrow> c
      | Some h \<Rightarrow> if socks c h = SOpen then c\<lparr>outbox := outbox c @ [(h, f)]\<rparr> else c)"

text \<open>The \<open>attached\<close> message; \<open>dims\<close> is what \<open>proposeDimensions\<close> returns.\<close>

definition ws_attached :: "(nat \<times> nat) option \<Rightarrow> conn \<Rightarrow> conn" where
  "ws_attached dims c0 =
     (let c = c0\<lparr>attached := True\<rparr> in
      case dims of
        None \<Rightarrow> c
      | Some (cols, rows) \<Rightarrow>
          if cols > 0 \<and> rows > 0 \<and> wsState c = Some SOpen
          then send_frame (Resize cols rows) (c\<lparr>lastSent := Some (cols, rows)\<rparr>)
          else c)"

definition reconnect_fires :: "nat \<Rightarrow> conn \<Rightarrow> conn" where
  "reconnect_fires t c0 =
     (let c = c0\<lparr>reconnects := AList.delete t (reconnects c0)\<rparr>
      in if cached c then connectWebSocket c else c)"

section \<open>Ownership\<close>

definition reconcileOwnership :: "conn \<Rightarrow> conn" where
  "reconcileOwnership c =
     (if owns c then
        (if inst_ws c = None \<or> wsState c = Some SClosed then connectWebSocket c else c)
      else
        let c1 = (clear_reconnect c)\<lparr>reconnectTimer := None, reconnectAttempts := 0, connecting := False,
                    inst_ws := None\<rparr>
        in case inst_ws c of
             None \<Rightarrow> c1
           | Some h \<Rightarrow> if socks c1 h \<noteq> SClosed then close_socket h c1 else c1)"

text \<open>The lock's listener: a new verdict, then the reconciliation of every instance in the map.\<close>

definition ownership_changed :: "bool \<Rightarrow> conn \<Rightarrow> conn" where
  "ownership_changed b c0 =
     (let c = c0\<lparr>owns := b\<rparr> in if cached c then reconcileOwnership c else c)"

text \<open>
  The mount effect: the instance enters the map, the session is claimed (\<open>b\<close>: the verdict after the
  claim, which runs the listener when it changes) and a connection attempted. Unmounting keeps the
  instance and its connection, and drops a pending resize.
\<close>

definition mount_terminal :: "bool \<Rightarrow> conn \<Rightarrow> conn" where
  "mount_terminal b c0 =
     (let c = c0\<lparr>cached := True\<rparr>;
          c1 = (if b \<noteq> owns c then ownership_changed b c else c)
      in if inst_ws c1 = None \<or> wsState c1 = Some SClosed then connectWebSocket c1 else c1)"

definition clear_resize :: "conn \<Rightarrow> conn" where
  "clear_resize c =
     (case resizeDebounceTimer c of None \<Rightarrow> c
      | Some t \<Rightarrow> c\<lparr>debounces := filter (\<lambda>x. x \<noteq> t) (debounces c)\<rparr>)"

definition unmount_terminal :: "conn \<Rightarrow> conn" where
  "unmount_terminal c = clear_resize c"

text \<open>Releasing the session ends its ownership: a window owns claimed sessions only.\<close>

definition disposeTerminal :: "conn \<Rightarrow> conn" where
  "disposeTerminal c =
     (if \<not> cached c then c
      else
        let c1 = clear_resize (clear_reconnect c);
            c2 = (case inst_ws c1 of None \<Rightarrow> c1 | Some h \<Rightarrow> close_socket h c1)
        in c2\<lparr>cached := False, disposed := True, owns := False\<rparr>)"

section \<open>Resizing\<close>

definition usable_dims :: "conn \<Rightarrow> (nat \<times> nat) option \<Rightarrow> bool" where
  "usable_dims c dims = (case dims of None \<Rightarrow> False | Some (cols, rows) \<Rightarrow> cols \<noteq> 0 \<and> rows \<noteq> 0 \<and> lastSent c \<noteq> Some (cols, rows))"

definition resize_observed :: "(nat \<times> nat) option \<Rightarrow> conn \<Rightarrow> conn" where
  "resize_observed dims c =
     (if \<not> cached c \<or> \<not> usable_dims c dims then c
      else let c1 = clear_resize c
           in c1\<lparr>debounces := debounces c1 @ [nextTimer c], resizeDebounceTimer := Some (nextTimer c), nextTimer := Suc (nextTimer c)\<rparr>)"

definition resize_fires :: "nat \<Rightarrow> (nat \<times> nat) option \<Rightarrow> conn \<Rightarrow> conn" where
  "resize_fires t dims c0 =
     (let c = c0\<lparr>debounces := filter (\<lambda>x. x \<noteq> t) (debounces c0)\<rparr> in
      if \<not> cached c \<or> \<not> usable_dims c dims \<or> \<not> attached c then c
      else if wsState c = Some SOpen
      then send_frame (Resize (fst (the dims)) (snd (the dims))) (c\<lparr>lastSent := dims\<rparr>)
      else c)"

section \<open>Input\<close>

definition compositionstart :: "conn \<Rightarrow> conn" where
  "compositionstart c = c\<lparr>composing := True\<rparr>"

definition compositionend :: "string \<Rightarrow> rat \<Rightarrow> conn \<Rightarrow> conn" where
  "compositionend data now c0 =
     (let c = c0\<lparr>composing := False\<rparr>;
          c1 = (if data \<noteq> [] then send_frame (Data data) c else c)
      in c1\<lparr>compositionSuppressUntil := now + 50\<rparr>)"

definition onData :: "string \<Rightarrow> rat \<Rightarrow> conn \<Rightarrow> conn" where
  "onData data now c =
     (if composing c then c
      else if now < compositionSuppressUntil c then c
      else send_frame (Data data) c)"

definition sendToTerminal :: "string \<Rightarrow> conn \<Rightarrow> conn \<times> bool" where
  "sendToTerminal data c =
     (if \<not> cached c \<or> wsState c \<noteq> Some SOpen then (c, False)
      else (send_frame (Data data) c, True))"

section \<open>Events\<close>

datatype event =
    Mount bool
  | Unmount
  | TicketReply rat fetch_result
  | Opened nat
  | Failed rat nat
  | Closing nat
  | ClosedBy rat nat
  | AttachedMsg "(nat \<times> nat) option"
  | ReconnectFires nat
  | OwnershipChanged bool
  | Dispose
  | ResizeObserved "(nat \<times> nat) option"
  | ResizeFires nat "(nat \<times> nat) option"
  | CompositionStart
  | CompositionEnd string rat
  | Input string rat
  | Send string

text \<open>When the browser or the user can produce an event.\<close>

fun enabled :: "event \<Rightarrow> conn \<Rightarrow> bool" where
  "enabled (Mount b) c \<longleftrightarrow> \<not> disposed c"
| "enabled (TicketReply r res) c \<longleftrightarrow> requests c > 0 \<and> 0 \<le> r \<and> r < 1"
| "enabled (Opened h) c \<longleftrightarrow> socks c h = SConnecting"
| "enabled (Failed r h) c \<longleftrightarrow> socks c h = SConnecting \<and> 0 \<le> r \<and> r < 1"
| "enabled (Closing h) c \<longleftrightarrow> socks c h = SOpen"
| "enabled (ClosedBy r h) c \<longleftrightarrow> socks c h \<noteq> SClosed \<and> 0 \<le> r \<and> r < 1"
| "enabled (ReconnectFires t) c \<longleftrightarrow> map_of (reconnects c) t \<noteq> None"
| "enabled (ResizeFires t dims) c \<longleftrightarrow> t \<in> set (debounces c)"
| "enabled e c \<longleftrightarrow> True"

fun handle_event :: "event \<Rightarrow> conn \<Rightarrow> conn" where
  "handle_event (Mount b) c = mount_terminal b c"
| "handle_event Unmount c = unmount_terminal c"
| "handle_event (TicketReply r res) c = ticket_reply r res c"
| "handle_event (Opened h) c = ws_onopen h c"
| "handle_event (Failed r h) c = ws_onclose r h (ws_onerror (c\<lparr>socks := (socks c)(h := SClosed)\<rparr>))"
| "handle_event (Closing h) c = c\<lparr>socks := (socks c)(h := SClosing)\<rparr>"
| "handle_event (ClosedBy r h) c = ws_onclose r h c"
| "handle_event (AttachedMsg dims) c = ws_attached dims c"
| "handle_event (ReconnectFires t) c = reconnect_fires t c"
| "handle_event (OwnershipChanged b) c = ownership_changed b c"
| "handle_event Dispose c = disposeTerminal c"
| "handle_event (ResizeObserved dims) c = resize_observed dims c"
| "handle_event (ResizeFires t dims) c = resize_fires t dims c"
| "handle_event CompositionStart c = compositionstart c"
| "handle_event (CompositionEnd data now) c = compositionend data now c"
| "handle_event (Input data now) c = onData data now c"
| "handle_event (Send data) c = fst (sendToTerminal data c)"

definition term_step :: "conn \<Rightarrow> conn \<Rightarrow> bool" where
  "term_step c c' \<longleftrightarrow> (\<exists>e. enabled e c \<and> c' = handle_event e c)"

text \<open>
  Steady events: this window keeps the session (it is the only one, or keeps the focus), the instance
  stays, and no socket is seen between the start and the end of its closing handshake.
\<close>

fun steady :: "event \<Rightarrow> bool" where
  "steady (Mount b) = b"
| "steady (OwnershipChanged b) = b"
| "steady Dispose = False"
| "steady (Closing h) = False"
| "steady _ = True"

definition steady_step :: "conn \<Rightarrow> conn \<Rightarrow> bool" where
  "steady_step c c' \<longleftrightarrow> (\<exists>e. enabled e c \<and> steady e \<and> c' = handle_event e c)"

definition is_new :: "conn \<Rightarrow> bool" where "is_new c \<longleftrightarrow> c = new_conn"

section \<open>Reconnect delays and timers\<close>

lemma nextReconnectDelay_bounds:
  assumes "0 \<le> r" "r < 1"
  shows "400 \<le> nextReconnectDelay n r" "nextReconnectDelay n r \<le> 12000"
proof -
  define b :: rat where "b = min 10000 (500 * 2 ^ n)"
  have b: "500 \<le> b" "b \<le> 10000" by (simp_all add: b_def min_def)
  have r: "- 1 \<le> r * 2 - 1" "r * 2 - 1 < 1" using assms by linarith+
  have "b * (2 / 10) * (- 1) \<le> b * (2 / 10) * (r * 2 - 1)"
    using b r by (intro mult_left_mono) linarith+
  moreover have "b * (2 / 10) * (r * 2 - 1) \<le> b * (2 / 10) * 1"
    using b r by (intro mult_left_mono) linarith+
  ultimately have "400 \<le> b + b * (2 / 10) * (r * 2 - 1)" "b + b * (2 / 10) * (r * 2 - 1) \<le> 12000"
    using b by linarith+
  then have "400 \<le> \<lfloor>b + b * (2 / 10) * (r * 2 - 1)\<rfloor>" "\<lfloor>b + b * (2 / 10) * (r * 2 - 1)\<rfloor> \<le> 12000"
    by (simp_all add: le_floor_iff floor_le_iff)
  then show "400 \<le> nextReconnectDelay n r" "nextReconnectDelay n r \<le> 12000"
    by (simp_all add: nextReconnectDelay_def Let_def flip: b_def)
qed

definition reconnect_ok :: "conn \<Rightarrow> bool" where
  "reconnect_ok c \<longleftrightarrow>
     reconnects c = [] \<or>
     (\<exists>t d. reconnects c = [(t, d)] \<and> reconnectTimer c = Some t \<and> 400 \<le> d \<and> d \<le> 12000)"

lemma clear_reconnect_simps [simp]:
  "inst_ws (clear_reconnect c) = inst_ws c" "connecting (clear_reconnect c) = connecting c"
  "reconnectTimer (clear_reconnect c) = reconnectTimer c" "socks (clear_reconnect c) = socks c"
  "reconnectAttempts (clear_reconnect c) = reconnectAttempts c" "cached (clear_reconnect c) = cached c"
  "owns (clear_reconnect c) = owns c" "requests (clear_reconnect c) = requests c"
  "nextSock (clear_reconnect c) = nextSock c" "disposed (clear_reconnect c) = disposed c"
  "outbox (clear_reconnect c) = outbox c"
  by (simp_all add: clear_reconnect_def split: option.splits)

lemma clear_resize_simps [simp]:
  "inst_ws (clear_resize c) = inst_ws c" "connecting (clear_resize c) = connecting c"
  "reconnectTimer (clear_resize c) = reconnectTimer c" "socks (clear_resize c) = socks c"
  "reconnects (clear_resize c) = reconnects c" "cached (clear_resize c) = cached c"
  "owns (clear_resize c) = owns c" "requests (clear_resize c) = requests c"
  "nextSock (clear_resize c) = nextSock c" "disposed (clear_resize c) = disposed c"
  "outbox (clear_resize c) = outbox c"
  by (simp_all add: clear_resize_def split: option.splits)

lemma clear_reconnect_none: "reconnect_ok c \<Longrightarrow> reconnects (clear_reconnect c) = []"
  by (auto simp: reconnect_ok_def clear_reconnect_def split: option.splits)

lemma send_frame_simps [simp]:
  "inst_ws (send_frame f c) = inst_ws c" "connecting (send_frame f c) = connecting c"
  "reconnectTimer (send_frame f c) = reconnectTimer c" "socks (send_frame f c) = socks c"
  "reconnects (send_frame f c) = reconnects c" "cached (send_frame f c) = cached c"
  "owns (send_frame f c) = owns c" "requests (send_frame f c) = requests c"
  "nextSock (send_frame f c) = nextSock c" "disposed (send_frame f c) = disposed c"
  "composing (send_frame f c) = composing c" "compositionSuppressUntil (send_frame f c) = compositionSuppressUntil c"
  by (simp_all add: send_frame_def split: option.splits)

lemma close_socket_simps [simp]:
  "inst_ws (close_socket h c) = inst_ws c" "connecting (close_socket h c) = connecting c"
  "reconnectTimer (close_socket h c) = reconnectTimer c" "reconnects (close_socket h c) = reconnects c"
  "cached (close_socket h c) = cached c" "owns (close_socket h c) = owns c" "requests (close_socket h c) = requests c"
  "nextSock (close_socket h c) = nextSock c" "disposed (close_socket h c) = disposed c"
  "outbox (close_socket h c) = outbox c"
  by (simp_all add: close_socket_def)

lemma scheduleReconnect_simps [simp]:
  "inst_ws (scheduleReconnect r c) = inst_ws c" "connecting (scheduleReconnect r c) = connecting c"
  "socks (scheduleReconnect r c) = socks c" "cached (scheduleReconnect r c) = cached c"
  "owns (scheduleReconnect r c) = owns c" "requests (scheduleReconnect r c) = requests c"
  "nextSock (scheduleReconnect r c) = nextSock c" "disposed (scheduleReconnect r c) = disposed c"
  "reconnects (scheduleReconnect r c) \<noteq> []" "outbox (scheduleReconnect r c) = outbox c"
  by (simp_all add: scheduleReconnect_def Let_def)

lemma connectWebSocket_simps [simp]:
  "inst_ws (connectWebSocket c) = inst_ws c" "reconnectTimer (connectWebSocket c) = reconnectTimer c"
  "socks (connectWebSocket c) = socks c" "cached (connectWebSocket c) = cached c"
  "owns (connectWebSocket c) = owns c" "reconnects (connectWebSocket c) = reconnects c"
  "nextSock (connectWebSocket c) = nextSock c" "disposed (connectWebSocket c) = disposed c"
  "outbox (connectWebSocket c) = outbox c"
  by (simp_all add: connectWebSocket_def)

lemma wsState_simps [simp]:
  "wsState (send_frame f c) = wsState c" "wsState (connectWebSocket c) = wsState c"
  "wsState (clear_reconnect c) = wsState c" "wsState (clear_resize c) = wsState c"
  "wsState (scheduleReconnect r c) = wsState c"
  by (simp_all add: wsState_def)

lemma schedule_reconnect_ok:
  assumes "reconnect_ok c" "0 \<le> r" "r < 1"
  shows "reconnect_ok (scheduleReconnect r c)"
  using clear_reconnect_none [OF assms(1)] nextReconnectDelay_bounds [OF assms(2,3)]
  by (simp add: scheduleReconnect_def Let_def reconnect_ok_def)

lemma reconnect_ok_cong:
  "reconnects c' = reconnects c \<Longrightarrow> reconnectTimer c' = reconnectTimer c \<Longrightarrow> reconnect_ok c' = reconnect_ok c"
  by (simp add: reconnect_ok_def)

lemma reconnect_ok_none: "reconnects c = [] \<Longrightarrow> reconnect_ok c"
  by (simp add: reconnect_ok_def)

lemma fired_none: "reconnect_ok c \<Longrightarrow> map_of (reconnects c) t \<noteq> None \<Longrightarrow> AList.delete t (reconnects c) = []"
  by (auto simp: reconnect_ok_def split: if_splits)

lemma reconcile_reconnect_ok: "reconnect_ok c \<Longrightarrow> reconnect_ok (reconcileOwnership c)"
  using clear_reconnect_none [of c]
  by (auto simp: reconcileOwnership_def Let_def reconnect_ok_cong [of "connectWebSocket c" c]
      intro: reconnect_ok_none split: option.splits)

lemma ownership_reconnect_ok: "reconnect_ok c \<Longrightarrow> reconnect_ok (ownership_changed b c)"
  by (auto simp: ownership_changed_def Let_def reconnect_ok_cong [of "c\<lparr>owns := b\<rparr>" c]
      intro!: reconcile_reconnect_ok)

lemma mount_reconnect_ok: "reconnect_ok c \<Longrightarrow> reconnect_ok (mount_terminal b c)"
proof -
  assume ok: "reconnect_ok c"
  have "reconnect_ok (ownership_changed b (c\<lparr>cached := True\<rparr>))"
    by (rule ownership_reconnect_ok) (simp add: ok reconnect_ok_cong [of _ c])
  then show ?thesis
    using ok by (auto simp: mount_terminal_def Let_def reconnect_ok_cong [of "connectWebSocket d" d for d]
        reconnect_ok_cong [of "c\<lparr>cached := x\<rparr>" c for x])
qed

lemma reconnect_ok_step:
  assumes "term_step c c'" "reconnect_ok c"
  shows "reconnect_ok c'"
proof -
  obtain e where e: "enabled e c" "c' = handle_event e c" using assms(1) by (auto simp: term_step_def)
  show ?thesis unfolding e(2)
  proof (cases e)
    case (Mount b)
    then show "reconnect_ok (handle_event e c)" using assms(2) by (simp add: mount_reconnect_ok)
  next
    case (OwnershipChanged b)
    then show "reconnect_ok (handle_event e c)" using assms(2) by (simp add: ownership_reconnect_ok)
  next
    case (TicketReply r res)
    have ok: "reconnect_ok (c\<lparr>requests := requests c - 1, connecting := False\<rparr>)"
      using assms(2) by (simp add: reconnect_ok_def)
    show "reconnect_ok (handle_event e c)"
      using e(1) TicketReply assms(2) schedule_reconnect_ok [OF ok, of r]
      by (auto simp: ticket_reply_def ticket_failed_def ticket_ok_def Let_def reconnect_ok_def split: option.splits)
  next
    case (Failed r h)
    have ok: "reconnect_ok (c\<lparr>socks := s, connecting := False\<rparr>)" for s
      using assms(2) by (simp add: reconnect_ok_def)
    show "reconnect_ok (handle_event e c)"
      using e(1) Failed schedule_reconnect_ok [OF ok, of r] ok by (simp add: ws_onclose_def ws_onerror_def Let_def)
  next
    case (ClosedBy r h)
    have ok: "reconnect_ok (c\<lparr>socks := s, connecting := False\<rparr>)" for s
      using assms(2) by (simp add: reconnect_ok_def)
    show "reconnect_ok (handle_event e c)"
      using e(1) ClosedBy schedule_reconnect_ok [OF ok, of r] ok by (simp add: ws_onclose_def Let_def)
  next
    case (ReconnectFires t)
    then have "AList.delete t (reconnects c) = []" using e(1) assms(2) by (simp add: fired_none)
    then show "reconnect_ok (handle_event e c)"
      using ReconnectFires by (simp add: reconnect_fires_def Let_def reconnect_ok_none)
  next
    case Dispose
    show "reconnect_ok (handle_event e c)"
      using assms(2) Dispose clear_reconnect_none [OF assms(2)]
      by (auto simp: disposeTerminal_def Let_def intro: reconnect_ok_none split: option.splits)
  next
    case (ResizeObserved d)
    then show "reconnect_ok (handle_event e c)"
      using assms(2) by (simp add: resize_observed_def Let_def reconnect_ok_def)
  qed (use assms(2) in \<open>auto simp: reconnect_ok_def unmount_terminal_def ws_onopen_def ws_attached_def
      resize_fires_def compositionstart_def compositionend_def onData_def sendToTerminal_def Let_def
      split: option.splits prod.splits\<close>)
qed

interpretation reconnect: invariant_system is_new term_step reconnect_ok
  by unfold_locales (simp add: is_new_def new_conn_def reconnect_ok_def, rule reconnect_ok_step)

section \<open>Steady runs\<close>

definition live :: "conn \<Rightarrow> nat \<Rightarrow> bool" where
  "live c h \<longleftrightarrow> socks c h = SConnecting \<or> socks c h = SOpen"

definition steady_ok :: "conn \<Rightarrow> bool" where
  "steady_ok c \<longleftrightarrow>
     (cached c \<longrightarrow> owns c) \<and> (\<not> cached c \<longrightarrow> requests c = 0 \<and> inst_ws c = None \<and> reconnects c = []) \<and>
     requests c \<le> 1 \<and> (connecting c \<longleftrightarrow> requests c = 1 \<or> wsState c = Some SConnecting) \<and>
     (requests c = 1 \<longrightarrow> wsState c \<noteq> Some SConnecting \<and> wsState c \<noteq> Some SOpen) \<and>
     (\<forall>h. socks c h \<noteq> SClosed \<longrightarrow> inst_ws c = Some h \<and> live c h) \<and>
     (cached c \<longrightarrow> requests c = 1 \<or> wsState c = Some SConnecting \<or> wsState c = Some SOpen \<or> reconnects c \<noteq> [])"

lemma steady_sock: "steady_ok c \<Longrightarrow> socks c h \<noteq> SClosed \<Longrightarrow> inst_ws c = Some h \<and> live c h"
  by (simp add: steady_ok_def)

lemma steady_cong:
  assumes "steady_ok c" "cached c' = cached c" "owns c' = owns c" "requests c' = requests c" "inst_ws c' = inst_ws c"
    "reconnects c' = reconnects c" "connecting c' = connecting c" "socks c' = socks c"
  shows "steady_ok c'"
  using assms by (simp add: steady_ok_def wsState_def live_def)

text \<open>An attempt to connect keeps the invariant and ends with a connection under way.\<close>

definition underway :: "conn \<Rightarrow> bool" where
  "underway c \<longleftrightarrow> requests c = 1 \<or> wsState c = Some SConnecting \<or> wsState c = Some SOpen"

lemma connect_steady:
  assumes "owns c" "cached c" "requests c \<le> 1"
    "connecting c \<longleftrightarrow> requests c = 1 \<or> wsState c = Some SConnecting"
    "requests c = 1 \<longrightarrow> wsState c \<noteq> Some SConnecting \<and> wsState c \<noteq> Some SOpen"
    "\<forall>h. socks c h \<noteq> SClosed \<longrightarrow> inst_ws c = Some h \<and> live c h"
  shows "steady_ok (connectWebSocket c)" "underway (connectWebSocket c)"
  using assms by (auto simp: steady_ok_def underway_def connectWebSocket_def wsState_def live_def)

lemma steady_reconcile: "steady_ok c \<Longrightarrow> cached c \<Longrightarrow> steady_ok (reconcileOwnership c)"
  using connect_steady [of c] by (auto simp: reconcileOwnership_def steady_ok_def)

lemma steady_mount:
  assumes "steady_ok c" shows "steady_ok (mount_terminal True c)"
proof (cases "cached c")
  case True
  then have own: "owns c" and same: "c\<lparr>cached := True\<rparr> = c" using assms by (simp_all add: steady_ok_def)
  have "steady_ok (connectWebSocket c)"
    using connect_steady(1) [OF own True] assms unfolding steady_ok_def by blast
  then show ?thesis
    using own assms unfolding mount_terminal_def same Let_def by simp
next
  case False
  have c: "requests c = 0" "inst_ws c = None" "\<not> connecting c" "\<forall>h. socks c h = SClosed"
    using assms False by (auto simp: steady_ok_def wsState_def)
  show ?thesis
    using c by (auto simp: mount_terminal_def ownership_changed_def reconcileOwnership_def connectWebSocket_def
        steady_ok_def wsState_def Let_def)
qed

lemma steady_closed:
  assumes "steady_ok c" "socks c h \<noteq> SClosed"
  shows "steady_ok (scheduleReconnect r (c\<lparr>socks := (socks c)(h := SClosed), connecting := False\<rparr>))" "owns c"
proof -
  have c: "inst_ws c = Some h" "live c h" using steady_sock [OF assms] by auto
  then have "cached c" "requests c = 0"
    using assms(1) by (auto simp: steady_ok_def wsState_def live_def)
  moreover have "socks c k = SClosed" if "k \<noteq> h" for k
    using steady_sock [OF assms(1), of k] c(1) that by auto
  moreover show "owns c" using assms(1) \<open>cached c\<close> by (simp add: steady_ok_def)
  ultimately show "steady_ok (scheduleReconnect r (c\<lparr>socks := (socks c)(h := SClosed), connecting := False\<rparr>))"
    using c(1) unfolding steady_ok_def by (simp add: wsState_def)
qed

lemma steady_ok_step:
  assumes "steady_step c c'" "steady_ok c"
  shows "steady_ok c'"
proof -
  obtain e where e: "enabled e c" "steady e" "c' = handle_event e c" using assms(1) by (auto simp: steady_step_def)
  show ?thesis unfolding e(3)
  proof (cases e)
    case (Mount b)
    then show "steady_ok (handle_event e c)" using e(2) assms(2) steady_mount by simp
  next
    case (OwnershipChanged b)
    then have "steady_ok (c\<lparr>owns := True\<rparr>)" using assms(2) by (simp add: steady_ok_def wsState_def live_def)
    then show "steady_ok (handle_event e c)"
      using OwnershipChanged e(2) by (auto simp: ownership_changed_def Let_def intro: steady_reconcile)
  next
    case (TicketReply r res)
    have req: "requests c = 1" "cached c" "wsState c \<noteq> Some SConnecting" "wsState c \<noteq> Some SOpen"
      using e(1) TicketReply assms(2) by (auto simp: steady_ok_def)
    then have closed: "socks c h = SClosed" for h
      using steady_sock [OF assms(2), of h] by (auto simp: wsState_def live_def)
    show "steady_ok (handle_event e c)"
      using req closed assms(2) TicketReply
      by (auto simp: ticket_reply_def ticket_failed_def ticket_ok_def steady_ok_def wsState_def live_def Let_def
          split: option.splits)
  next
    case (Opened h)
    then show "steady_ok (handle_event e c)"
      using e(1) assms(2) steady_sock [OF assms(2), of h]
      by (auto simp: ws_onopen_def steady_ok_def wsState_def live_def)
  next
    case (Failed r h)
    then show "steady_ok (handle_event e c)"
      using e(1) steady_closed(1) [OF assms(2), of h r] steady_closed(2) [OF assms(2), of h]
      by (simp add: ws_onclose_def ws_onerror_def Let_def)
  next
    case (ClosedBy r h)
    then show "steady_ok (handle_event e c)"
      using e(1) steady_closed(1) [OF assms(2), of h r] steady_closed(2) [OF assms(2), of h]
      by (simp add: ws_onclose_def Let_def)
  next
    case (ReconnectFires t)
    have "cached c" using e(1) ReconnectFires assms(2) by (cases "cached c") (auto simp: steady_ok_def)
    then show "steady_ok (handle_event e c)"
      using ReconnectFires assms(2) connect_steady [of "c\<lparr>reconnects := AList.delete t (reconnects c)\<rparr>"]
      by (simp add: reconnect_fires_def Let_def steady_ok_def wsState_def live_def)
  next
    case (AttachedMsg d)
    show "steady_ok (handle_event e c)"
      by (rule steady_cong [OF assms(2)]) (auto simp: AttachedMsg ws_attached_def Let_def split: option.splits prod.splits)
  next
    case (ResizeObserved d)
    show "steady_ok (handle_event e c)"
      by (rule steady_cong [OF assms(2)]) (auto simp: ResizeObserved resize_observed_def Let_def)
  next
    case (ResizeFires t d)
    show "steady_ok (handle_event e c)"
      by (rule steady_cong [OF assms(2)]) (auto simp: ResizeFires resize_fires_def Let_def)
  next
    case (CompositionEnd d t)
    show "steady_ok (handle_event e c)"
      by (rule steady_cong [OF assms(2)]) (auto simp: CompositionEnd compositionend_def Let_def)
  next
    case (Input d t)
    show "steady_ok (handle_event e c)"
      by (rule steady_cong [OF assms(2)]) (auto simp: Input onData_def)
  next
    case (Send d)
    show "steady_ok (handle_event e c)"
      by (rule steady_cong [OF assms(2)]) (auto simp: Send sendToTerminal_def)
  next
    case CompositionStart
    show "steady_ok (handle_event e c)"
      by (rule steady_cong [OF assms(2)]) (auto simp: CompositionStart compositionstart_def)
  next
    case Unmount
    show "steady_ok (handle_event e c)"
      by (rule steady_cong [OF assms(2)]) (auto simp: Unmount unmount_terminal_def)
  qed (use e(2) in auto)
qed

interpretation steady: invariant_system is_new steady_step steady_ok
  by unfold_locales (simp add: is_new_def new_conn_def steady_ok_def wsState_def, rule steady_ok_step)

lemma steady_sockets_unique: "steady_ok c \<Longrightarrow> live c h \<Longrightarrow> live c k \<Longrightarrow> h = k"
  using steady_sock [of c h] steady_sock [of c k] by (auto simp: live_def)

section \<open>Another window owns the session\<close>

text \<open>
  Events while another window owns the session: any but the ones that give it back. \<open>paused\<close> is what
  such a run keeps once no ticket request is in flight.
\<close>

fun elsewhere :: "event \<Rightarrow> bool" where
  "elsewhere (Mount b) = (\<not> b)"
| "elsewhere (OwnershipChanged b) = (\<not> b)"
| "elsewhere _ = True"

definition elsewhere_step :: "conn \<Rightarrow> conn \<Rightarrow> bool" where
  "elsewhere_step c c' \<longleftrightarrow> (\<exists>e. enabled e c \<and> elsewhere e \<and> c' = handle_event e c)"

definition paused :: "conn \<Rightarrow> bool" where
  "paused c \<longleftrightarrow> \<not> owns c \<and> requests c = 0 \<and> reconnects c = [] \<and> (\<forall>h. \<not> live c h)"

lemma paused_cong:
  assumes "paused c" "owns c' = owns c" "requests c' = requests c" "reconnects c' = reconnects c" "socks c' = socks c"
  shows "paused c'"
  using assms by (simp add: paused_def live_def)

lemma paused_connect: "paused c \<Longrightarrow> paused (connectWebSocket c)"
  by (simp add: paused_def connectWebSocket_def)

lemma clear_reconnect_paused: "paused c \<Longrightarrow> reconnects (clear_reconnect c) = []"
  by (simp add: paused_def clear_reconnect_def split: option.splits)

lemma live_close_socket: "live (close_socket h c) k \<longleftrightarrow> live c k \<and> k \<noteq> h"
  by (auto simp: live_def close_socket_def)

lemma paused_reconcile: "paused c \<Longrightarrow> paused (reconcileOwnership c)"
  using clear_reconnect_paused [of c]
  by (auto simp: reconcileOwnership_def Let_def paused_def live_close_socket split: option.splits)
    (auto simp: live_def)

lemma paused_step:
  assumes "elsewhere_step c c'" "paused c"
  shows "paused c'"
proof -
  obtain e where e: "enabled e c" "elsewhere e" "c' = handle_event e c" using assms(1) by (auto simp: elsewhere_step_def)
  have no: "\<not> owns c" using assms(2) by (simp add: paused_def)
  show ?thesis unfolding e(3)
  proof (cases e)
    case (Mount b)
    have "paused (c\<lparr>cached := True\<rparr>)" by (rule paused_cong [OF assms(2)]) simp_all
    then show "paused (handle_event e c)"
      using Mount e(2) no by (auto simp: mount_terminal_def Let_def intro: paused_connect)
  next
    case (OwnershipChanged b)
    have "paused (c\<lparr>owns := False\<rparr>)" by (rule paused_cong [OF assms(2)]) (simp_all add: no)
    then show "paused (handle_event e c)"
      using OwnershipChanged e(2) by (auto simp: ownership_changed_def Let_def intro: paused_reconcile)
  next
    case (Opened h)
    then show "paused (handle_event e c)" using e(1) assms(2) by (auto simp: paused_def live_def)
  next
    case (Closing h)
    then show "paused (handle_event e c)" using e(1) assms(2) by (auto simp: paused_def live_def)
  next
    case (Failed r h)
    then show "paused (handle_event e c)" using e(1) assms(2) by (auto simp: paused_def live_def)
  next
    case (ClosedBy r h)
    then show "paused (handle_event e c)" using assms(2) by (auto simp: ws_onclose_def Let_def paused_def live_def)
  next
    case Dispose
    show "paused (handle_event e c)"
      using assms(2) clear_reconnect_paused [OF assms(2)] unfolding Dispose handle_event.simps disposeTerminal_def Let_def paused_def
      by (auto split: option.splits) (auto simp: live_def close_socket_def)
  next
    case (AttachedMsg d)
    show "paused (handle_event e c)"
      by (rule paused_cong [OF assms(2)]) (auto simp: AttachedMsg ws_attached_def Let_def split: option.splits prod.splits)
  next
    case (ResizeObserved d)
    show "paused (handle_event e c)"
      by (rule paused_cong [OF assms(2)]) (auto simp: ResizeObserved resize_observed_def Let_def)
  next
    case (ResizeFires t d)
    show "paused (handle_event e c)"
      by (rule paused_cong [OF assms(2)]) (auto simp: ResizeFires resize_fires_def Let_def)
  next
    case (CompositionEnd d t)
    show "paused (handle_event e c)"
      by (rule paused_cong [OF assms(2)]) (auto simp: CompositionEnd compositionend_def Let_def)
  next
    case (Input d t)
    show "paused (handle_event e c)"
      by (rule paused_cong [OF assms(2)]) (auto simp: Input onData_def)
  next
    case (Send d)
    show "paused (handle_event e c)"
      by (rule paused_cong [OF assms(2)]) (auto simp: Send sendToTerminal_def)
  qed (use e(1) assms(2) in \<open>auto simp: paused_def compositionstart_def unmount_terminal_def live_def\<close>)
qed

interpretation paused: invariant_system paused elsewhere_step paused
  by unfold_locales (simp, rule paused_step)

text \<open>Losing the session with no ticket request in flight pauses the terminal.\<close>

lemma lose_session_paused:
  assumes "steady_ok c" "reconnect_ok c" "cached c" "requests c = 0"
  shows "paused (ownership_changed False c)" "inst_ws (ownership_changed False c) = None"
proof -
  have live: "live c k \<Longrightarrow> inst_ws c = Some k" for k
    using steady_sock [OF assms(1), of k] by (auto simp: live_def)
  have none: "reconnects (clear_reconnect (c\<lparr>owns := False\<rparr>)) = []"
    by (rule clear_reconnect_none) (use assms(2) in \<open>simp add: reconnect_ok_def\<close>)
  have sock: "socks c k = SClosed" if "inst_ws c = None" for k
    using steady_sock [OF assms(1), of k] that by auto
  show "paused (ownership_changed False c)"
  proof (cases "inst_ws c")
    case None
    then show ?thesis
      using assms(3,4) none sock by (simp add: ownership_changed_def reconcileOwnership_def paused_def live_def Let_def)
  next
    case (Some h)
    then show ?thesis
      using assms(3,4) none live
      by (auto simp: ownership_changed_def reconcileOwnership_def paused_def live_close_socket Let_def)
        (auto simp: live_def)
  qed
  show "inst_ws (ownership_changed False c) = None"
    using assms(3) by (simp add: ownership_changed_def reconcileOwnership_def Let_def split: option.splits)
qed

text \<open>With a request in flight the reply still opens a socket.\<close>

lemma lose_session_race:
  assumes "cached c" "requestWebSocketTicket res \<noteq> None"
  shows "\<not> owns (ticket_reply r res (ownership_changed False c))"
    "live (ticket_reply r res (ownership_changed False c)) (nextSock c)"
  using assms
  by (auto simp: ticket_reply_def ticket_ok_def ownership_changed_def reconcileOwnership_def live_def Let_def
      split: option.splits)

section \<open>Input\<close>

definition type_inputs :: "(string \<times> rat) list \<Rightarrow> conn \<Rightarrow> conn" where
  "type_inputs = fold (\<lambda>(d, now) c. onData d now c)"

lemma composing_inputs: "composing c \<Longrightarrow> type_inputs xs c = c"
  by (induction xs) (auto simp: type_inputs_def onData_def)

lemma suppressed_inputs:
  "\<forall>x \<in> set xs. snd x < compositionSuppressUntil c \<Longrightarrow> type_inputs xs c = c"
  by (induction xs) (auto simp: type_inputs_def onData_def)

lemma send_frame_open: "inst_ws c = Some h \<Longrightarrow> socks c h = SOpen \<Longrightarrow> send_frame f c = c\<lparr>outbox := outbox c @ [(h, f)]\<rparr>"
  by (simp add: send_frame_def)

lemma send_frame_not_open: "wsState c \<noteq> Some SOpen \<Longrightarrow> send_frame f c = c"
  by (auto simp: send_frame_def wsState_def split: option.splits)

section \<open>A concrete run\<close>

definition ex_ticket :: fetch_result where
  "ex_ticket = Response 200 (Some (JObject [(''ticket'', JString ''t'')]))"

definition ex_mounted :: conn where "ex_mounted = handle_event (Mount True) new_conn"
definition ex_retry :: conn where "ex_retry = handle_event (TicketReply (1/2) NetworkError) ex_mounted"
definition ex_linked :: conn where
  "ex_linked = handle_event (Opened 0) (handle_event (TicketReply 0 ex_ticket) ex_mounted)"

lemma ex_ticket_ok: "requestWebSocketTicket ex_ticket = Some ''t''"
  by (simp add: requestWebSocketTicket_def ex_ticket_def res_ok_def isWebSocketTicketResponse_def jprop_def
      typeof_object_def is_string_def json_string_def)

lemma reachable_event:
  "reachable_from is_new term_step c \<Longrightarrow> enabled e c \<Longrightarrow> reachable_from is_new term_step (handle_event e c)"
  "reachable_from is_new steady_step c \<Longrightarrow> enabled e c \<Longrightarrow> steady e \<Longrightarrow> reachable_from is_new steady_step (handle_event e c)"
  by (erule reachable_step, auto simp: term_step_def steady_step_def)+

lemma steady_is_term: "steady_step c c' \<Longrightarrow> term_step c c'"
  by (auto simp: steady_step_def term_step_def)

lemma steady_reachable_term: "reachable_from is_new steady_step c \<Longrightarrow> reachable_from is_new term_step c"
  unfolding reachable_from_def using steady_is_term by (metis mono_rtranclp)

lemma ex_mounted_eq:
  "ex_mounted = new_conn\<lparr>cached := True, owns := True, connecting := True, requests := 1\<rparr>"
  by (simp add: ex_mounted_def new_conn_def mount_terminal_def ownership_changed_def reconcileOwnership_def
      connectWebSocket_def wsState_def Let_def)

lemma ex_linked_eq:
  "ex_linked = new_conn\<lparr>cached := True, owns := True, inst_ws := Some 0, nextSock := 1,
     socks := (\<lambda>_. SClosed)(0 := SOpen)\<rparr>"
  by (simp add: ex_linked_def ex_mounted_eq new_conn_def ticket_reply_def ex_ticket_ok ticket_ok_def ws_onopen_def Let_def)

lemma ex_conn_reachable:
  "reachable_from is_new steady_step ex_mounted" "reachable_from is_new steady_step ex_linked"
  "reachable_from is_new steady_step ex_retry"
proof -
  have new: "reachable_from is_new steady_step new_conn" by (rule reachable_start) (simp add: is_new_def)
  show m: "reachable_from is_new steady_step ex_mounted"
    unfolding ex_mounted_def by (rule reachable_event(2) [OF new]) (simp_all add: new_conn_def)
  show "reachable_from is_new steady_step ex_retry"
    unfolding ex_retry_def by (rule reachable_event(2) [OF m]) (simp_all add: ex_mounted_eq new_conn_def)
  have "reachable_from is_new steady_step (handle_event (TicketReply 0 ex_ticket) ex_mounted)"
    by (rule reachable_event(2) [OF m]) (simp_all add: ex_mounted_eq new_conn_def)
  then show "reachable_from is_new steady_step ex_linked"
    unfolding ex_linked_def
    by (rule reachable_event(2)) (simp_all add: ex_mounted_eq new_conn_def ticket_reply_def ex_ticket_ok ticket_ok_def Let_def)
qed

lemma ex_retry_reconnects: "map snd (reconnects ex_retry) = [500]"
  by (simp add: ex_retry_def ex_mounted_eq new_conn_def ticket_reply_def requestWebSocketTicket_def res_ok_def
      ticket_failed_def scheduleReconnect_def clear_reconnect_def nextReconnectDelay_def Let_def)

lemma reachable_conn_ok:
  "reachable_from is_new steady_step c \<Longrightarrow> steady_ok c"
  "reachable_from is_new term_step c \<Longrightarrow> reconnect_ok c"
  by (erule steady.reachable_inv, erule reconnect.reachable_inv)

end
