(* ===== verification/Widgets.thy ===== *)
theory Widgets
  imports DragDrop Terminal SessionLock
begin

text \<open>
  The decisions the React components take, without their markup: which panel and which tabs are shown and how,
  the drop targets over a panel (\<open>components/Terminal/PanelLayout.tsx\<close>, \<open>PanelLeaf.tsx\<close>, \<open>TabBar.tsx\<close>), the
  workspace list and its editing (\<open>components/Sidebar/Sidebar.tsx\<close>), the toasts
  (\<open>components/Toast/ToastContainer.tsx\<close>), file uploads (\<open>TerminalView.tsx\<close>) and keyboard input
  (\<open>MobileInputBar.tsx\<close>, \<open>hooks/shiftEnter.ts\<close>).
\<close>

section \<open>Panels\<close>

text \<open>\<open>xs[i]\<close>: \<open>None\<close> is \<open>undefined\<close>.\<close>

definition nth_opt :: "'a list \<Rightarrow> nat \<Rightarrow> 'a option" where
  "nth_opt xs i = (if i < length xs then Some (xs ! i) else None)"

datatype panel_view = NoPanels | SinglePanel panel_leaf | WholeTree panel_node

text \<open>\<open>PanelLayout\<close>: a phone shows the focused panel only. \<open>None\<close>: \<open>firstLeaf\<close> throws.\<close>

definition PanelLayout_view :: "bool \<Rightarrow> app_state \<Rightarrow> panel_view option" where
  "PanelLayout_view isMobile s =
     (case active_layout s of
        None \<Rightarrow> Some NoPanels
      | Some (wid, layout) \<Rightarrow>
          if isMobile then
            let matched = (if truthy (focus_of s wid) then findLeafById layout (the (focus_of s wid)) else None)
            in (case matched of
                  Some l \<Rightarrow> Some (SinglePanel l)
                | None \<Rightarrow> map_option SinglePanel (firstLeaf layout))
          else Some (WholeTree layout))"

definition defaultLayout :: "panel_node list \<Rightarrow> rat list \<Rightarrow> rat obj" where
  "defaultLayout cs sz = fold (\<lambda>(i, c) m. obj_put (node_id c) (nth_opt sz i) m) (enumerate 0 cs) []"

text \<open>The resize library reports new sizes by child id; an echo of the current ones is ignored.\<close>

definition new_sizes :: "rat obj \<Rightarrow> panel_node list \<Rightarrow> rat list" where
  "new_sizes next cs = map (\<lambda>c. case map_of next (node_id c) of None \<Rightarrow> 0 | Some s \<Rightarrow> s) cs"

fun handleLayoutChanged :: "rat obj \<Rightarrow> panel_node \<Rightarrow> world \<Rightarrow> world" where
  "handleLayoutChanged next (PLeaf l) w = w"
| "handleLayoutChanged next (PSplit i d sz cs) w =
     (if list_ex (\<lambda>(k, s). nth_opt sz k \<noteq> Some s) (enumerate 0 (new_sizes next cs))
      then resizeSplit i (new_sizes next cs) w else w)"

definition panel_isFocused :: "app_state \<Rightarrow> panel_leaf \<Rightarrow> bool" where
  "panel_isFocused s node \<longleftrightarrow>
     truthy (activeWorkspaceId s) \<and> focus_of s (the (activeWorkspaceId s)) = Some (leaf_id node)"

text \<open>
  The toolbar of a panel under the pointer (\<open>None\<close>: not shown; \<open>Some True\<close>: with the split buttons) and its buttons.
\<close>

definition leaf_toolbar :: "bool \<Rightarrow> bool \<Rightarrow> bool \<Rightarrow> bool option" where
  "leaf_toolbar hideToolbar disableSplit hovered = (if \<not> hideToolbar \<and> hovered then Some (\<not> disableSplit) else None)"

datatype leaf_button = SplitRight | SplitDown | CloseButton

definition leaf_click :: "(nat \<Rightarrow> nat) \<Rightarrow> leaf_button \<Rightarrow> panel_leaf \<Rightarrow> world \<Rightarrow> world" where
  "leaf_click rnd btn node w =
     (case btn of
        SplitRight \<Rightarrow> fst (splitPanel rnd (leaf_id node) Row After w)
      | SplitDown \<Rightarrow> fst (splitPanel rnd (leaf_id node) Column After w)
      | CloseButton \<Rightarrow> (case closePanel_call (leaf_id node) w of None \<Rightarrow> w
          | Some sido \<Rightarrow> outcome_state (closePanel_finish rnd (leaf_id node) sido w)))"

text \<open>\<open>ZONE_RECTS\<close>: left, top, width and height of a drop target, as shares of the panel.\<close>

fun zone_rect :: "drop_zone \<Rightarrow> rat \<times> rat \<times> rat \<times> rat" where
  "zone_rect TopZone = (0, 0, 1, 1/4)"
| "zone_rect BottomZone = (0, 3/4, 1, 1/4)"
| "zone_rect LeftZone = (0, 1/4, 1/4, 1/2)"
| "zone_rect RightZone = (3/4, 1/4, 1/4, 1/2)"
| "zone_rect CenterZone = (1/4, 1/4, 1/2, 1/2)"

definition in_zone :: "drop_zone \<Rightarrow> rat \<Rightarrow> rat \<Rightarrow> bool" where
  "in_zone z x y =
     (case zone_rect z of (l, t, wd, h) \<Rightarrow> l \<le> x \<and> x \<le> l + wd \<and> t \<le> y \<and> y \<le> t + h)"

section \<open>Tabs\<close>

record tab_view =
  tab_session :: session
  tab_active :: bool
  tab_unread :: bool
  tab_canClose :: bool

definition TabBar_view :: "app_state \<Rightarrow> tab_view list option" where
  "TabBar_view s =
     (if \<not> truthy (activeWorkspaceId s) then None
      else let currentSessions = sessions_of s (the (activeWorkspaceId s))
           in Some (map (\<lambda>sess. \<lparr>tab_session = sess, tab_active = (Some (s_id sess) = activeSessionId s),
                tab_unread = (Some (s_id sess) \<noteq> activeSessionId s \<and> sessionUnread s (s_id sess)),
                tab_canClose = length currentSessions > 1\<rparr>) currentSessions))"

section \<open>The workspace list\<close>

record workspace_row =
  row_workspace :: workspace
  row_cwd :: "string option"
  row_active :: bool
  row_unread :: bool

definition sidebar_row :: "app_state \<Rightarrow> workspace \<Rightarrow> workspace_row" where
  "sidebar_row s wsp =
     (let wsSessions = sessions_of s (ws_id wsp);
          activeId = map_of (activeSessionByWorkspace s) (ws_id wsp);
          activeSession = (case find (\<lambda>x. Some (s_id x) = activeId) wsSessions of
              Some x \<Rightarrow> Some x
            | None \<Rightarrow> (case wsSessions of [] \<Rightarrow> None | x # _ \<Rightarrow> Some x));
          isActive = (Some (ws_id wsp) = activeWorkspaceId s)
      in \<lparr>row_workspace = wsp,
          row_cwd = (case activeSession of None \<Rightarrow> None | Some x \<Rightarrow> s_cwd x),
          row_active = isActive,
          row_unread = (\<not> isActive \<and> list_ex (\<lambda>x. sessionUnread s (s_id x)) wsSessions)\<rparr>)"

text \<open>\<open>trim\<close> on strings of Latin-1 characters.\<close>

definition js_space :: "char \<Rightarrow> bool" where
  "js_space c \<longleftrightarrow> (of_char c :: nat) \<in> {9, 10, 11, 12, 13, 32, 160}"

definition js_trim :: "string \<Rightarrow> string" where
  "js_trim s = rev (dropWhile js_space (rev (dropWhile js_space s)))"

record sidebar =
  creating :: bool
  newName :: string
  editingId :: "string option"
  editName :: string
  contextMenu :: "(string \<times> rat \<times> rat) option"

definition new_sidebar :: sidebar where
  "new_sidebar = \<lparr>creating = False, newName = [], editingId = None, editName = [], contextMenu = None\<rparr>"

text \<open>The name to ask the store for, and what follows when the request resolves.\<close>

definition handleCreate_call :: "sidebar \<Rightarrow> string option" where
  "handleCreate_call sb = (if js_trim (newName sb) \<noteq> [] then Some (js_trim (newName sb)) else None)"

definition handleCreate_done :: "sidebar \<Rightarrow> sidebar" where
  "handleCreate_done sb = sb\<lparr>newName := [], creating := False\<rparr>"

definition handleRename_call :: "sidebar \<Rightarrow> string option" where
  "handleRename_call sb = (if js_trim (editName sb) \<noteq> [] then Some (js_trim (editName sb)) else None)"

definition handleRename_done :: "sidebar \<Rightarrow> sidebar" where
  "handleRename_done sb = sb\<lparr>editingId := None\<rparr>"

definition startRename :: "string \<Rightarrow> string \<Rightarrow> sidebar \<Rightarrow> sidebar" where
  "startRename i nm sb = sb\<lparr>contextMenu := None, editingId := Some i, editName := nm\<rparr>"

definition handleContextMenu :: "string \<Rightarrow> rat \<Rightarrow> rat \<Rightarrow> sidebar \<Rightarrow> sidebar" where
  "handleContextMenu i x y sb = sb\<lparr>contextMenu := Some (i, x, y)\<rparr>"

definition menu_rename :: "workspace list \<Rightarrow> sidebar \<Rightarrow> sidebar" where
  "menu_rename wss sb =
     (case contextMenu sb of
        None \<Rightarrow> sb
      | Some (i, xy) \<Rightarrow>
          (case find (\<lambda>w. ws_id w = i) wss of
             None \<Rightarrow> sb
           | Some w \<Rightarrow> startRename (ws_id w) (ws_name w) sb))"

text \<open>The workspace to delete: the entry is only offered while there is another one.\<close>

definition menu_delete :: "workspace list \<Rightarrow> sidebar \<Rightarrow> sidebar \<times> string option" where
  "menu_delete wss sb =
     (case contextMenu sb of
        None \<Rightarrow> (sb, None)
      | Some (i, xy) \<Rightarrow> if length wss > 1 then (sb\<lparr>contextMenu := None\<rparr>, Some i) else (sb, None))"

text \<open>A press of the mouse outside the menu, and the keys and the blur of the two input fields.\<close>

definition outside_click :: "bool \<Rightarrow> sidebar \<Rightarrow> sidebar" where
  "outside_click insideMenu sb = (if contextMenu sb \<noteq> None \<and> \<not> insideMenu then sb\<lparr>contextMenu := None\<rparr> else sb)"

text \<open>
  Leaving the rename field, or Enter in it: the name to ask for, and the sidebar once that is done; without a
  request it is done at once.
\<close>

definition rename_submit :: "sidebar \<Rightarrow> string option \<times> sidebar" where
  "rename_submit sb = (handleRename_call sb, handleRename_done sb)"

definition rename_key :: "string \<Rightarrow> sidebar \<Rightarrow> string option \<times> sidebar" where
  "rename_key key sb =
     (if key = ''Enter'' then rename_submit sb
      else if key = ''Escape'' then (None, sb\<lparr>editingId := None\<rparr>)
      else (None, sb))"

definition create_key :: "string \<Rightarrow> sidebar \<Rightarrow> string option \<times> sidebar" where
  "create_key key sb =
     (if key = ''Enter'' then
        (handleCreate_call sb, if handleCreate_call sb \<noteq> None then handleCreate_done sb else sb)
      else if key = ''Escape'' then (None, sb\<lparr>creating := False, newName := []\<rparr>)
      else (None, sb))"

definition create_blur :: "sidebar \<Rightarrow> sidebar" where
  "create_blur sb = (if js_trim (newName sb) = [] then sb\<lparr>creating := False\<rparr> else sb)"

section \<open>Toasts\<close>

text \<open>
  Every render of the container passes each toast a new callback, so each toast's effect is cleaned up and
  run again: the pending dismissals are those of the last render.
\<close>

definition TOAST_DURATION_MS :: int where "TOAST_DURATION_MS = 6000"

definition toast_render :: "int \<Rightarrow> toast list \<Rightarrow> (string \<times> int) list" where
  "toast_render now ts = map (\<lambda>t. (t_id t, now + TOAST_DURATION_MS)) ts"

text \<open>The toasts whose dismissal has come by the time the next render happens.\<close>

definition toasts_due :: "int \<Rightarrow> (string \<times> int) list \<Rightarrow> string list" where
  "toasts_due now pending = map fst (filter (\<lambda>p. snd p \<le> now) pending)"

text \<open>
  A click: the workspace is switched first when the toast is from another one, which may need the
  server's session list (\<open>r\<close>, arriving before anything else happens); when that fails nothing else follows. \<open>wid\<close> is the active workspace at the last render.
\<close>

definition toast_click ::
    "(nat \<Rightarrow> nat) \<Rightarrow> string option \<Rightarrow> toast \<Rightarrow> session list response \<Rightarrow> world \<Rightarrow> world outcome" where
  "toast_click rnd wid t r w =
     (case (if Some (t_workspaceId t) \<noteq> wid
            then (case setActiveWorkspace_call rnd (t_workspaceId t) w of
                    Some w1 \<Rightarrow> Done w1
                  | None \<Rightarrow> setActiveWorkspace_response rnd (t_workspaceId t) r w)
            else Done w) of
        Throws e w1 \<Rightarrow> Throws e w1
      | Done w1 \<Rightarrow>
          (case setActiveSession (t_sessionId t) w1 of
             Throws e w2 \<Rightarrow> Throws e w2
           | Done w2 \<Rightarrow> Done (dismissToast (t_id t) w2)))"

section \<open>Uploads\<close>

record upload_view =
  uploadingName :: "string option"
  errorMsg :: "string option"
  fileDragging :: bool
  pasted :: "string list"

definition pasteToTerminal :: "bool \<Rightarrow> string \<Rightarrow> upload_view \<Rightarrow> upload_view" where
  "pasteToTerminal found txt v = (if \<not> found then v else v\<lparr>pasted := pasted v @ [txt]\<rparr>)"

text \<open>
  One round of the loop in \<open>onDrop\<close>. \<open>shown\<close> is \<open>String\<close> of the path in the reply; reading it off a reply that is
  \<open>null\<close> throws the browser's \<open>native\<close> error.
\<close>

definition upload_one ::
    "(json option \<Rightarrow> string) \<Rightarrow> string \<Rightarrow> bool \<Rightarrow> string \<times> fetch_result \<Rightarrow> upload_view \<Rightarrow> upload_view" where
  "upload_one shown native found f v0 =
     (let v = v0\<lparr>uploadingName := Some (fst f)\<rparr> in
      case uploadFile native (snd f) of
        Inl msg \<Rightarrow> v\<lparr>errorMsg := Some msg\<rparr>
      | Inr res \<Rightarrow>
          if res = JNull then v\<lparr>errorMsg := Some native\<rparr>
          else pasteToTerminal found (shown (jprop res ''path'') @ '' '') v)"

definition onDrop ::
    "(json option \<Rightarrow> string) \<Rightarrow> string \<Rightarrow> bool \<Rightarrow> string option \<Rightarrow> (string \<times> fetch_result) list \<Rightarrow> upload_view \<Rightarrow> upload_view" where
  "onDrop shown native found sessionId files v0 =
     (let v = v0\<lparr>fileDragging := False\<rparr> in
      if \<not> truthy sessionId then v
      else if files = [] then v
      else (fold (upload_one shown native found) files (v\<lparr>errorMsg := None\<rparr>))\<lparr>uploadingName := None\<rparr>)"

text \<open>Whether files are dragged; \<open>onDragStart\<close>: whether the browser's own drag is prevented, which a text selection would start.\<close>

definition isFileDrag :: "string list \<Rightarrow> bool" where
  "isFileDrag types = (''Files'' \<in> set types)"

definition onDragEnter :: "bool \<Rightarrow> upload_view \<Rightarrow> upload_view" where
  "onDragEnter isFiles v = (if \<not> isFiles then v else v\<lparr>fileDragging := True\<rparr>)"

definition onDragStart :: "bool \<Rightarrow> bool" where
  "onDragStart isFiles = (\<not> isFiles)"

definition onDragOver :: "bool \<Rightarrow> upload_view \<Rightarrow> upload_view" where
  "onDragOver isFiles v = (if \<not> isFiles then v else v\<lparr>fileDragging := True\<rparr>)"

definition onDragLeave :: "bool \<Rightarrow> upload_view \<Rightarrow> upload_view" where
  "onDragLeave intoChild v = (if intoChild then v else v\<lparr>fileDragging := False\<rparr>)"

text \<open>The overlay over a terminal another window holds.\<close>

definition useSessionOwned :: "string option \<Rightarrow> lock \<Rightarrow> bool" where
  "useSessionOwned sessionId lk = (if \<not> truthy sessionId then True else ownsSession lk (the sessionId))"

definition paused_overlay :: "string option \<Rightarrow> lock \<Rightarrow> bool" where
  "paused_overlay sessionId lk \<longleftrightarrow> truthy sessionId \<and> \<not> useSessionOwned sessionId lk"

section \<open>Keyboard input\<close>

text \<open>The labels of the arrow keys, which are arrows, are written out.\<close>

definition TOOL_KEYS :: "(string \<times> string) list" where
  "TOOL_KEYS =
     (let esc = char_of (27::nat) in
      [(''Esc'', [esc]), (''Tab'', [char_of (9::nat)]), (''^C'', [char_of (3::nat)]), (''^D'', [char_of (4::nat)]),
       (''^Z'', [char_of (26::nat)]), (''Up'', [esc, CHR ''['', CHR ''A'']), (''Down'', [esc, CHR ''['', CHR ''B'']),
       (''Left'', [esc, CHR ''['', CHR ''D'']), (''Right'', [esc, CHR ''['', CHR ''C''])])"

definition sendKey :: "string option \<Rightarrow> string \<Rightarrow> conn \<Rightarrow> conn" where
  "sendKey sessionId bytes c = (if \<not> truthy sessionId then c else fst (sendToTerminal bytes c))"

text \<open>\<open>c\<close> is the terminal of the session; the result is its new state and the text left in the box.\<close>

definition handleSend :: "string option \<Rightarrow> string \<Rightarrow> conn \<Rightarrow> conn \<times> string" where
  "handleSend sessionId txt c =
     (if \<not> truthy sessionId then (c, txt)
      else (fst (sendToTerminal (txt @ [char_of (13::nat)]) c), []))"

definition onKeyDown :: "string \<Rightarrow> bool \<Rightarrow> string option \<Rightarrow> string \<Rightarrow> conn \<Rightarrow> conn \<times> string" where
  "onKeyDown key shiftKey sessionId txt c =
     (if key = ''Enter'' \<and> \<not> shiftKey then handleSend sessionId txt c else (c, txt))"

record key_event =
  key_type :: string
  key_name :: string
  key_shift :: bool
  key_ctrl :: bool
  key_alt :: bool
  key_meta :: bool

text \<open>\<open>True\<close>: xterm handles the key itself.\<close>

definition createShiftEnterHandler :: "key_event \<Rightarrow> conn \<Rightarrow> conn \<times> bool" where
  "createShiftEnterHandler ev c =
     (if key_type ev \<noteq> ''keydown'' then (c, True)
      else if key_name ev \<noteq> ''Enter'' then (c, True)
      else if \<not> key_shift ev then (c, True)
      else if key_ctrl ev \<or> key_alt ev \<or> key_meta ev then (c, True)
      else (send_frame (Data [char_of (27::nat), char_of (13::nat)]) c, False))"

section \<open>Facts\<close>

lemma defaultLayout_lookup:
  assumes "distinct (map node_id cs)" "length sz = length cs" "k < length cs"
  shows "map_of (defaultLayout cs sz) (node_id (cs ! k)) = Some (sz ! k)"
proof -
  have "map_of (fold (\<lambda>(i, c) m. obj_put (node_id c) (nth_opt sz i) m) (enumerate 0 xs) []) (node_id (cs ! k)) =
      (if k < length xs then Some (sz ! k) else None)" if "xs @ ys = cs" for xs ys
    using that
  proof (induction xs arbitrary: ys rule: rev_induct)
    case Nil
    then show ?case by simp
  next
    case (snoc x xs)
    have len: "length xs < length cs" "cs ! length xs = x" using snoc.prems by auto
    have "node_id (cs ! k) = node_id x \<longleftrightarrow> k = length xs"
      using nth_eq_iff_index_eq [OF assms(1), of k "length xs"] assms(3) len by simp
    then show ?case
      using snoc.IH [of "x # ys"] snoc.prems len assms(2) by (auto simp: nth_opt_def enumerate_append_eq)
  qed
  from this [of cs "[]"] show ?thesis using assms(3) by (simp add: defaultLayout_def)
qed

lemma new_sizes_default:
  assumes "distinct (map node_id cs)" "length sz = length cs"
  shows "new_sizes (defaultLayout cs sz) cs = sz"
  by (rule nth_equalityI) (simp_all add: new_sizes_def assms defaultLayout_lookup [OF assms])

lemma list_ex_enumerate: "list_ex (\<lambda>(k, s). P k s) (enumerate 0 xs) \<longleftrightarrow> (\<exists>i < length xs. P i (xs ! i))"
proof
  assume "list_ex (\<lambda>(k, s). P k s) (enumerate 0 xs)"
  then obtain p where "p \<in> set (enumerate 0 xs)" "P (fst p) (snd p)" unfolding list_ex_iff by (auto simp: split_def)
  then show "\<exists>i < length xs. P i (xs ! i)" unfolding in_set_enumerate_eq by auto
next
  assume "\<exists>i < length xs. P i (xs ! i)"
  then obtain i where i: "i < length xs" "P i (xs ! i)" by blast
  then have "(i, xs ! i) \<in> set (enumerate 0 xs)" unfolding in_set_enumerate_eq by simp
  then show "list_ex (\<lambda>(k, s). P k s) (enumerate 0 xs)" using i(2) unfolding list_ex_iff by (intro bexI) simp_all
qed

lemma sizes_differ_iff:
  "length xs = length sz \<Longrightarrow> list_ex (\<lambda>(k, s). nth_opt sz k \<noteq> Some s) (enumerate 0 xs) \<longleftrightarrow> xs \<noteq> sz"
proof -
  assume len: "length xs = length sz"
  have "list_ex (\<lambda>(k, s). nth_opt sz k \<noteq> Some s) (enumerate 0 xs) \<longleftrightarrow> (\<exists>i < length xs. nth_opt sz i \<noteq> Some (xs ! i))"
    by (rule list_ex_enumerate)
  also have "\<dots> \<longleftrightarrow> (\<exists>i < length xs. xs ! i \<noteq> sz ! i)"
    using len by (metis nth_opt_def option.inject)
  also have "\<dots> \<longleftrightarrow> xs \<noteq> sz" using len list_eq_iff_nth_eq by blast
  finally show ?thesis .
qed

lemma length_new_sizes [simp]: "length (new_sizes next cs) = length cs"
  by (simp add: new_sizes_def)

lemma handleLayoutChanged_eq:
  "length sz = length cs \<Longrightarrow> handleLayoutChanged next (PSplit i d sz cs) w =
     (if new_sizes next cs = sz then w else resizeSplit i (new_sizes next cs) w)"
  by (simp add: sizes_differ_iff)

lemma create_key_named: "create_key key sb = (Some nm, sb') \<Longrightarrow> nm \<noteq> [] \<and> newName sb' = []"
  by (auto simp: create_key_def handleCreate_call_def handleCreate_done_def split: if_splits)

lemma zone_total: "0 \<le> x \<Longrightarrow> x \<le> 1 \<Longrightarrow> 0 \<le> y \<Longrightarrow> y \<le> 1 \<Longrightarrow> \<exists>z. in_zone z x y"
proof -
  assume a: "0 \<le> x" "x \<le> 1" "0 \<le> y" "y \<le> 1"
  have "in_zone TopZone x y \<or> in_zone BottomZone x y \<or> in_zone LeftZone x y \<or> in_zone RightZone x y \<or> in_zone CenterZone x y"
    using a by (simp add: in_zone_def) linarith
  then show ?thesis by blast
qed

lemma in_zone_simps:
  "in_zone TopZone x y \<longleftrightarrow> 0 \<le> x \<and> x \<le> 1 \<and> 0 \<le> y \<and> y \<le> 1/4"
  "in_zone BottomZone x y \<longleftrightarrow> 0 \<le> x \<and> x \<le> 1 \<and> 3/4 \<le> y \<and> y \<le> 1"
  "in_zone LeftZone x y \<longleftrightarrow> 0 \<le> x \<and> x \<le> 1/4 \<and> 1/4 \<le> y \<and> y \<le> 3/4"
  "in_zone RightZone x y \<longleftrightarrow> 3/4 \<le> x \<and> x \<le> 1 \<and> 1/4 \<le> y \<and> y \<le> 3/4"
  "in_zone CenterZone x y \<longleftrightarrow> 1/4 \<le> x \<and> x \<le> 3/4 \<and> 1/4 \<le> y \<and> y \<le> 3/4"
  by (auto simp: in_zone_def)

lemma classify_center: "1/4 \<le> x \<Longrightarrow> x \<le> 3/4 \<Longrightarrow> 1/4 \<le> y \<Longrightarrow> y \<le> 3/4 \<Longrightarrow> classifyDropZone x y = CenterZone"
  by (simp add: classifyDropZone_def)

lemma classify_top: "y < 1/4 \<Longrightarrow> 1/4 < x \<Longrightarrow> x < 3/4 \<Longrightarrow> classifyDropZone x y = TopZone"
  by (simp add: classifyDropZone_def Let_def min_def)

lemma classify_bottom: "3/4 < y \<Longrightarrow> 1/4 < x \<Longrightarrow> x < 3/4 \<Longrightarrow> classifyDropZone x y = BottomZone"
  by (simp add: classifyDropZone_def Let_def min_def)

lemma classify_left: "x < 1/4 \<Longrightarrow> 1/4 < y \<Longrightarrow> y < 3/4 \<Longrightarrow> classifyDropZone x y = LeftZone"
  by (simp add: classifyDropZone_def Let_def min_def)

lemma classify_right: "3/4 < x \<Longrightarrow> 1/4 < y \<Longrightarrow> y < 3/4 \<Longrightarrow> classifyDropZone x y = RightZone"
  by (simp add: classifyDropZone_def Let_def min_def)

lemma in_middle_zone:
  assumes "0 \<le> x" "x \<le> 1" "0 \<le> y" "y \<le> 1" "x \<noteq> 1/4" "x \<noteq> 3/4" "y \<noteq> 1/4" "y \<noteq> 3/4"
    and "1/4 < x \<and> x < 3/4 \<or> 1/4 < y \<and> y < 3/4"
  shows "in_zone z x y \<longleftrightarrow> classifyDropZone x y = z"
proof -
  consider "1/4 < x" "x < 3/4" "1/4 < y" "y < 3/4" | "y < 1/4" "1/4 < x" "x < 3/4" | "3/4 < y" "1/4 < x" "x < 3/4"
    | "x < 1/4" "1/4 < y" "y < 3/4" | "3/4 < x" "1/4 < y" "y < 3/4"
    using assms(5-) by linarith
  then show ?thesis
    using assms(1-4) by cases (cases z; simp add: in_zone_simps classify_center classify_top classify_bottom classify_left classify_right)+
qed

lemma in_corner_zone:
  assumes "0 \<le> x" "x \<le> 1" "0 \<le> y" "y \<le> 1" "x \<noteq> 1/4" "x \<noteq> 3/4" "y \<noteq> 1/4" "y \<noteq> 3/4"
    and "\<not> (1/4 < x \<and> x < 3/4)" "\<not> (1/4 < y \<and> y < 3/4)"
  shows "in_zone z x y \<longleftrightarrow> z = (if y < 1/2 then TopZone else BottomZone)"
  using assms by (cases z) (auto simp: in_zone_simps)

lemma toasts_never_due:
  "now' < now + TOAST_DURATION_MS \<Longrightarrow> toasts_due now' (toast_render now ts) = []"
  by (auto simp: toasts_due_def toast_render_def filter_empty_conv)

lemma toast_switch:
  assumes "store_ok (app w)" "t_workspaceId t \<noteq> []" "r = Resolved sess"
    and "Some (t_workspaceId t) = activeWorkspaceId (app w) \<Longrightarrow> active_layout (app w) \<noteq> None"
  obtains w1 t1 where "store_ok (app w1)" "active_layout (app w1) = Some (t_workspaceId t, t1)"
    "toast_click rnd (activeWorkspaceId (app w)) t r w =
      (case setActiveSession (t_sessionId t) w1 of
         Throws e w2 \<Rightarrow> Throws e w2 | Done w2 \<Rightarrow> Done (dismissToast (t_id t) w2))"
proof (cases "Some (t_workspaceId t) = activeWorkspaceId (app w)")
  case True
  then obtain wid t1 where "active_layout (app w) = Some (wid, t1)" using assms(4) by auto
  moreover have "wid = t_workspaceId t" using active_layoutD [OF calculation] True by simp
  ultimately show thesis using that [OF assms(1)] True by (simp add: toast_click_def)
next
  case False
  obtain xs where xs: "toast_click rnd (activeWorkspaceId (app w)) t r w =
      (case setActiveSession (t_sessionId t) (setActiveWorkspace_finish rnd (t_workspaceId t) xs w) of
         Throws e w2 \<Rightarrow> Throws e w2 | Done w2 \<Rightarrow> Done (dismissToast (t_id t) w2))"
    using False assms(3)
    by (cases "map_of (sessions (app w)) (t_workspaceId t)")
      (simp_all add: toast_click_def setActiveWorkspace_call_def setActiveWorkspace_response_def)
  have "\<exists>t1. active_layout (app (setActiveWorkspace_finish rnd (t_workspaceId t) xs w)) = Some (t_workspaceId t, t1)"
    using assms(2) by (auto simp: setActiveWorkspace_finish_def active_layout_def layout_of_def Let_def split: prod.split)
  then show thesis using that [OF store_ok_setActiveWorkspace [OF assms(1)] _ xs] by blast
qed

lemma dismissToast_keeps [simp]:
  "activeWorkspaceId (app (dismissToast i w)) = activeWorkspaceId (app w)"
  "activeSessionId (app (dismissToast i w)) = activeSessionId (app w)"
  "layout_of (app (dismissToast i w)) = layout_of (app w)" "focus_of (app (dismissToast i w)) = focus_of (app w)"
  "sessionUnread (app (dismissToast i w)) = sessionUnread (app w)"
  "set (toasts (app (dismissToast i w))) \<subseteq> set (toasts (app w))"
  by (auto simp: dismissToast_def with_app_def layout_of_def focus_of_def sessionUnread_def fun_eq_iff)

lemma sendToTerminal_eq:
  "cached c \<Longrightarrow> inst_ws c = Some h \<Longrightarrow> socks c h = SOpen \<Longrightarrow>
   sendToTerminal txt c = (c\<lparr>outbox := outbox c @ [(h, Data txt)]\<rparr>, True)"
  by (simp add: sendToTerminal_def wsState_def send_frame_open)

lemma sendToTerminal_closed: "\<not> cached c \<or> wsState c \<noteq> Some SOpen \<Longrightarrow> sendToTerminal txt c = (c, False)"
  by (auto simp: sendToTerminal_def)

text \<open>The outcome of a list of uploads, one by one.\<close>

definition upload_ok :: "fetch_result \<Rightarrow> json option" where
  "upload_ok r = (case uploadFile [] r of Inl m \<Rightarrow> None | Inr v \<Rightarrow> if v = JNull then None else Some v)"

definition upload_error :: "string \<Rightarrow> fetch_result \<Rightarrow> string" where
  "upload_error native r = (case uploadFile native r of Inl m \<Rightarrow> m | Inr v \<Rightarrow> native)"

lemma upload_one_eq:
  "upload_one shown native found f v =
     (case upload_ok (snd f) of
        None \<Rightarrow> v\<lparr>uploadingName := Some (fst f), errorMsg := Some (upload_error native (snd f))\<rparr>
      | Some x \<Rightarrow> v\<lparr>uploadingName := Some (fst f),
          pasted := pasted v @ (if found then [shown (jprop x ''path'') @ '' ''] else [])\<rparr>)"
  by (auto simp: upload_one_def upload_ok_def upload_error_def uploadFile_def pasteToTerminal_def Let_def
      split: fetch_result.splits option.splits sum.splits if_splits)

lemma upload_loop:
  "fold (upload_one shown native found) files v =
   v\<lparr>uploadingName := (if files = [] then uploadingName v else Some (fst (last files))),
     errorMsg := (case filter (\<lambda>f. upload_ok (snd f) = None) files of [] \<Rightarrow> errorMsg v
        | fs \<Rightarrow> Some (upload_error native (snd (last fs)))),
     pasted := pasted v @ (if found then map (\<lambda>x. shown (jprop x ''path'') @ '' '')
        (List.map_filter (\<lambda>f. upload_ok (snd f)) files) else [])\<rparr>"
  by (induction files arbitrary: v)
    (auto simp: upload_one_eq map_filter_simps split: option.splits list.splits)

end
