(* ===== verification/AppShell.thy ===== *)
theory AppShell
  imports ApiClient Theming
begin

text \<open>
  \<open>frontend/src/App.tsx\<close> outside its drop handler, \<open>components/Auth/LoginForm.tsx\<close> and
  \<open>hooks/useMediaQuery.ts\<close>: what is shown before and after the log-in, the permission banner and the
  width of the sidebar. A component's \<open>useState\<close> and \<open>useRef\<close> cells are the fields of a record; an
  asynchronous callback is split at its \<open>await\<close>s and takes the replies. React's rendering is reduced to
  which of the screens is returned.
\<close>

section \<open>Media queries\<close>

text \<open>\<open>None\<close>: the environment has no \<open>matchMedia\<close>. The hook reads once, reads again when mounted and then listens.\<close>

definition read_query :: "bool option \<Rightarrow> bool" where
  "read_query mq = (case mq of None \<Rightarrow> False | Some b \<Rightarrow> b)"

definition mount_query :: "bool option \<Rightarrow> bool \<Rightarrow> bool" where
  "mount_query mq matches = (case mq of None \<Rightarrow> matches | Some b \<Rightarrow> b)"

definition useMediaQuery :: "bool option \<Rightarrow> bool list \<Rightarrow> bool" where
  "useMediaQuery mq changes =
     (case mq of None \<Rightarrow> read_query mq | Some b \<Rightarrow> fold (\<lambda>m _. m) changes (mount_query mq (read_query mq)))"

section \<open>Signing in\<close>

datatype auth_state = AuthLoading | NeedsSetup | NeedsLogin | Authenticated

definition dismiss_key :: string where
  "dismiss_key = ''mansio.permissionBannerDismissed''"

record shell =
  authState :: auth_state
  permWarning :: "json option"
  permChecking :: bool
  permDismissed :: bool
  sidebarWidth :: rat
  mobileSidebarOpen :: bool
  dragging :: bool
  rafPending :: bool
  latestX :: rat
  draggingTab :: "(string \<times> string) option"
  localItems :: storage

definition read_dismissed :: "storage \<Rightarrow> bool" where
  "read_dismissed st = (case st of Working f m \<Rightarrow> map_of m dismiss_key = Some ''1'' | _ \<Rightarrow> False)"

definition new_shell :: "storage \<Rightarrow> shell" where
  "new_shell st = \<lparr>authState = AuthLoading, permWarning = None, permChecking = False,
     permDismissed = read_dismissed st, sidebarWidth = 220, mobileSidebarOpen = False, dragging = False,
     rafPending = False, latestX = 0, draggingTab = None, localItems = st\<rparr>"

text \<open>
  \<open>checkAuth\<close> has no handler: when a request or a body is rejected, or the body is \<open>null\<close>, the state
  stays as it is. The second reply is that of the workspace list and is only asked for when no setup is needed.
\<close>

definition checkAuth :: "fetch_result \<Rightarrow> fetch_result \<Rightarrow> shell \<Rightarrow> shell" where
  "checkAuth res testRes sh =
     (case request res of
        None \<Rightarrow> sh
      | Some data \<Rightarrow>
          if data = JNull then sh
          else if (case jprop data ''needsSetup'' of None \<Rightarrow> False | Some v \<Rightarrow> json_truthy v)
          then sh\<lparr>authState := NeedsSetup\<rparr>
          else (case testRes of
                  NetworkError \<Rightarrow> sh
                | Response st body \<Rightarrow>
                    if st = 401 then sh\<lparr>authState := NeedsLogin\<rparr> else sh\<lparr>authState := Authenticated\<rparr>))"

record login_form =
  password :: string
  login_error :: string
  login_loading :: bool

definition new_login :: login_form where
  "new_login = \<lparr>password = [], login_error = [], login_loading = False\<rparr>"

definition setPassword :: "string \<Rightarrow> login_form \<Rightarrow> login_form" where
  "setPassword p lf = lf\<lparr>password := p\<rparr>"

text \<open>The submit button, and \<open>handleSubmit\<close> up to its request (\<open>None\<close>: no request).\<close>

definition submit_disabled :: "login_form \<Rightarrow> bool" where
  "submit_disabled lf \<longleftrightarrow> login_loading lf \<or> password lf = []"

definition handleSubmit :: "bool \<Rightarrow> login_form \<Rightarrow> login_form \<times> api_call option" where
  "handleSubmit needsSetup lf =
     (if password lf = [] then (lf, None)
      else (lf\<lparr>login_loading := True, login_error := []\<rparr>,
        Some \<lparr>call_path = (if needsSetup then ''/api/v1/auth/setup'' else ''/api/v1/auth/login''),
          call_method = POST, call_body = Some (JObject [(''password'', JString (password lf))])\<rparr>))"

text \<open>
  The rest of it: whether \<open>onSuccess\<close> runs, and the form. Without a reply, or with an error reply that
  has no JSON body, the promise rejects before \<open>loading\<close> is reset. The error text is \<open>data.error\<close> when that is truthy;
  the server sends a string there.
\<close>

definition submit_reply :: "fetch_result \<Rightarrow> login_form \<Rightarrow> login_form \<times> bool" where
  "submit_reply res lf =
     (case res of
        NetworkError \<Rightarrow> (lf, False)
      | Response st body \<Rightarrow>
          if res_ok res then (lf\<lparr>login_loading := False\<rparr>, True)
          else (case body of
                  None \<Rightarrow> (lf, False)
                | Some data \<Rightarrow>
                    if data = JNull then (lf, False)
                    else (lf\<lparr>login_error :=
                            (case jprop data ''error'' of
                               Some (JString e) \<Rightarrow> if e \<noteq> [] then e else ''Authentication failed''
                             | _ \<Rightarrow> ''Authentication failed''),
                          login_loading := False\<rparr>, False)))"

definition onSuccess :: "shell \<Rightarrow> shell" where
  "onSuccess sh = sh\<lparr>authState := Authenticated\<rparr>"

datatype screen = StartingScreen | LoginScreen bool | LoadingScreen | MainScreen

definition app_screen :: "bool \<Rightarrow> shell \<Rightarrow> screen" where
  "app_screen initialised sh =
     (if authState sh = AuthLoading then StartingScreen
      else if authState sh = NeedsSetup \<or> authState sh = NeedsLogin then LoginScreen (authState sh = NeedsSetup)
      else if \<not> initialised then LoadingScreen
      else MainScreen)"

text \<open>Whether the effect that loads the workspaces runs.\<close>

definition starts_init :: "bool \<Rightarrow> shell \<Rightarrow> bool" where
  "starts_init initialised sh \<longleftrightarrow> authState sh = Authenticated \<and> \<not> initialised"

section \<open>The permission banner\<close>

definition checkPermissions_call :: "shell \<Rightarrow> shell" where
  "checkPermissions_call sh = sh\<lparr>permChecking := True\<rparr>"

definition remove_item :: "string \<Rightarrow> storage \<Rightarrow> storage" where
  "remove_item k st = (case st of Working f m \<Rightarrow> Working f (obj_del k m) | _ \<Rightarrow> st)"

definition set_item :: "string \<Rightarrow> string \<Rightarrow> storage \<Rightarrow> storage" where
  "set_item k v st =
     (case st of Working f m \<Rightarrow> if f then Working f m else Working f (obj_set k v m) | _ \<Rightarrow> st)"

definition permission_message :: "json \<Rightarrow> json option" where
  "permission_message data =
     (if jprop data ''permissions'' = Some (JBool False)
         \<and> (case jprop data ''permissionMessage'' of None \<Rightarrow> False | Some v \<Rightarrow> json_truthy v)
      then jprop data ''permissionMessage'' else None)"

definition checkPermissions_reply :: "fetch_result \<Rightarrow> shell \<Rightarrow> shell" where
  "checkPermissions_reply res sh =
     (let sh1 = (case request res of
          None \<Rightarrow> sh
        | Some data \<Rightarrow>
            if data = JNull then sh
            else (case permission_message data of
                    Some msg \<Rightarrow> sh\<lparr>permWarning := Some msg\<rparr>
                  | None \<Rightarrow> sh\<lparr>permWarning := None, localItems := remove_item dismiss_key (localItems sh),
                      permDismissed := False\<rparr>))
      in sh1\<lparr>permChecking := False\<rparr>)"

definition dismissPermBanner :: "shell \<Rightarrow> shell" where
  "dismissPermBanner sh = sh\<lparr>localItems := set_item dismiss_key ''1'' (localItems sh), permDismissed := True\<rparr>"

definition showPermBanner :: "shell \<Rightarrow> bool" where
  "showPermBanner sh \<longleftrightarrow>
     (case permWarning sh of None \<Rightarrow> False | Some v \<Rightarrow> json_truthy v) \<and> \<not> permDismissed sh"

section \<open>The sidebar\<close>

definition onMenuClick :: "shell \<Rightarrow> shell" where
  "onMenuClick sh = sh\<lparr>mobileSidebarOpen := True\<rparr>"

definition closeMobileSidebar :: "shell \<Rightarrow> shell" where
  "closeMobileSidebar sh = sh\<lparr>mobileSidebarOpen := False\<rparr>"

definition mobile_changed :: "bool \<Rightarrow> shell \<Rightarrow> shell" where
  "mobile_changed isMobile sh = (if \<not> isMobile then sh\<lparr>mobileSidebarOpen := False\<rparr> else sh)"

definition onMouseDown :: "shell \<Rightarrow> shell" where
  "onMouseDown sh = sh\<lparr>dragging := True\<rparr>"

definition handleMouseMove :: "rat \<Rightarrow> shell \<Rightarrow> shell" where
  "handleMouseMove x sh =
     (if \<not> dragging sh then sh
      else let sh1 = sh\<lparr>latestX := x\<rparr>
           in if \<not> rafPending sh1 then sh1\<lparr>rafPending := True\<rparr> else sh1)"

definition animation_frame :: "shell \<Rightarrow> shell" where
  "animation_frame sh =
     (if \<not> rafPending sh then sh
      else sh\<lparr>sidebarWidth := max 140 (min 400 (latestX sh)), rafPending := False\<rparr>)"

definition onMouseUp :: "shell \<Rightarrow> shell" where
  "onMouseUp sh = (let sh1 = sh\<lparr>dragging := False\<rparr> in if rafPending sh1 then sh1\<lparr>rafPending := False\<rparr> else sh1)"

definition sidebarPanelWidth :: "bool \<Rightarrow> rat \<Rightarrow> shell \<Rightarrow> rat" where
  "sidebarPanelWidth isMobile innerWidth sh = (if isMobile then min 280 (innerWidth - 56) else sidebarWidth sh)"

definition handleDragStart :: "string option \<Rightarrow> string option \<Rightarrow> string option \<Rightarrow> shell \<Rightarrow> shell" where
  "handleDragStart ty sid title sh =
     (if ty = Some ''tab'' \<and> truthy sid
      then sh\<lparr>draggingTab := Some (the sid, case title of None \<Rightarrow> [] | Some t \<Rightarrow> t)\<rparr> else sh)"

section \<open>Steps\<close>

datatype shell_event =
    CheckAuth fetch_result fetch_result
  | LoggedIn
  | PermissionReply fetch_result
  | CheckPermissions
  | DismissBanner
  | MenuClick
  | CloseSidebar
  | MobileChanged bool
  | MouseDown
  | MouseMove rat
  | AnimationFrame
  | MouseUp
  | DragStart "string option" "string option" "string option"

fun shell_event_step :: "shell_event \<Rightarrow> shell \<Rightarrow> shell" where
  "shell_event_step (CheckAuth r t) sh = checkAuth r t sh"
| "shell_event_step LoggedIn sh = onSuccess sh"
| "shell_event_step (PermissionReply r) sh = checkPermissions_reply r sh"
| "shell_event_step CheckPermissions sh = checkPermissions_call sh"
| "shell_event_step DismissBanner sh = dismissPermBanner sh"
| "shell_event_step MenuClick sh = onMenuClick sh"
| "shell_event_step CloseSidebar sh = closeMobileSidebar sh"
| "shell_event_step (MobileChanged b) sh = mobile_changed b sh"
| "shell_event_step MouseDown sh = onMouseDown sh"
| "shell_event_step (MouseMove x) sh = handleMouseMove x sh"
| "shell_event_step AnimationFrame sh = animation_frame sh"
| "shell_event_step MouseUp sh = onMouseUp sh"
| "shell_event_step (DragStart a b c) sh = handleDragStart a b c sh"

definition shell_step :: "shell \<Rightarrow> shell \<Rightarrow> bool" where
  "shell_step sh sh' \<longleftrightarrow> (\<exists>e. sh' = shell_event_step e sh)"

definition shell_start :: "shell \<Rightarrow> bool" where
  "shell_start sh \<longleftrightarrow> (\<exists>st. sh = new_shell st)"

text \<open>
  The dismissal is remembered: while the banner is dismissed the storage says so, unless it refuses
  writes, and a frame is only requested during a drag.
\<close>

definition shell_ok :: "shell \<Rightarrow> bool" where
  "shell_ok sh \<longleftrightarrow> 140 \<le> sidebarWidth sh \<and> sidebarWidth sh \<le> 400 \<and> (rafPending sh \<longrightarrow> dragging sh) \<and>
     (case localItems sh of
        Working f m \<Rightarrow> \<not> f \<longrightarrow> (permDismissed sh \<longleftrightarrow> map_of m dismiss_key = Some ''1'')
      | _ \<Rightarrow> True)"

lemmas shell_defs = checkAuth_def onSuccess_def checkPermissions_reply_def checkPermissions_call_def
  dismissPermBanner_def onMenuClick_def closeMobileSidebar_def mobile_changed_def onMouseDown_def
  handleMouseMove_def animation_frame_def onMouseUp_def handleDragStart_def remove_item_def set_item_def Let_def

lemma shell_ok_start: "shell_start sh \<Longrightarrow> shell_ok sh"
proof -
  assume "shell_start sh"
  then obtain st where "sh = new_shell st" by (auto simp: shell_start_def)
  then show ?thesis by (cases st) (simp_all add: new_shell_def shell_ok_def read_dismissed_def)
qed

lemma shell_ok_event: "shell_ok sh \<Longrightarrow> shell_ok (shell_event_step e sh)"
  by (cases e) (auto simp: shell_defs shell_ok_def split: option.splits fetch_result.splits storage.splits)

interpretation shell: invariant_system shell_start shell_step shell_ok
  by unfold_locales (auto simp: shell_step_def shell_ok_start shell_ok_event)

section \<open>Facts\<close>

lemma checkAuth_authenticated:
  assumes "authState sh = AuthLoading"
  shows "authState (checkAuth res testRes sh) = Authenticated \<longleftrightarrow>
    (\<exists>data st body. request res = Some data \<and> data \<noteq> JNull \<and>
      \<not> (\<exists>v. jprop data ''needsSetup'' = Some v \<and> json_truthy v) \<and> testRes = Response st body \<and> st \<noteq> 401)"
  using assms by (auto simp: checkAuth_def split: option.splits fetch_result.splits)

lemma checkAuth_stuck:
  "request res = None \<or> testRes = NetworkError \<Longrightarrow> authState sh = AuthLoading \<Longrightarrow>
   app_screen i (checkAuth res testRes sh) = StartingScreen \<or> authState (checkAuth res testRes sh) = NeedsSetup"
  by (auto simp: checkAuth_def app_screen_def split: option.splits)

lemma media_query_last: "useMediaQuery (Some b) changes = (if changes = [] then b else last changes)"
  by (induction changes rule: rev_induct) (simp_all add: useMediaQuery_def mount_query_def)

end
