(* ===== verification/Attachment.thy ===== *)
theory Attachment
  imports LockProgress Terminal
begin

text \<open>
  The session lock (\<open>lib/sessionLock.ts\<close>) and the terminals (\<open>hooks/useTerminal.ts\<close>) together, for one session in
  any number of windows: what a window's lock decides reaches its terminal through the listener \<open>useTerminal.ts\<close>
  registers, and mounting a terminal claims the session. Together they promise that one window at a time is attached.
  A terminal that is disposed and sockets seen half closed are left out of these runs.
\<close>

section \<open>Windows with a terminal each\<close>

record attachment =
  locks :: lock_system
  terms :: "string \<Rightarrow> conn"

definition no_attachment :: "attachment \<Rightarrow> bool" where
  "no_attachment s \<longleftrightarrow> no_windows (locks s) \<and> (\<forall>w. terms s w = new_conn)"

text \<open>Every open window's listener runs when its verdict changes; a closed window's connections are gone.\<close>

definition follow :: "string \<Rightarrow> lock_system \<Rightarrow> (string \<Rightarrow> conn) \<Rightarrow> string \<Rightarrow> conn" where
  "follow sid sys ts w =
     (case windows sys w of
        None \<Rightarrow> new_conn
      | Some lk \<Rightarrow> if owns (ts w) = ownsSession lk sid then ts w else ownership_changed (ownsSession lk sid) (ts w))"

text \<open>
  The verdict changes calmly: it is lost with no ticket request in flight, and given back once the sockets of the
  time before are closed. Without this two sockets can be open, see \<open>lose_session_race\<close>.
\<close>

definition calm_change :: "conn \<Rightarrow> bool \<Rightarrow> bool" where
  "calm_change c b \<longleftrightarrow> (owns c \<and> \<not> b \<longrightarrow> requests c = 0) \<and> (\<not> owns c \<and> b \<longrightarrow> (\<forall>h. socks c h = SClosed))"

text \<open>Events of a terminal that neither mount nor dispose it nor come from the lock.\<close>

fun internal :: "event \<Rightarrow> bool" where
  "internal (Mount b) = False"
| "internal (OwnershipChanged b) = False"
| "internal Dispose = False"
| "internal (Closing h) = False"
| "internal _ = True"

inductive attach_step :: "string \<Rightarrow> attachment \<Rightarrow> attachment \<Rightarrow> bool" for sid where
  lock: "lock_step (locks s) sys \<Longrightarrow>
     (\<And>w lk. windows sys w = Some lk \<Longrightarrow> calm_change (terms s w) (ownsSession lk sid)) \<Longrightarrow>
     attach_step sid s \<lparr>locks = sys, terms = follow sid sys (terms s)\<rparr>"
| mount: "windows (locks s) w = Some lk \<Longrightarrow> claimSession sid lk = e \<Longrightarrow>
     calm_change (terms s w) (ownsSession (fst e) sid) \<Longrightarrow>
     attach_step sid s \<lparr>locks = run_window w e (locks s),
       terms = (terms s)(w := mount_terminal (ownsSession (fst e) sid) (terms s w))\<rparr>"
| terminal: "windows (locks s) w \<noteq> None \<Longrightarrow> enabled ev (terms s w) \<Longrightarrow> internal ev \<Longrightarrow>
     attach_step sid s (s\<lparr>terms := (terms s)(w := handle_event ev (terms s w))\<rparr>)"

section \<open>One terminal\<close>

definition calm_ok :: "conn \<Rightarrow> bool" where
  "calm_ok c \<longleftrightarrow> reconnect_ok c \<and>
     (if owns c then steady_ok c else paused c \<and> inst_ws c = None \<and> \<not> connecting c)"

lemma calm_new: "calm_ok new_conn"
  by (simp add: calm_ok_def reconnect_ok_def new_conn_def paused_def live_def)

lemma request_own [simp]: "owns (ticket_reply r res c) = owns c"
  by (cases "requestWebSocketTicket res") (simp_all add: ticket_reply_def ticket_failed_def ticket_ok_def Let_def)

lemma socket_own [simp]:
  "owns (ws_onopen h c) = owns c" "owns (ws_onerror c) = owns c" "owns (ws_onclose r h c) = owns c"
  by (simp_all add: ws_onopen_def ws_onerror_def ws_onclose_def Let_def)

lemma attached_own [simp]:
  "owns (ws_attached d c) = owns c" "inst_ws (ws_attached d c) = inst_ws c" "connecting (ws_attached d c) = connecting c"
  by (cases d; simp add: ws_attached_def Let_def split: prod.split)+

lemma timer_own [simp]:
  "owns (reconnect_fires t c) = owns c" "owns (resize_observed d c) = owns c" "owns (resize_fires t d c) = owns c"
  by (auto simp: reconnect_fires_def resize_observed_def resize_fires_def Let_def)

lemma input_own [simp]:
  "owns (compositionend x now c) = owns c" "owns (onData x now c) = owns c" "owns (fst (sendToTerminal x c)) = owns c"
  by (auto simp: compositionend_def onData_def sendToTerminal_def Let_def)

fun_cases internalE: "internal ev"

lemma internal_owns: "internal ev \<Longrightarrow> owns (handle_event ev c) = owns c"
  by (erule internalE) (simp_all add: unmount_terminal_def compositionstart_def)

lemma internal_kinds: "internal ev \<Longrightarrow> steady ev \<and> elsewhere ev"
  by (erule internalE) simp_all

lemma input_idle [simp]:
  "inst_ws (resize_observed d c) = inst_ws c" "connecting (resize_observed d c) = connecting c"
  "inst_ws (resize_fires t d c) = inst_ws c" "connecting (resize_fires t d c) = connecting c"
  "inst_ws (compositionend x now c) = inst_ws c" "connecting (compositionend x now c) = connecting c"
  "inst_ws (onData x now c) = inst_ws c" "connecting (onData x now c) = connecting c"
  "inst_ws (fst (sendToTerminal x c)) = inst_ws c" "connecting (fst (sendToTerminal x c)) = connecting c"
  by (simp_all add: resize_observed_def resize_fires_def compositionend_def onData_def sendToTerminal_def Let_def)

lemma paused_idle:
  assumes "internal ev" "enabled ev c" "paused c" "inst_ws c = None" "\<not> connecting c"
  shows "inst_ws (handle_event ev c) = None \<and> \<not> connecting (handle_event ev c)"
proof -
  have dead: "socks c h \<noteq> SConnecting" "requests c = 0" "reconnects c = []" "\<not> owns c" for h
    using assms(3) by (auto simp: paused_def live_def)
  show ?thesis
  proof (cases ev)
    case (TicketReply r res)
    then show ?thesis using assms(2) dead(2) by simp
  next
    case (Opened h)
    then show ?thesis using assms(2) dead(1) by simp
  next
    case (Failed r h)
    then show ?thesis using assms(2) dead(1) by simp
  next
    case (ReconnectFires t)
    then show ?thesis using assms(2) dead(3) by simp
  next
    case (ClosedBy r h)
    then show ?thesis using assms(4) dead(4) by (simp add: ws_onclose_def)
  qed (use assms(1,4,5) in \<open>simp_all add: unmount_terminal_def compositionstart_def\<close>)
qed

lemma calm_internal:
  assumes "calm_ok c" "enabled ev c" "internal ev"
  shows "calm_ok (handle_event ev c)"
proof -
  have step: "term_step c (handle_event ev c)" "steady_step c (handle_event ev c)" "elsewhere_step c (handle_event ev c)"
    unfolding term_step_def steady_step_def elsewhere_step_def using assms(2) internal_kinds [OF assms(3)] by blast+
  have "reconnect_ok (handle_event ev c)" using reconnect_ok_step [OF step(1)] assms(1) by (simp add: calm_ok_def)
  moreover have "steady_ok (handle_event ev c)" if "owns c"
    using steady_ok_step [OF step(2)] assms(1) that by (simp add: calm_ok_def)
  moreover have "paused (handle_event ev c)" if "\<not> owns c"
    using paused_step [OF step(3)] assms(1) that by (simp add: calm_ok_def)
  moreover have "inst_ws (handle_event ev c) = None \<and> \<not> connecting (handle_event ev c)" if "\<not> owns c"
    using that assms by (intro paused_idle) (auto simp: calm_ok_def)
  ultimately show ?thesis using internal_owns [OF assms(3), of c] by (simp add: calm_ok_def)
qed

lemma calm_loss:
  assumes "calm_ok c" "owns c" "requests c = 0"
  shows "calm_ok (ownership_changed False c) \<and> \<not> owns (ownership_changed False c)"
proof (cases "cached c")
  case True
  have ok: "steady_ok c" "reconnect_ok c" using assms by (auto simp: calm_ok_def)
  have "\<not> owns (ownership_changed False c) \<and> \<not> connecting (ownership_changed False c)"
    using True by (simp add: ownership_changed_def reconcileOwnership_def Let_def split: option.split)
  then show ?thesis
    using lose_session_paused [OF ok True assms(3)] ownership_reconnect_ok [OF ok(2)] by (simp add: calm_ok_def)
next
  case False
  then have "\<forall>h. socks c h = SClosed" "inst_ws c = None" "reconnects c = []" "\<not> connecting c"
    using assms by (auto simp: calm_ok_def steady_ok_def wsState_def)
  then show ?thesis
    using False assms(3) by (simp add: ownership_changed_def calm_ok_def paused_def live_def reconnect_ok_none)
qed

lemma calm_gain:
  assumes "calm_ok c" "\<not> owns c" "\<forall>h. socks c h = SClosed"
  shows "calm_ok (ownership_changed True c)" "owns (ownership_changed True c)"
    "cached c \<longrightarrow> inst_ws (ownership_changed True c) = None \<and> connecting (ownership_changed True c)"
proof -
  have c: "requests c = 0" "reconnects c = []" "inst_ws c = None" "\<not> connecting c" "reconnect_ok c"
    using assms by (auto simp: calm_ok_def paused_def)
  have eq: "ownership_changed True c =
      (if cached c then c\<lparr>owns := True, connecting := True, requests := 1\<rparr> else c\<lparr>owns := True\<rparr>)"
    using c by (simp add: ownership_changed_def reconcileOwnership_def connectWebSocket_def wsState_def Let_def)
  show "calm_ok (ownership_changed True c)" "owns (ownership_changed True c)"
    using c assms(3) by (auto simp: eq calm_ok_def steady_ok_def wsState_def reconnect_ok_def)
  show "cached c \<longrightarrow> inst_ws (ownership_changed True c) = None \<and> connecting (ownership_changed True c)"
    using c by (simp add: eq)
qed

lemma calm_verdict:
  assumes "calm_ok c" "calm_change c b"
  shows "calm_ok (if owns c = b then c else ownership_changed b c)" "owns (if owns c = b then c else ownership_changed b c) = b"
  using assms calm_loss [of c] calm_gain [of c] by (cases b; auto simp: calm_change_def)+

lemma calm_connect:
  assumes "calm_ok c" "owns c" "cached c"
  shows "calm_ok (connectWebSocket c)"
proof -
  have "steady_ok c" "reconnect_ok c" using assms(1,2) by (simp_all add: calm_ok_def)
  moreover have "steady_ok (connectWebSocket c)"
    using connect_steady(1) [OF assms(2,3)] calculation(1) unfolding steady_ok_def by blast
  ultimately show ?thesis using assms(2) reconnect_ok_cong [of "connectWebSocket c" c] by (simp add: calm_ok_def)
qed

lemma connect_without_session: "\<not> owns c \<Longrightarrow> connectWebSocket c = c"
  by (simp add: connectWebSocket_def)

lemma calm_mount_kept:
  assumes "calm_ok c"
  shows "calm_ok (mount_terminal (owns c) c)" "owns (mount_terminal (owns c) c) = owns c"
proof -
  show own: "owns (mount_terminal (owns c) c) = owns c" by (simp add: mount_terminal_def Let_def)
  show "calm_ok (mount_terminal (owns c) c)"
  proof (cases "owns c")
    case True
    have "reconnect_ok (mount_terminal True c)" using assms mount_reconnect_ok by (simp add: calm_ok_def)
    moreover have "steady_ok (mount_terminal True c)" using assms True steady_mount by (simp add: calm_ok_def)
    ultimately show ?thesis using own True by (simp add: calm_ok_def)
  next
    case False
    then have "mount_terminal False c = c\<lparr>cached := True\<rparr>"
      by (simp add: mount_terminal_def connect_without_session Let_def)
    then show ?thesis using assms False by (simp add: calm_ok_def paused_def live_def reconnect_ok_def)
  qed
qed

lemma calm_mount_gained:
  assumes "calm_ok c" "\<not> owns c" "\<forall>h. socks c h = SClosed"
  shows "calm_ok (mount_terminal True c)" "owns (mount_terminal True c)"
proof -
  have c: "requests c = 0" "reconnects c = []" "inst_ws c = None" "\<not> connecting c"
    using assms by (auto simp: calm_ok_def paused_def)
  have eq: "mount_terminal True c = c\<lparr>cached := True, owns := True, connecting := True, requests := 1\<rparr>"
    using c assms(2) by (simp add: mount_terminal_def ownership_changed_def reconcileOwnership_def connectWebSocket_def wsState_def Let_def)
  show "calm_ok (mount_terminal True c)" "owns (mount_terminal True c)"
    using c assms(3) by (simp_all add: eq calm_ok_def steady_ok_def wsState_def reconnect_ok_def)
qed

lemma calm_mount_lost:
  assumes "calm_ok c" "owns c" "requests c = 0"
  shows "calm_ok (mount_terminal False c)" "\<not> owns (mount_terminal False c)"
proof -
  let ?c = "c\<lparr>cached := True\<rparr>"
  have eq: "mount_terminal False c = ownership_changed False ?c" if "\<not> owns (ownership_changed False ?c)"
    using assms(2) that by (simp add: mount_terminal_def connect_without_session Let_def)
  have "calm_ok (ownership_changed False ?c) \<and> \<not> owns (ownership_changed False ?c)"
  proof (cases "cached c")
    case True
    then have "?c = c" by simp
    then show ?thesis using calm_loss [OF assms] by simp
  next
    case False
    then have "inst_ws c = None" "reconnects c = []" "\<forall>h. socks c h = SClosed"
      using assms by (auto simp: calm_ok_def steady_ok_def)
    then show ?thesis
      using assms(3) by (simp add: ownership_changed_def reconcileOwnership_def calm_ok_def paused_def live_def
          reconnect_ok_none clear_reconnect_def Let_def split: option.split)
  qed
  then show "calm_ok (mount_terminal False c)" "\<not> owns (mount_terminal False c)" using eq by simp_all
qed

lemma calm_mount:
  assumes "calm_ok c" "calm_change c b"
  shows "calm_ok (mount_terminal b c)" "owns (mount_terminal b c) = b"
proof -
  consider "b = owns c" | "b" "\<not> owns c" "\<forall>h. socks c h = SClosed" | "\<not> b" "owns c" "requests c = 0"
    using assms(2) by (cases b; cases "owns c"; auto simp: calm_change_def)
  then have "calm_ok (mount_terminal b c) \<and> owns (mount_terminal b c) = b"
    using calm_mount_kept [OF assms(1)] calm_mount_gained [OF assms(1)] calm_mount_lost [OF assms(1)]
    by cases simp_all
  then show "calm_ok (mount_terminal b c)" "owns (mount_terminal b c) = b" by simp_all
qed

section \<open>Windows and terminals agree\<close>

definition attach_ok :: "string \<Rightarrow> attachment \<Rightarrow> bool" where
  "attach_ok sid s \<longleftrightarrow>
     (\<forall>w. calm_ok (terms s w)) \<and>
     (\<forall>w. windows (locks s) w = None \<longrightarrow> terms s w = new_conn) \<and>
     (\<forall>w lk. windows (locks s) w = Some lk \<longrightarrow> owns (terms s w) = ownsSession lk sid)"

lemma attach_okD:
  "attach_ok sid s \<Longrightarrow> windows (locks s) w = None \<Longrightarrow> terms s w = new_conn"
  "attach_ok sid s \<Longrightarrow> windows (locks s) w = Some lk \<Longrightarrow> owns (terms s w) = ownsSession lk sid"
  "attach_ok sid s \<Longrightarrow> calm_ok (terms s w)"
  by (simp_all add: attach_ok_def)

lemma attach_ok_start: "no_attachment s \<Longrightarrow> attach_ok sid s"
  by (simp add: no_attachment_def attach_ok_def no_windows_def calm_new)

lemma attach_ok_step: "attach_step sid s t \<Longrightarrow> attach_ok sid s \<Longrightarrow> attach_ok sid t"
proof (induction rule: attach_step.induct)
  case (lock s sys)
  have some: "calm_ok (follow sid sys (terms s) w)" "owns (follow sid sys (terms s) w) = ownsSession lk sid"
    if "windows sys w = Some lk" for w lk
    using calm_verdict [OF attach_okD(3) [OF lock.prems, of w] lock.hyps(2) [OF that]] that by (simp_all add: follow_def)
  have none: "follow sid sys (terms s) w = new_conn" if "windows sys w = None" for w
    using that by (simp add: follow_def)
  have "calm_ok (follow sid sys (terms s) w)" for w
    using some(1) none calm_new by (cases "windows sys w") simp_all
  then show ?case
    using some(2) none by (simp add: attach_ok_def)
next
  case (mount s w lk e)
  have wins: "windows (run_window w e (locks s)) = (windows (locks s))(w \<mapsto> fst e)"
    by (simp add: run_window_def broadcast_def)
  show ?case
    using calm_mount [OF attach_okD(3) [OF mount.prems, of w] mount.hyps(3)] mount.prems
    by (simp add: attach_ok_def wins)
next
  case (terminal s w ev)
  then obtain lk where lk: "windows (locks s) w = Some lk" by blast
  show ?case
    using calm_internal [OF attach_okD(3) [OF terminal.prems, of w] terminal.hyps(2,3)]
      internal_owns [OF terminal.hyps(3), of "terms s w"] terminal.prems lk
    by (simp add: attach_ok_def)
qed

lemma attach_view: "attach_step sid s t \<Longrightarrow> lock_step (locks s) (locks t) \<or> locks t = locks s"
proof (induction rule: attach_step.induct)
  case (mount s w lk e)
  then show ?case using lock_step.claim [OF mount.hyps(1), of sid] by simp
qed simp_all

text \<open>Seen without the terminals the windows take the steps of the lock.\<close>

interpretation attach: refining_system no_windows lock_step sys_ok no_attachment "attach_step sid" "attach_ok sid" locks for sid
proof
  show "attach_ok sid s \<and> no_windows (locks s)" if "no_attachment s" for s
    using that attach_ok_start by (simp add: no_attachment_def)
qed (use attach_ok_step step_or_stay [of lock_step, OF attach_view] in blast)+

lemma reachable_attached:
  assumes "reachable_from no_attachment (attach_step sid) s"
  shows "attach_ok sid s" "reachable_windows (locks s)"
  using attach.conc.reachable_inv [OF assms] by (simp_all add: reachable_windows_def)

lemma attached_owner:
  assumes "attach_ok sid s" "live (terms s w) h"
  shows "\<exists>lk. windows (locks s) w = Some lk \<and> sid \<in> owned lk" "inst_ws (terms s w) = Some h"
proof -
  note calm = attach_okD(3) [OF assms(1), of w]
  have own: "owns (terms s w)" using calm assms(2) by (auto simp: calm_ok_def paused_def split: if_splits)
  then obtain lk where lk: "windows (locks s) w = Some lk"
    using attach_okD(1) [OF assms(1), of w] by (cases "windows (locks s) w") (auto simp: new_conn_def)
  then show "\<exists>lk. windows (locks s) w = Some lk \<and> sid \<in> owned lk"
    using attach_okD(2) [OF assms(1) lk] own by (simp add: ownsSession_def)
  show "inst_ws (terms s w) = Some h"
    using calm own assms(2) steady_sock [of "terms s w" h] by (auto simp: calm_ok_def live_def)
qed

lemma attached_once:
  assumes "attach_ok sid s" "delivered (locks s)" "live (terms s w) h" "live (terms s v) k" "sys_ok (locks s)"
  shows "w = v" "h = k"
proof -
  obtain lkw lkv where lk: "windows (locks s) w = Some lkw" "sid \<in> owned lkw"
      "windows (locks s) v = Some lkv" "sid \<in> owned lkv"
    using attached_owner(1) [OF assms(1,3)] attached_owner(1) [OF assms(1,4)] by blast
  show same: "w = v" using single_owner [OF assms(5,2) lk(1,3)] lk(2,4) by blast
  show "h = k" using attached_owner(2) [OF assms(1,3)] attached_owner(2) [OF assms(1,4)] same by simp
qed

section \<open>A concrete takeover\<close>

definition att_lock :: "string \<Rightarrow> lock_system \<Rightarrow> attachment \<Rightarrow> attachment" where
  "att_lock sid sys s = \<lparr>locks = sys, terms = follow sid sys (terms s)\<rparr>"

abbreviation reach_s :: "attachment \<Rightarrow> bool" where
  "reach_s \<equiv> reachable_from no_attachment (attach_step ''s'')"

lemma att_term:
  "reach_s \<lparr>locks = sys, terms = ts\<rparr> \<Longrightarrow> windows sys w \<noteq> None \<Longrightarrow> enabled ev (ts w) \<Longrightarrow> internal ev \<Longrightarrow>
   c = handle_event ev (ts w) \<Longrightarrow> reach_s \<lparr>locks = sys, terms = ts(w := c)\<rparr>"
  using attach_step.terminal [of "\<lparr>locks = sys, terms = ts\<rparr>" w ev "''s''"] by (simp add: reachable_step)

lemma att_mount:
  "reach_s \<lparr>locks = sys, terms = ts\<rparr> \<Longrightarrow> windows sys w = Some lk \<Longrightarrow> ts w = new_conn \<Longrightarrow>
   ownsSession (fst (claimSession ''s'' lk)) ''s'' \<Longrightarrow>
   reach_s \<lparr>locks = do_claim ''s'' w sys, terms = ts(w := ex_mounted)\<rparr>"
  using attach_step.mount [of "\<lparr>locks = sys, terms = ts\<rparr>" w lk "''s''"]
  by (auto simp: do_claim_def ex_mounted_def calm_change_def new_conn_def intro: reachable_step)

lemma att_locks:
  "reach_s \<lparr>locks = sys, terms = ts\<rparr> \<Longrightarrow> lock_step sys sys' \<Longrightarrow>
   (\<forall>w lk. windows sys' w = Some lk \<longrightarrow> calm_change (ts w) (ownsSession lk ''s'')) \<Longrightarrow>
   follow ''s'' sys' ts = ts' \<Longrightarrow> reach_s \<lparr>locks = sys', terms = ts'\<rparr>"
  using attach_step.lock [of "\<lparr>locks = sys, terms = ts\<rparr>" sys' "''s''"] by (auto intro: reachable_step)

lemma lock_step_do:
  "windows sys w = Some lk \<Longrightarrow> inboxes sys w \<noteq> [] \<Longrightarrow> lock_step sys (do_deliver now w sys)"
  "new_window sys w \<Longrightarrow> lock_step sys (do_open now w sys)"
  by (auto simp: do_deliver_def do_open_def intro: lock_step.deliver lock_step.open_window
      split: list.split prod.split)

definition ex_opened :: lock_system where
  "ex_opened = do_open 1 ''a'' \<lparr>windows = \<lambda>_. None, inboxes = \<lambda>_. []\<rparr>"

definition ex_second :: lock_system where "ex_second = do_open 2 ''b'' ex_first_window"
definition ex_heard :: lock_system where "ex_heard = do_deliver 4 ''a'' ex_undelivered"
definition ex_given_up :: lock_system where "ex_given_up = do_deliver 4 ''a'' ex_heard"
definition ex_answered :: lock_system where "ex_answered = do_deliver 5 ''b'' ex_given_up"

lemma ex_systems_eq:
  "ex_first_window = do_claim ''s'' ''a'' ex_opened" "ex_undelivered = do_claim ''s'' ''b'' ex_second"
  "ex_windows = do_deliver 5 ''a'' ex_answered"
  by (simp_all add: ex_first_window_def ex_undelivered_def ex_windows_def ex_opened_def ex_second_def ex_heard_def
      ex_given_up_def ex_answered_def)

text \<open>The windows, their verdicts and their queues on the way.\<close>

definition looks :: "lock_system \<Rightarrow> (string \<times> bool) list \<Rightarrow> bool" where
  "looks sys vs \<longleftrightarrow> (\<forall>w. map_option (\<lambda>lk. ownsSession lk ''s'') (windows sys w) = map_of vs w)"

lemmas ex_system_defs = ex_opened_def ex_first_window_def ex_second_def ex_undelivered_def ex_heard_def ex_given_up_def
  ex_answered_def looks_def ownsSession_def ex_run_simps

lemma ex_looks:
  "looks ex_opened [(''a'', False)]" "looks ex_first_window [(''a'', True)]"
  "looks ex_second [(''a'', True), (''b'', False)]" "looks ex_undelivered [(''a'', True), (''b'', True)]"
  "looks ex_heard [(''a'', True), (''b'', True)]" "looks ex_given_up [(''a'', False), (''b'', True)]"
  "looks ex_answered [(''a'', False), (''b'', True)]" "looks ex_windows [(''a'', False), (''b'', True)]"
  by (simp_all add: ex_system_defs ex_windows_eq)

lemma ex_queues:
  "inboxes ex_undelivered ''a'' \<noteq> []" "inboxes ex_heard ''a'' \<noteq> []" "inboxes ex_given_up ''b'' \<noteq> []"
  "inboxes ex_answered ''a'' \<noteq> []" "new_window ex_first_window ''b''"
  by (simp_all add: ex_system_defs new_window_def)

definition pair :: "lock_system \<Rightarrow> conn \<Rightarrow> conn \<Rightarrow> attachment" where
  "pair sys ca cb = \<lparr>locks = sys, terms = (\<lambda>_. new_conn)(''a'' := ca, ''b'' := cb)\<rparr>"

lemma looksD: "looks sys vs \<Longrightarrow> windows sys w = Some lk \<Longrightarrow> map_of vs w = Some (ownsSession lk ''s'')"
  "looks sys vs \<Longrightarrow> windows sys w = None \<Longrightarrow> map_of vs w = None"
  by (metis looks_def option.simps(9), metis looks_def option.simps(8))

lemma looks_open: "looks sys vs \<Longrightarrow> map_of vs w = Some b \<Longrightarrow> \<exists>lk. windows sys w = Some lk \<and> ownsSession lk ''s'' = b"
  by (auto simp: looks_def map_option_eq_Some dest!: spec [of _ w])

lemma looks_window: "looks sys vs \<Longrightarrow> map_of vs w \<noteq> None \<Longrightarrow> windows sys w \<noteq> None"
  by (auto dest: looksD(2))

lemma pair_lock:
  assumes "reach_s (pair sys ca cb)" "lock_step sys sys'" "looks sys' ((''a'', a) # vs)"
    and "calm_change ca a" "ca' = (if owns ca = a then ca else ownership_changed a ca)"
    and "vs = [] \<and> cb = new_conn \<or> vs = [(''b'', owns cb)]"
  shows "reach_s (pair sys' ca' cb)"
proof -
  let ?ts = "(\<lambda>_. new_conn)(''a'' := ca, ''b'' := cb)"
  have verdict: "w = ''a'' \<and> ownsSession lk ''s'' = a \<or> w = ''b'' \<and> ownsSession lk ''s'' = owns cb"
    if "windows sys' w = Some lk" for w lk
    using looksD(1) [OF assms(3) that] assms(6) by (auto split: if_splits)
  have none: "w \<noteq> ''a'' \<and> (w = ''b'' \<longrightarrow> cb = new_conn)" if "windows sys' w = None" for w
    using looksD(2) [OF assms(3) that] assms(6) by (auto split: if_splits)
  have "calm_change (?ts w) (ownsSession lk ''s'')" if "windows sys' w = Some lk" for w lk
    using verdict [OF that] assms(4) by (auto simp: calm_change_def)
  moreover have "follow ''s'' sys' ?ts w = ((\<lambda>_. new_conn)(''a'' := ca', ''b'' := cb)) w" for w
  proof (cases "windows sys' w")
    case None
    then show ?thesis using none [OF None] by (simp add: follow_def)
  next
    case (Some lk)
    then show ?thesis using verdict [OF Some] assms(5) by (auto simp: follow_def)
  qed
  ultimately show ?thesis
    using att_locks [OF assms(1) [unfolded pair_def] assms(2), of "(\<lambda>_. new_conn)(''a'' := ca', ''b'' := cb)"]
    by (simp add: pair_def fun_eq_iff)
qed

lemma pair_mount:
  assumes "reach_s (pair sys ca cb)" "looks sys vs" "looks (do_claim ''s'' w sys) vs'" "map_of vs w \<noteq> None"
    and "map_of vs' w = Some True" "w = ''a'' \<and> ca = new_conn \<or> w = ''b'' \<and> cb = new_conn"
  shows "reach_s (pair (do_claim ''s'' w sys) (if w = ''a'' then ex_mounted else ca) (if w = ''b'' then ex_mounted else cb))"
proof -
  obtain lk where lk: "windows sys w = Some lk" using looks_open [OF assms(2)] assms(4) by blast
  then have "windows (do_claim ''s'' w sys) w = Some (fst (claimSession ''s'' lk))"
    by (simp add: do_claim_def run_window_def broadcast_def)
  then have "ownsSession (fst (claimSession ''s'' lk)) ''s''" using looksD(1) [OF assms(3)] assms(5) by force
  from att_mount [OF assms(1) [unfolded pair_def] lk _ this]
  show ?thesis using assms(6) by (auto simp: pair_def fun_upd_twist)
qed

definition ex_conn_lost :: conn where "ex_conn_lost = ownership_changed False ex_linked"

definition ex_requested :: conn where "ex_requested = handle_event (TicketReply 0 ex_ticket) ex_mounted"

lemma pair_connects:
  "reach_s (pair sys ex_mounted cb) \<Longrightarrow> windows sys ''a'' \<noteq> None \<Longrightarrow> reach_s (pair sys ex_linked cb)"
  "reach_s (pair sys ca ex_mounted) \<Longrightarrow> windows sys ''b'' \<noteq> None \<Longrightarrow> reach_s (pair sys ca ex_linked)"
proof -
  have en: "enabled (TicketReply 0 ex_ticket) ex_mounted" "enabled (Opened 0) ex_requested"
    by (simp_all add: ex_requested_def ex_mounted_eq new_conn_def ticket_reply_def ex_ticket_ok ticket_ok_def Let_def)
  have eq: "ex_linked = handle_event (Opened 0) ex_requested" by (simp add: ex_linked_def ex_requested_def)
  show "reach_s (pair sys ex_mounted cb) \<Longrightarrow> windows sys ''a'' \<noteq> None \<Longrightarrow> reach_s (pair sys ex_linked cb)"
    using att_term [of sys "(\<lambda>_. new_conn)(''a'' := ex_mounted, ''b'' := cb)" "''a''" "TicketReply 0 ex_ticket" ex_requested]
      att_term [of sys "(\<lambda>_. new_conn)(''a'' := ex_requested, ''b'' := cb)" "''a''" "Opened 0" ex_linked] en eq
    by (simp add: pair_def ex_requested_def fun_upd_twist)
  show "reach_s (pair sys ca ex_mounted) \<Longrightarrow> windows sys ''b'' \<noteq> None \<Longrightarrow> reach_s (pair sys ca ex_linked)"
    using att_term [of sys "(\<lambda>_. new_conn)(''a'' := ca, ''b'' := ex_mounted)" "''b''" "TicketReply 0 ex_ticket" ex_requested]
      att_term [of sys "(\<lambda>_. new_conn)(''a'' := ca, ''b'' := ex_requested)" "''b''" "Opened 0" ex_linked] en eq
    by (simp add: pair_def ex_requested_def)
qed

definition ex_taken_over :: attachment where
  "ex_taken_over = pair ex_windows ex_conn_lost ex_linked"

lemma ex_conn_lost_eq:
  "owns ex_linked" "requests ex_linked = 0" "\<not> owns ex_conn_lost" "socks ex_conn_lost 0 = SClosing" "\<not> live ex_conn_lost h"
  by (simp_all add: ex_conn_lost_def ex_linked_eq new_conn_def ownership_changed_def reconcileOwnership_def
      clear_reconnect_def close_socket_def live_def Let_def)

lemma deliver_looks:
  "looks sys vs \<Longrightarrow> map_of vs w \<noteq> None \<Longrightarrow> inboxes sys w \<noteq> [] \<Longrightarrow> lock_step sys (do_deliver now w sys)"
  using looks_open [of sys vs w] lock_step_do(1) [of sys w] by blast

lemma ex_deliveries:
  "lock_step ex_undelivered ex_heard" "lock_step ex_heard ex_given_up" "lock_step ex_given_up ex_answered"
  "lock_step ex_answered ex_windows"
  unfolding ex_heard_def [of] ex_systems_eq(3)
  subgoal by (rule deliver_looks [OF ex_looks(4) _ ex_queues(1)]) simp
  subgoal unfolding ex_given_up_def ex_heard_def [symmetric] by (rule deliver_looks [OF ex_looks(5) _ ex_queues(2)]) simp
  subgoal unfolding ex_answered_def by (rule deliver_looks [OF ex_looks(6) _ ex_queues(3)]) simp
  subgoal by (rule deliver_looks [OF ex_looks(7) _ ex_queues(4)]) simp
  done

lemma ex_taken_over_reachable: "reach_s ex_taken_over"
proof -
  note own = ex_conn_lost_eq(1,2) ex_conn_lost_def calm_change_def
  note lost = ex_conn_lost_eq(1,3) calm_change_def
  have "reach_s (pair \<lparr>windows = \<lambda>_. None, inboxes = \<lambda>_. []\<rparr> new_conn new_conn)"
    by (rule reachable_start) (simp add: no_attachment_def no_windows_def pair_def)
  then have "reach_s (pair ex_opened new_conn new_conn)"
    unfolding ex_opened_def
    by (rule pair_lock [OF _ lock_step_do(2) ex_looks(1) [unfolded ex_opened_def]])
      (simp_all add: new_window_def calm_change_def new_conn_def)
  then have "reach_s (pair ex_first_window ex_mounted new_conn)"
    using pair_mount [OF _ ex_looks(1), of new_conn new_conn "''a''"] ex_looks(2) by (simp add: ex_systems_eq)
  then have "reach_s (pair ex_first_window ex_linked new_conn)"
    by (rule pair_connects(1)) (rule looks_window [OF ex_looks(2)], simp)
  then have "reach_s (pair ex_second ex_linked new_conn)"
    unfolding ex_second_def
    by (rule pair_lock [OF _ lock_step_do(2) [OF ex_queues(5)] ex_looks(3) [unfolded ex_second_def]])
      (simp_all add: own new_conn_def)
  then have "reach_s (pair ex_undelivered ex_linked ex_mounted)"
    using pair_mount [OF _ ex_looks(3), of ex_linked new_conn "''b''"] ex_looks(4) by (simp add: ex_systems_eq)
  then have "reach_s (pair ex_undelivered ex_linked ex_linked)"
    by (rule pair_connects(2)) (rule looks_window [OF ex_looks(4)], simp)
  then have "reach_s (pair ex_heard ex_linked ex_linked)"
    by (rule pair_lock [OF _ ex_deliveries(1) ex_looks(5)]) (simp_all add: own)
  then have "reach_s (pair ex_given_up ex_conn_lost ex_linked)"
    by (rule pair_lock [OF _ ex_deliveries(2) ex_looks(6)]) (simp_all add: own)
  then have "reach_s (pair ex_answered ex_conn_lost ex_linked)"
    by (rule pair_lock [OF _ ex_deliveries(3) ex_looks(7)]) (simp_all add: lost)
  then show ?thesis
    unfolding ex_taken_over_def by (rule pair_lock [OF _ ex_deliveries(4) ex_looks(8)]) (simp_all add: lost)
qed

end
