(* ===== verification/TerminalViews.thy ===== *)
theory TerminalViews
  imports Widgets AppExample Theming
begin

text \<open>
  Where the cached terminals are in the page: the rest of \<open>frontend/src/hooks/useTerminal.ts\<close>, that is the cache
  \<open>instances\<close>, the moves of a terminal's element between the panels' containers, the binding of its listeners and
  its theme, and the effect of \<open>components/Terminal/TerminalView.tsx\<close> that locks its input field on a phone.

  A session has one instance and so one element, named by the session; a panel's container is a number that no other
  \<open>div\<close> ever has. React runs the effects of a commit in the order of the panels, and those of one panel in the order
  of the hooks, when one of their dependencies changed. xterm and the WebGL addon are parameters.
\<close>

section \<open>State\<close>

text \<open>
  The fields of \<open>TerminalInstance\<close> that are not of its connection: whether \<open>terminal.element\<close> exists, \<open>webgl\<close>,
  \<open>listenersBound\<close>, how often listeners were bound, \<open>terminal.options.theme\<close> and the attributes of
  \<open>terminal.textarea\<close>, if there is one.
\<close>

record term_inst =
  opened :: bool
  webgl :: bool
  listenersBound :: bool
  bindings :: nat
  optionsTheme :: term_theme
  textarea :: "string obj option"

text \<open>What a terminal is created with.\<close>

record term_options =
  opt_theme :: term_theme
  opt_fontFamily :: string
  opt_fontSize :: nat
  opt_lineHeight :: rat
  opt_cursorBlink :: bool
  opt_cursorStyle :: string
  opt_allowProposedApi :: bool
  opt_macOptionClickForcesSelection :: bool
  opt_scrollback :: nat
  opt_smoothScrollDuration :: nat

definition initial_options :: "term_theme \<Rightarrow> term_options" where
  "initial_options theme = \<lparr>opt_theme = theme,
     opt_fontFamily = [CHR 0x27] @ ''JetBrains Mono'' @ [CHR 0x27] @ '', '' @ [CHR 0x27] @ ''SF Mono'' @ [CHR 0x27] @ '', '' @
       [CHR 0x27] @ ''Menlo'' @ [CHR 0x27] @ '', '' @ [CHR 0x27] @ ''Noto Sans KR'' @ [CHR 0x27] @ '', '' @
       [CHR 0x27] @ ''Noto Sans CJK SC'' @ [CHR 0x27] @ '', monospace'',
     opt_fontSize = 14, opt_lineHeight = 6 / 5, opt_cursorBlink = True, opt_cursorStyle = ''block'',
     opt_allowProposedApi = True, opt_macOptionClickForcesSelection = True, opt_scrollback = 10000,
     opt_smoothScrollDuration = 0\<rparr>"

record page =
  instances :: "term_inst obj"
  parentElement :: "string \<Rightarrow> nat option"
  childNodes :: "nat \<Rightarrow> string list"
  previousSessionId :: "nat \<Rightarrow> string option"
  repainted :: "string list"

text \<open>
  What the model takes from outside: the container's children after \<open>terminal.open\<close>, the textarea that creates, and
  whether the WebGL addon can be loaded.
\<close>

record xterm =
  xopen :: "string \<Rightarrow> string list \<Rightarrow> string list"
  xtextarea :: "string obj option"
  xwebgl :: bool

section \<open>The page\<close>

definition removeChild :: "nat \<Rightarrow> string \<Rightarrow> page \<Rightarrow> page" where
  "removeChild c sid pg =
     pg\<lparr>parentElement := (parentElement pg)(sid := None),
        childNodes := (childNodes pg)(c := filter (\<lambda>x. x \<noteq> sid) (childNodes pg c))\<rparr>"

text \<open>Appending a node that has a parent removes it there first.\<close>

definition appendChild :: "nat \<Rightarrow> string \<Rightarrow> page \<Rightarrow> page" where
  "appendChild c sid pg0 =
     (let pg = (case parentElement pg0 sid of None \<Rightarrow> pg0 | Some p \<Rightarrow> removeChild p sid pg0)
      in pg\<lparr>parentElement := (parentElement pg)(sid \<mapsto> c),
            childNodes := (childNodes pg)(c := childNodes pg c @ [sid])\<rparr>)"

section \<open>Instances\<close>

definition createInstance :: "term_theme \<Rightarrow> term_inst" where
  "createInstance theme = \<lparr>opened = False, webgl = False, listenersBound = False, bindings = 0,
     optionsTheme = opt_theme (initial_options theme), textarea = None\<rparr>"

lemma initial_theme [simp]: "opt_theme (initial_options theme) = theme"
  by (simp add: initial_options_def)

definition loadWebgl :: "bool \<Rightarrow> term_inst \<Rightarrow> term_inst" where
  "loadWebgl works inst = (if webgl inst then inst else if works then inst\<lparr>webgl := True\<rparr> else inst)"

text \<open>\<open>onContextLoss\<close>: the addon is dropped and loaded again, once per loss.\<close>

definition contextLost :: "bool \<Rightarrow> term_inst \<Rightarrow> term_inst" where
  "contextLost works inst = loadWebgl works (inst\<lparr>webgl := False\<rparr>)"

definition configureTextarea :: "term_inst \<Rightarrow> term_inst" where
  "configureTextarea inst =
     (case textarea inst of None \<Rightarrow> inst
      | Some ta \<Rightarrow> inst\<lparr>textarea := Some (obj_set ''spellcheck'' ''false'' (obj_set ''autocomplete'' ''off''
          (obj_set ''autocorrect'' ''off'' (obj_set ''autocapitalize'' ''off'' ta))))\<rparr>)"

definition bindInputListeners :: "term_inst \<Rightarrow> term_inst" where
  "bindInputListeners inst =
     (if listenersBound inst then inst else inst\<lparr>listenersBound := True, bindings := Suc (bindings inst)\<rparr>)"

definition put_inst :: "string \<Rightarrow> term_inst \<Rightarrow> page \<Rightarrow> page" where
  "put_inst sid inst pg = pg\<lparr>instances := obj_set sid inst (instances pg)\<rparr>"

definition on_inst :: "string \<Rightarrow> (term_inst \<Rightarrow> term_inst) \<Rightarrow> page \<Rightarrow> page" where
  "on_inst sid f pg = (case map_of (instances pg) sid of None \<Rightarrow> pg | Some inst \<Rightarrow> put_inst sid (f inst) pg)"

definition detachFromContainer :: "string \<Rightarrow> nat \<Rightarrow> page \<Rightarrow> page" where
  "detachFromContainer sid c pg =
     (case map_of (instances pg) sid of None \<Rightarrow> pg
      | Some inst \<Rightarrow> if opened inst \<and> parentElement pg sid = Some c then removeChild c sid pg else pg)"

section \<open>The effects of a panel\<close>

text \<open>Into the container: an element that exists is moved, and repainted when it did move.\<close>

definition open_terminal :: "xterm \<Rightarrow> nat \<Rightarrow> string \<Rightarrow> term_inst \<Rightarrow> page \<Rightarrow> page" where
  "open_terminal env c sid inst pg =
     put_inst sid (bindInputListeners (configureTextarea (loadWebgl (xwebgl env)
         (inst\<lparr>opened := True, textarea := xtextarea env\<rparr>))))
       (pg\<lparr>parentElement := (parentElement pg)(sid \<mapsto> c),
           childNodes := (childNodes pg)(c := xopen env sid (childNodes pg c))\<rparr>)"

definition reattach :: "nat \<Rightarrow> string \<Rightarrow> page \<Rightarrow> page" where
  "reattach c sid pg =
     (if parentElement pg sid \<noteq> Some c then
        let pg1 = (case parentElement pg sid of None \<Rightarrow> pg | Some p \<Rightarrow> removeChild p sid pg);
            pg2 = appendChild c sid pg1
        in pg2\<lparr>repainted := repainted pg2 @ [sid]\<rparr>
      else pg)"

definition place_terminal :: "xterm \<Rightarrow> nat \<Rightarrow> string \<Rightarrow> page \<Rightarrow> page" where
  "place_terminal env c sid pg =
     (case map_of (instances pg) sid of None \<Rightarrow> pg
      | Some inst \<Rightarrow> if opened inst then reattach c sid pg else open_terminal env c sid inst pg)"

definition useTerminal :: "xterm \<Rightarrow> term_theme \<Rightarrow> nat \<Rightarrow> string option \<Rightarrow> page \<Rightarrow> page" where
  "useTerminal env theme c sessionId pg =
     (let prev = previousSessionId pg c;
          pg1 = (if truthy prev \<and> prev \<noteq> sessionId then detachFromContainer (the prev) c pg else pg)
      in if \<not> truthy sessionId then pg1\<lparr>previousSessionId := (previousSessionId pg1)(c := None)\<rparr>
         else
           let sid = the sessionId;
               pg2 = (if has_key sid (instances pg1) then pg1 else put_inst sid (createInstance theme) pg1);
               pg3 = place_terminal env c sid pg2
           in pg3\<lparr>previousSessionId := (previousSessionId pg3)(c := Some sid)\<rparr>)"

definition theme_effect :: "term_theme \<Rightarrow> string option \<Rightarrow> page \<Rightarrow> page" where
  "theme_effect theme sessionId pg =
     (if \<not> truthy sessionId then pg else on_inst (the sessionId) (\<lambda>inst. inst\<lparr>optionsTheme := theme\<rparr>) pg)"

definition lock_textarea :: "bool \<Rightarrow> string obj \<Rightarrow> string obj" where
  "lock_textarea isMobile ta =
     (if isMobile then obj_set ''inputmode'' ''none'' (obj_set ''tabindex'' ''-1'' (obj_set ''readonly'' ''true'' ta))
      else obj_set ''tabindex'' ''0'' (obj_del ''inputmode'' (obj_del ''readonly'' ta)))"

text \<open>\<open>querySelector('textarea')\<close>: the first terminal in the container that has one.\<close>

definition readonly_effect :: "bool \<Rightarrow> nat \<Rightarrow> page \<Rightarrow> page" where
  "readonly_effect isMobile c pg =
     (case find (\<lambda>sid. \<exists>inst. map_of (instances pg) sid = Some inst \<and> textarea inst \<noteq> None) (childNodes pg c) of
        None \<Rightarrow> pg
      | Some sid \<Rightarrow> on_inst sid (\<lambda>inst. inst\<lparr>textarea := map_option (lock_textarea isMobile) (textarea inst)\<rparr>) pg)"

section \<open>Commits\<close>

text \<open>
  A view is a container and its session. The effects of a view run when it is new, when its session changed, or when
  the theme changed (the first two) or the kind of screen (the last).
\<close>

record screen_state =
  spage :: page
  sviews :: "(nat \<times> string option) list"
  stheme :: term_theme
  smobile :: bool

definition view_effects ::
    "xterm \<Rightarrow> term_theme \<Rightarrow> bool \<Rightarrow> screen_state \<Rightarrow> nat \<times> string option \<Rightarrow> page \<Rightarrow> page" where
  "view_effects env theme isMobile old v pg =
     (let isNew = (v \<notin> set (sviews old));
          pg1 = (if isNew \<or> theme \<noteq> stheme old then theme_effect theme (snd v) (useTerminal env theme (fst v) (snd v) pg) else pg)
      in if isNew \<or> isMobile \<noteq> smobile old then readonly_effect isMobile (fst v) pg1 else pg1)"

definition commit :: "xterm \<Rightarrow> term_theme \<Rightarrow> bool \<Rightarrow> (nat \<times> string option) list \<Rightarrow> screen_state \<Rightarrow> screen_state" where
  "commit env theme isMobile views s =
     \<lparr>spage = fold (view_effects env theme isMobile s) views (spage s), sviews = views, stheme = theme, smobile = isMobile\<rparr>"

text \<open>The panels a screen shows, in order.\<close>

definition shown_leaves :: "panel_view \<Rightarrow> panel_leaf list" where
  "shown_leaves pv = (case pv of NoPanels \<Rightarrow> [] | SinglePanel l \<Rightarrow> [l] | WholeTree t \<Rightarrow> listLeaves t)"

definition views_of :: "(string \<Rightarrow> nat) \<Rightarrow> panel_view \<Rightarrow> (nat \<times> string option) list" where
  "views_of cont pv = map (\<lambda>l. (cont (leaf_id l), leaf_session l)) (shown_leaves pv)"

definition empty_page :: page where
  "empty_page = \<lparr>instances = [], parentElement = \<lambda>_. None, childNodes = \<lambda>_. [], previousSessionId = \<lambda>_. None, repainted = []\<rparr>"

definition blank_screen :: "screen_state \<Rightarrow> bool" where
  "blank_screen s \<longleftrightarrow> spage s = empty_page \<and> sviews s = []"

text \<open>
  A commit of any world the store can reach: panels that stay keep their containers or get new ones, and a
  container that was not on the screen is new.
\<close>

inductive screen_step :: "xterm \<Rightarrow> (nat \<Rightarrow> nat) \<Rightarrow> screen_state \<Rightarrow> screen_state \<Rightarrow> bool" for env rnd where
  "reachable_world rnd w \<Longrightarrow> PanelLayout_view isMobile (app w) = Some pv \<Longrightarrow>
   inj_on cont (leaf_id ` set (shown_leaves pv)) \<Longrightarrow>
   (\<And>c. c \<in> fst ` set (views_of cont pv) \<Longrightarrow> c \<notin> fst ` set (sviews s) \<Longrightarrow>
      childNodes (spage s) c = [] \<and> previousSessionId (spage s) c = None) \<Longrightarrow>
   screen_step env rnd s (commit env theme isMobile (views_of cont pv) s)"

section \<open>One element, one place\<close>

definition inst_ok :: "term_inst \<Rightarrow> bool" where
  "inst_ok inst \<longleftrightarrow> (listenersBound inst \<longleftrightarrow> opened inst) \<and> bindings inst = (if opened inst then 1 else 0)"

definition page_ok :: "page \<Rightarrow> bool" where
  "page_ok pg \<longleftrightarrow>
     (\<forall>sid c. parentElement pg sid = Some c \<longleftrightarrow> sid \<in> set (childNodes pg c)) \<and>
     (\<forall>c. distinct (childNodes pg c)) \<and>
     (\<forall>sid c. parentElement pg sid = Some c \<longrightarrow> (\<exists>inst. map_of (instances pg) sid = Some inst \<and> opened inst)) \<and>
     (\<forall>sid inst. map_of (instances pg) sid = Some inst \<longrightarrow> inst_ok inst)"

definition sess_list :: "string option \<Rightarrow> string list" where
  "sess_list so = (if truthy so then [the so] else [])"

lemma page_okD:
  assumes "page_ok pg"
  shows "parentElement pg sid = Some c \<longleftrightarrow> sid \<in> set (childNodes pg c)" "distinct (childNodes pg c)"
    "parentElement pg sid = Some c \<Longrightarrow> \<exists>inst. map_of (instances pg) sid = Some inst \<and> opened inst"
    "map_of (instances pg) sid = Some inst \<Longrightarrow> inst_ok inst"
  using assms unfolding page_ok_def by blast+

lemma remove_simps [simp]:
  "instances (removeChild c sid pg) = instances pg" "previousSessionId (removeChild c sid pg) = previousSessionId pg"
  "childNodes (removeChild c sid pg) d = (if d = c then filter (\<lambda>x. x \<noteq> sid) (childNodes pg c) else childNodes pg d)"
  "parentElement (removeChild c sid pg) x = (if x = sid then None else parentElement pg x)"
  by (simp_all add: removeChild_def)

lemma remove_ok: "page_ok pg \<Longrightarrow> parentElement pg sid = Some c \<Longrightarrow> page_ok (removeChild c sid pg)"
  unfolding page_ok_def by (simp add: removeChild_def) (metis option.inject)

lemma append_simps:
  assumes "parentElement pg sid = None"
  shows "instances (appendChild c sid pg) = instances pg" "previousSessionId (appendChild c sid pg) = previousSessionId pg"
    "childNodes (appendChild c sid pg) d = (if d = c then childNodes pg c @ [sid] else childNodes pg d)"
    "parentElement (appendChild c sid pg) x = (if x = sid then Some c else parentElement pg x)"
  using assms by (simp_all add: appendChild_def)

lemma append_ok:
  assumes "page_ok pg" "parentElement pg sid = None" "map_of (instances pg) sid = Some inst" "opened inst"
  shows "page_ok (appendChild c sid pg)"
proof -
  have "sid \<notin> set (childNodes pg d)" for d using page_okD(1) [OF assms(1), of sid d] assms(2) by simp
  then show ?thesis
    using assms unfolding page_ok_def by (auto simp: append_simps)
qed

lemma put_simps [simp]:
  "instances (put_inst sid i pg) = obj_set sid i (instances pg)" "previousSessionId (put_inst sid i pg) = previousSessionId pg"
  "childNodes (put_inst sid i pg) = childNodes pg" "parentElement (put_inst sid i pg) = parentElement pg"
  by (simp_all add: put_inst_def)

lemma put_ok:
  assumes "page_ok pg" "inst_ok i" "parentElement pg sid \<noteq> None \<longrightarrow> opened i"
  shows "page_ok (put_inst sid i pg)"
  using assms unfolding page_ok_def by auto

lemma on_inst_simps [simp]:
  "previousSessionId (on_inst sid f pg) = previousSessionId pg" "childNodes (on_inst sid f pg) = childNodes pg"
  "parentElement (on_inst sid f pg) = parentElement pg"
  "map_of (instances (on_inst sid f pg)) x =
     (if x = sid then map_option f (map_of (instances pg) sid) else map_of (instances pg) x)"
  by (auto simp: on_inst_def split: option.split)

lemma on_inst_ok:
  assumes "page_ok pg" "\<And>i. inst_ok i \<Longrightarrow> inst_ok (f i)" "\<And>i. opened (f i) = opened i"
  shows "page_ok (on_inst sid f pg)"
proof (cases "map_of (instances pg) sid")
  case (Some i)
  have "inst_ok (f i)" using assms(2) page_okD(4) [OF assms(1) Some] by blast
  then show ?thesis
    using Some page_okD(3) [OF assms(1), of sid] assms(3) by (auto simp: on_inst_def intro!: put_ok assms(1))
qed (simp add: on_inst_def assms(1))

section \<open>What the effects do\<close>

lemma detach_effect:
  assumes "page_ok pg"
  shows "page_ok (detachFromContainer sid c pg)" "instances (detachFromContainer sid c pg) = instances pg"
    "previousSessionId (detachFromContainer sid c pg) = previousSessionId pg"
    "childNodes (detachFromContainer sid c pg) d = (if d = c then filter (\<lambda>x. x \<noteq> sid) (childNodes pg c) else childNodes pg d)"
proof -
  have gone: "filter (\<lambda>x. x \<noteq> sid) (childNodes pg c) = childNodes pg c" if "parentElement pg sid \<noteq> Some c"
    using that page_okD(1) [OF assms, of sid c] by (intro filter_True) auto
  show "page_ok (detachFromContainer sid c pg)" "instances (detachFromContainer sid c pg) = instances pg"
    "previousSessionId (detachFromContainer sid c pg) = previousSessionId pg"
    using assms remove_ok [OF assms] by (simp_all add: detachFromContainer_def split: option.split)
  show "childNodes (detachFromContainer sid c pg) d = (if d = c then filter (\<lambda>x. x \<noteq> sid) (childNodes pg c) else childNodes pg d)"
  proof (cases "parentElement pg sid = Some c")
    case True
    then show ?thesis using page_okD(3) [OF assms, of sid c] by (auto simp: detachFromContainer_def)
  next
    case False
    then show ?thesis using gone by (simp add: detachFromContainer_def split: option.split)
  qed
qed

lemma reattach_effect:
  assumes "page_ok pg" "map_of (instances pg) sid = Some inst" "opened inst" "set (childNodes pg c) \<subseteq> {sid}"
  shows "page_ok (reattach c sid pg)" "instances (reattach c sid pg) = instances pg"
    "previousSessionId (reattach c sid pg) = previousSessionId pg"
    "childNodes (reattach c sid pg) d = (if d = c then [sid] else filter (\<lambda>x. x \<noteq> sid) (childNodes pg d))"
proof -
  note here = page_okD(1) [OF assms(1)]
  have one: "childNodes pg c = (if parentElement pg sid = Some c then [sid] else [])"
    using here [of sid c] page_okD(2) [OF assms(1), of c] assms(4)
    by (cases "childNodes pg c"; cases "tl (childNodes pg c)") auto
  have other: "filter (\<lambda>x. x \<noteq> sid) (childNodes pg d) = childNodes pg d" if "parentElement pg sid \<noteq> Some d" for d
    using that here [of sid d] by (intro filter_True) auto
  let ?out = "case parentElement pg sid of None \<Rightarrow> pg | Some p \<Rightarrow> removeChild p sid pg"
  have out: "page_ok ?out" "parentElement ?out sid = None" "instances ?out = instances pg"
      "previousSessionId ?out = previousSessionId pg"
      "childNodes ?out d = filter (\<lambda>x. x \<noteq> sid) (childNodes pg d)" for d
    using assms(1) remove_ok [OF assms(1)] other by (auto split: option.split)
  have cong: "page_ok (p\<lparr>repainted := r\<rparr>) = page_ok p" for p r by (simp add: page_ok_def)
  have app: "page_ok (appendChild c sid ?out)"
    by (rule append_ok [OF out(1,2), of inst]) (simp_all add: out(3) assms(2,3))
  show "page_ok (reattach c sid pg)" "instances (reattach c sid pg) = instances pg"
    "previousSessionId (reattach c sid pg) = previousSessionId pg"
    using assms(1) app append_simps [OF out(2)] by (simp_all add: reattach_def Let_def cong out)
  show "childNodes (reattach c sid pg) d = (if d = c then [sid] else filter (\<lambda>x. x \<noteq> sid) (childNodes pg d))"
  proof (cases "parentElement pg sid = Some c")
    case True
    then show ?thesis using one other by (simp add: reattach_def)
  next
    case False
    then show ?thesis using one append_simps(3) [OF out(2)] by (simp add: reattach_def Let_def out)
  qed
qed

lemma open_effect:
  assumes "page_ok pg" "map_of (instances pg) sid = Some inst" "\<not> opened inst" "childNodes pg c = []"
    and xopen: "\<And>sid cs. xopen env sid cs = cs @ [sid]"
  shows "page_ok (open_terminal env c sid inst pg)"
    "map_of (instances (open_terminal env c sid inst pg)) x \<noteq> map_of (instances pg) x \<Longrightarrow> x = sid"
    "\<exists>i. map_of (instances (open_terminal env c sid inst pg)) sid = Some i \<and> opened i"
    "previousSessionId (open_terminal env c sid inst pg) = previousSessionId pg"
    "childNodes (open_terminal env c sid inst pg) d = (if d = c then [sid] else filter (\<lambda>x. x \<noteq> sid) (childNodes pg d))"
proof -
  have "parentElement pg sid = None" using page_okD(3) [OF assms(1), of sid] assms(2,3) by fastforce
  then have gone: "sid \<notin> set (childNodes pg d)" for d using page_okD(1) [OF assms(1), of sid d] by simp
  let ?i = "bindInputListeners (configureTextarea (loadWebgl (xwebgl env) (inst\<lparr>opened := True, textarea := xtextarea env\<rparr>)))"
  have i: "opened ?i" "inst_ok ?i"
    using page_okD(4) [OF assms(1,2)] assms(3)
    by (auto simp: inst_ok_def bindInputListeners_def configureTextarea_def loadWebgl_def split: option.split)
  show "page_ok (open_terminal env c sid inst pg)"
    using assms(1,4) gone i unfolding page_ok_def by (auto simp: open_terminal_def xopen)
  show "map_of (instances (open_terminal env c sid inst pg)) x \<noteq> map_of (instances pg) x \<Longrightarrow> x = sid"
    "\<exists>i. map_of (instances (open_terminal env c sid inst pg)) sid = Some i \<and> opened i"
    "previousSessionId (open_terminal env c sid inst pg) = previousSessionId pg"
    using i(1) by (auto simp: open_terminal_def split: if_splits)
  have "filter (\<lambda>x. x \<noteq> sid) (childNodes pg d) = childNodes pg d" using gone by (intro filter_True) auto
  then show "childNodes (open_terminal env c sid inst pg) d = (if d = c then [sid] else filter (\<lambda>x. x \<noteq> sid) (childNodes pg d))"
    using assms(4) by (simp add: open_terminal_def xopen)
qed

text \<open>\<open>room pg c\<close>: nothing is in the container but what its view put there.\<close>

definition room :: "page \<Rightarrow> nat \<Rightarrow> bool" where
  "room pg c \<longleftrightarrow> childNodes pg c = [] \<or> (truthy (previousSessionId pg c) \<and> childNodes pg c = [the (previousSessionId pg c)])"

definition placed :: "nat \<Rightarrow> string \<Rightarrow> page \<Rightarrow> page \<Rightarrow> bool" where
  "placed c sid pg pg' \<longleftrightarrow> page_ok pg' \<and>
     (\<forall>x. x \<noteq> sid \<longrightarrow> map_of (instances pg') x = map_of (instances pg) x) \<and>
     (\<exists>i. map_of (instances pg') sid = Some i \<and> opened i) \<and>
     previousSessionId pg' = previousSessionId pg \<and>
     (\<forall>d. childNodes pg' d = (if d = c then [sid] else filter (\<lambda>x. x \<noteq> sid) (childNodes pg d)))"

lemma place_effect:
  assumes "page_ok pg" "map_of (instances pg) sid = Some inst" "set (childNodes pg c) \<subseteq> {sid}"
    and xopen: "\<And>sid cs. xopen env sid cs = cs @ [sid]"
  shows "placed c sid pg (place_terminal env c sid pg)"
proof (cases "opened inst")
  case True
  then show ?thesis
    using assms(2) reattach_effect [OF assms(1,2) True assms(3)] by (simp add: place_terminal_def placed_def)
next
  case False
  have "sid \<notin> set (childNodes pg c)"
    using page_okD(1,3) [OF assms(1), of sid c] assms(2) False by auto
  then have "childNodes pg c = []" using assms(3) by (cases "childNodes pg c") auto
  note opens = open_effect [OF assms(1,2) False this xopen]
  have "place_terminal env c sid pg = open_terminal env c sid inst pg"
    using assms(2) False by (simp add: place_terminal_def)
  moreover have "map_of (instances (open_terminal env c sid inst pg)) x = map_of (instances pg) x" if "x \<noteq> sid" for x
    using opens(2) that by blast
  ultimately show ?thesis using opens(1,3,4,5) by (simp add: placed_def)
qed

text \<open>The first effect leaves its session alone in its container, and takes it out of every other one.\<close>

definition settled :: "nat \<Rightarrow> string option \<Rightarrow> page \<Rightarrow> page \<Rightarrow> bool" where
  "settled c so pg pg' \<longleftrightarrow> page_ok pg' \<and>
     (\<forall>x. x \<notin> set (sess_list so) \<longrightarrow> map_of (instances pg') x = map_of (instances pg) x) \<and>
     (\<forall>x \<in> set (sess_list so). \<exists>i. map_of (instances pg') x = Some i \<and> opened i) \<and>
     previousSessionId pg' = (previousSessionId pg)(c := if truthy so then so else None) \<and>
     (\<forall>d. childNodes pg' d = (if d = c then sess_list so else filter (\<lambda>x. x \<notin> set (sess_list so)) (childNodes pg d)))"

lemma page_ok_previous [simp]: "page_ok (pg\<lparr>previousSessionId := f\<rparr>) = page_ok pg"
  by (simp add: page_ok_def)

lemma useTerminal_settles:
  assumes ok: "page_ok pg" and room: "room pg c" and xopen: "\<And>sid cs. xopen env sid cs = cs @ [sid]"
  shows "settled c so pg (useTerminal env theme c so pg)"
proof -
  let ?prev = "previousSessionId pg c"
  define pg1 where "pg1 = (if truthy ?prev \<and> ?prev \<noteq> so then detachFromContainer (the ?prev) c pg else pg)"
  have pg1: "page_ok pg1" "instances pg1 = instances pg" "previousSessionId pg1 = previousSessionId pg"
      "d \<noteq> c \<Longrightarrow> childNodes pg1 d = childNodes pg d" for d
    using ok detach_effect [OF ok, of "the ?prev" c] by (simp_all add: pg1_def)
  have here: "childNodes pg1 c = (if truthy so \<and> ?prev = so then childNodes pg c else [])"
    using room detach_effect(4) [OF ok, of "the ?prev" c c] by (auto simp: pg1_def room_def)
  show ?thesis
  proof (cases "truthy so")
    case False
    then have "useTerminal env theme c so pg = pg1\<lparr>previousSessionId := (previousSessionId pg1)(c := None)\<rparr>"
      by (simp add: useTerminal_def pg1_def Let_def)
    then show ?thesis using False pg1 here by (simp add: settled_def sess_list_def)
  next
    case True
    then obtain sid where so: "so = Some sid" "sid \<noteq> []" by (rule truthyE)
    define pg2 where "pg2 = (if has_key sid (instances pg1) then pg1 else put_inst sid (createInstance theme) pg1)"
    have new: "inst_ok (createInstance theme)" by (simp add: inst_ok_def createInstance_def)
    have absent: "parentElement pg1 sid = None" if "\<not> has_key sid (instances pg1)"
      using that page_okD(3) [OF pg1(1), of sid] by (cases "parentElement pg1 sid") (auto simp: has_key_def)
    have pg2: "page_ok pg2" "previousSessionId pg2 = previousSessionId pg" "childNodes pg2 = childNodes pg1"
        "x \<noteq> sid \<Longrightarrow> map_of (instances pg2) x = map_of (instances pg) x" for x
      using pg1 absent put_ok [OF pg1(1) new, of sid] by (auto simp: pg2_def)
    obtain inst where inst: "map_of (instances pg2) sid = Some inst"
      by (cases "map_of (instances pg1) sid") (auto simp: pg2_def has_key_def)
    have "set (childNodes pg2 c) \<subseteq> {sid}" using here room so by (auto simp: pg2(3) room_def)
    note place = place_effect [OF pg2(1) inst this xopen]
    have eq: "useTerminal env theme c so pg =
        (place_terminal env c sid pg2)\<lparr>previousSessionId := (previousSessionId (place_terminal env c sid pg2))(c := Some sid)\<rparr>"
      using so by (simp add: useTerminal_def pg1_def pg2_def Let_def)
    show ?thesis
      unfolding eq settled_def
      using place pg1(4) pg2 so by (simp add: placed_def sess_list_def)
  qed
qed

text \<open>An instance that is open keeps everything but its place.\<close>

lemma useTerminal_keeps:
  assumes "map_of (instances pg) x = Some i" "opened i"
  shows "map_of (instances (useTerminal env theme c so pg)) x = Some i"
proof -
  have detach: "instances (detachFromContainer a b p) = instances p" for a b p
    by (simp add: detachFromContainer_def split: option.split)
  have append: "instances (appendChild a b p) = instances p" for a b p
    by (simp add: appendChild_def Let_def split: option.split)
  have re: "instances (reattach a b p) = instances p" for a b p
    by (simp add: reattach_def Let_def append split: option.split)
  have place: "map_of (instances (place_terminal env c b p)) x = Some i" if "map_of (instances p) x = Some i" for b p
  proof (cases "map_of (instances p) b")
    case None
    then show ?thesis using that by (simp add: place_terminal_def)
  next
    case (Some j)
    then show ?thesis
      using that assms(2) by (cases "b = x") (auto simp: place_terminal_def re open_terminal_def)
  qed
  show ?thesis
    using assms(1) by (auto simp: useTerminal_def Let_def detach has_key_def intro!: place)
qed

definition fits :: "term_theme \<Rightarrow> bool \<Rightarrow> term_inst \<Rightarrow> bool" where
  "fits theme isMobile i \<longleftrightarrow> opened i \<and> optionsTheme i = theme \<and>
     (\<forall>ta. textarea i = Some ta \<longrightarrow> (has_key ''readonly'' ta \<longleftrightarrow> isMobile))"

definition showing :: "term_theme \<Rightarrow> bool \<Rightarrow> page \<Rightarrow> nat \<times> string option \<Rightarrow> bool" where
  "showing theme isMobile pg v \<longleftrightarrow>
     childNodes pg (fst v) = sess_list (snd v) \<and>
     previousSessionId pg (fst v) = (if truthy (snd v) then snd v else None) \<and>
     (\<forall>x \<in> set (sess_list (snd v)). \<exists>i. map_of (instances pg) x = Some i \<and> fits theme isMobile i)"

lemma showing_settled:
  assumes "page_ok pg" "showing theme isMobile pg v"
  shows "settled (fst v) (snd v) pg pg"
proof -
  have "filter (\<lambda>x. x \<notin> set (sess_list (snd v))) (childNodes pg d) = childNodes pg d" if "d \<noteq> fst v" for d
  proof (intro filter_True ballI)
    fix x
    assume "x \<in> set (childNodes pg d)"
    then have "parentElement pg x = Some d" using page_okD(1) [OF assms(1)] by blast
    then show "x \<notin> set (sess_list (snd v))"
      using page_okD(1) [OF assms(1), of x "fst v"] assms(2) that by (auto simp: showing_def)
  qed
  then show ?thesis using assms by (auto simp: settled_def showing_def fits_def fun_eq_iff)
qed

lemma settled_on_inst:
  assumes "settled c so pg pg'" "x \<in> set (sess_list so)" "\<And>i. inst_ok i \<Longrightarrow> inst_ok (f i)" "\<And>i. opened (f i) = opened i"
  shows "settled c so pg (on_inst x f pg')"
  using assms on_inst_ok [of pg' f x] unfolding settled_def by auto

lemma has_key_lock [simp]: "has_key ''readonly'' (lock_textarea isMobile ta) \<longleftrightarrow> isMobile"
  by (simp add: lock_textarea_def has_key_def)

lemma themed:
  fixes so theme env
  assumes "page_ok pg" "room pg c" and xopen: "\<And>sid cs. xopen env sid cs = cs @ [sid]"
  defines "pg' \<equiv> theme_effect theme so (useTerminal env theme c so pg)"
  shows "settled c so pg pg'"
    "\<forall>x \<in> set (sess_list so). \<exists>i. map_of (instances pg') x = Some i \<and> opened i \<and> optionsTheme i = theme"
    "map_of (instances pg) x = Some i \<Longrightarrow> opened i \<Longrightarrow> x \<in> set (sess_list so) \<Longrightarrow>
     map_of (instances pg') x = Some (i\<lparr>optionsTheme := theme\<rparr>)"
proof -
  note use = useTerminal_settles [OF assms(1,2) xopen, of so theme]
  have eq: "pg' = (if truthy so then on_inst (the so) (\<lambda>inst. inst\<lparr>optionsTheme := theme\<rparr>) (useTerminal env theme c so pg)
      else useTerminal env theme c so pg)" by (simp add: pg'_def theme_effect_def)
  show "settled c so pg pg'"
    using use by (auto simp: eq sess_list_def inst_ok_def intro!: settled_on_inst)
  show "\<forall>x \<in> set (sess_list so). \<exists>i. map_of (instances pg') x = Some i \<and> opened i \<and> optionsTheme i = theme"
    using use by (auto simp: eq sess_list_def settled_def)
  show "map_of (instances pg) x = Some i \<Longrightarrow> opened i \<Longrightarrow> x \<in> set (sess_list so) \<Longrightarrow>
     map_of (instances pg') x = Some (i\<lparr>optionsTheme := theme\<rparr>)"
    using useTerminal_keeps [of pg x i env theme c so] by (auto simp: eq sess_list_def split: if_splits)
qed

lemma readonly_effect_eq:
  assumes "childNodes pg c = sess_list so"
  shows "readonly_effect isMobile c pg =
    (if truthy so then on_inst (the so) (\<lambda>i. i\<lparr>textarea := map_option (lock_textarea isMobile) (textarea i)\<rparr>) pg else pg)"
proof (cases "map_of (instances pg) (the so)")
  case None
  then show ?thesis using assms by (simp add: readonly_effect_def sess_list_def on_inst_def)
next
  case (Some i)
  have same: "put_inst (the so) i pg = pg" using Some by (simp add: put_inst_def update_triv)
  show ?thesis
  proof (cases "textarea i")
    case None
    then have eq: "i\<lparr>textarea := None\<rparr> = i" by simp
    have "put_inst (the so) (i\<lparr>textarea := None\<rparr>) pg = pg" by (simp only: eq same)
    then show ?thesis using assms Some None by (simp add: readonly_effect_def sess_list_def on_inst_def)
  qed (use assms Some in \<open>simp add: readonly_effect_def sess_list_def on_inst_def\<close>)
qed

lemma view_effects_show:
  fixes theme isMobile env
  assumes ok: "page_ok pg" and room: "room pg (fst v)"
    and old: "v \<in> set (sviews s) \<Longrightarrow> showing (stheme s) (smobile s) pg v"
    and xopen: "\<And>sid cs. xopen env sid cs = cs @ [sid]"
  defines "pg' \<equiv> view_effects env theme isMobile s v pg"
  shows "settled (fst v) (snd v) pg pg'" "showing theme isMobile pg' v"
proof -
  let ?S = "set (sess_list (snd v))" and ?new = "v \<notin> set (sviews s)"
  define pg1 where "pg1 = (if ?new \<or> theme \<noteq> stheme s then theme_effect theme (snd v) (useTerminal env theme (fst v) (snd v) pg) else pg)"
  note themed = themed [OF ok room xopen, where theme = theme and so = "snd v"]
  have set1: "settled (fst v) (snd v) pg pg1"
    using themed(1) showing_settled [OF ok old] by (simp add: pg1_def)
  have one: "\<forall>x \<in> ?S. \<exists>i. map_of (instances pg1) x = Some i \<and> opened i \<and> optionsTheme i = theme \<and>
      (?new \<or> isMobile \<noteq> smobile s \<or> (\<forall>ta. textarea i = Some ta \<longrightarrow> (has_key ''readonly'' ta \<longleftrightarrow> isMobile)))"
  proof (cases "?new")
    case True
    then show ?thesis using themed(2) by (simp add: pg1_def)
  next
    case False
    then have "\<forall>x \<in> ?S. \<exists>i. map_of (instances pg) x = Some i \<and> fits (stheme s) (smobile s) i"
      using old by (simp add: showing_def)
    moreover have "\<exists>j. map_of (instances pg1) x = Some j \<and> opened j \<and> optionsTheme j = theme \<and> textarea j = textarea i"
      if "x \<in> ?S" "map_of (instances pg) x = Some i" "fits (stheme s) (smobile s) i" for x i
      using themed(3) [OF that(2) _ that(1)] that False by (simp add: pg1_def fits_def)
    ultimately show ?thesis unfolding fits_def by metis
  qed
  have kids: "childNodes pg1 (fst v) = sess_list (snd v)" using set1 by (simp add: settled_def)
  have pg': "pg' = (if ?new \<or> isMobile \<noteq> smobile s then readonly_effect isMobile (fst v) pg1 else pg1)"
    by (simp add: pg'_def view_effects_def pg1_def Let_def)
  show set2: "settled (fst v) (snd v) pg pg'"
    using set1 unfolding pg' readonly_effect_eq [OF kids]
    by (auto simp: sess_list_def inst_ok_def intro!: settled_on_inst)
  have "\<forall>x \<in> ?S. \<exists>i. map_of (instances pg') x = Some i \<and> fits theme isMobile i"
    using one unfolding pg' readonly_effect_eq [OF kids] by (auto simp: sess_list_def fits_def split: if_splits)
  then show "showing theme isMobile pg' v" using set2 by (simp add: showing_def settled_def)
qed

section \<open>Every commit\<close>

definition pending :: "screen_state \<Rightarrow> page \<Rightarrow> nat \<times> string option \<Rightarrow> bool" where
  "pending s pg v \<longleftrightarrow> room pg (fst v) \<and> (v \<in> set (sviews s) \<longrightarrow> showing (stheme s) (smobile s) pg v)"

definition apart :: "(nat \<times> string option) list \<Rightarrow> bool" where
  "apart vs \<longleftrightarrow> distinct (map fst vs) \<and> distinct (concat (map (\<lambda>v. sess_list (snd v)) vs))"

lemma settled_other:
  assumes "settled (fst v) (snd v) pg pg'" "fst u \<noteq> fst v" "set (sess_list (snd u)) \<inter> set (sess_list (snd v)) = {}"
  shows "showing theme isMobile pg u \<Longrightarrow> showing theme isMobile pg' u" "room pg (fst u) \<Longrightarrow> room pg' (fst u)"
proof -
  have "filter (\<lambda>x. x \<notin> set (sess_list (snd v))) (sess_list (snd u)) = sess_list (snd u)"
    using assms(3) by (intro filter_True) auto
  moreover have "map_of (instances pg') x = map_of (instances pg) x" if "x \<in> set (sess_list (snd u))" for x
    using assms(1,3) that unfolding settled_def by auto
  ultimately show "showing theme isMobile pg u \<Longrightarrow> showing theme isMobile pg' u"
    using assms(1,2) by (simp add: showing_def settled_def)
  show "room pg (fst u) \<Longrightarrow> room pg' (fst u)"
    using assms(1,2) by (auto simp: room_def settled_def)
qed

lemma apart_Cons:
  "apart (v # vs) \<Longrightarrow> apart vs"
  "apart (v # vs) \<Longrightarrow> u \<in> set vs \<Longrightarrow> fst u \<noteq> fst v \<and> set (sess_list (snd u)) \<inter> set (sess_list (snd v)) = {}"
  by (simp add: apart_def, simp add: apart_def) (force intro: rev_image_eqI)

lemma commit_shows:
  assumes xopen: "\<And>sid cs. xopen env sid cs = cs @ [sid]"
  shows "page_ok pg \<Longrightarrow> apart vs \<Longrightarrow> (\<forall>v \<in> set vs. pending s pg v) \<Longrightarrow>
    page_ok (fold (view_effects env theme isMobile s) vs pg) \<and>
    (\<forall>v \<in> set vs. showing theme isMobile (fold (view_effects env theme isMobile s) vs pg) v) \<and>
    (\<forall>u. (\<forall>v \<in> set vs. fst u \<noteq> fst v \<and> set (sess_list (snd u)) \<inter> set (sess_list (snd v)) = {}) \<longrightarrow>
       showing theme isMobile pg u \<longrightarrow> showing theme isMobile (fold (view_effects env theme isMobile s) vs pg) u)"
proof (induction vs arbitrary: pg)
  case (Cons v vs)
  let ?pg = "view_effects env theme isMobile s v pg"
  have v: "room pg (fst v)" "v \<in> set (sviews s) \<Longrightarrow> showing (stheme s) (smobile s) pg v"
    using Cons.prems(3) by (simp_all add: pending_def)
  note step = view_effects_show [OF Cons.prems(1) v xopen, where theme = theme and isMobile = isMobile]
  have "pending s ?pg u" if "u \<in> set vs" for u
    using Cons.prems(3) that settled_other [OF step(1), of u] apart_Cons(2) [OF Cons.prems(2) that]
    by (simp add: pending_def)
  moreover have "page_ok ?pg" using step(1) by (simp add: settled_def)
  ultimately have IH: "page_ok (fold (view_effects env theme isMobile s) vs ?pg)"
      "\<forall>v \<in> set vs. showing theme isMobile (fold (view_effects env theme isMobile s) vs ?pg) v"
      "(\<forall>v \<in> set vs. fst u \<noteq> fst v \<and> set (sess_list (snd u)) \<inter> set (sess_list (snd v)) = {}) \<Longrightarrow>
       showing theme isMobile ?pg u \<Longrightarrow> showing theme isMobile (fold (view_effects env theme isMobile s) vs ?pg) u" for u
    using Cons.IH [of ?pg] apart_Cons(1) [OF Cons.prems(2)] by blast+
  have "showing theme isMobile (fold (view_effects env theme isMobile s) vs ?pg) v"
    using IH(3) [OF _ step(2)] apart_Cons(2) [OF Cons.prems(2)] by fastforce
  then show ?case using IH settled_other(1) [OF step(1)] by simp
qed simp

definition screen_ok :: "screen_state \<Rightarrow> bool" where
  "screen_ok s \<longleftrightarrow> page_ok (spage s) \<and> apart (sviews s) \<and>
     (\<forall>v \<in> set (sviews s). showing (stheme s) (smobile s) (spage s) v)"

lemma sessions_apart:
  "concat (map (\<lambda>l. sess_list (leaf_session l)) ls) = filter (\<lambda>x. x \<noteq> []) (map the (filter (\<lambda>i. i \<noteq> None) (map leaf_session ls)))"
  by (induction ls) (auto simp: sess_list_def truthy_def split: option.splits)

lemma views_apart:
  assumes "reachable_world rnd w" "PanelLayout_view isMobile (app w) = Some pv"
    and "inj_on cont (leaf_id ` set (shown_leaves pv))"
  shows "apart (views_of cont pv)"
proof -
  have "distinct (map leaf_id (shown_leaves pv)) \<and> distinct (concat (map (\<lambda>l. sess_list (leaf_session l)) (shown_leaves pv)))"
  proof (cases pv)
    case (WholeTree t)
    then obtain wid where "active_layout (app w) = Some (wid, t)"
      using assms(2) by (auto simp: PanelLayout_view_def Let_def split: option.splits if_splits)
    then have "tree_ok t"
      using layouts_okD(2) [OF store_okD(1) [OF reachable_store [OF assms(1)]]] active_layoutD by blast
    then show ?thesis
      using WholeTree tree_ok_leaf_ids [of t]
      unfolding sessions_apart by (simp add: shown_leaves_def leaf_ids_def tree_ok_def listVisibleSessionIds_def)
  qed (auto simp: shown_leaves_def sess_list_def)
  moreover from this have "distinct (map (\<lambda>l. cont (leaf_id l)) (shown_leaves pv))"
    using assms(3) distinct_map [of cont "map leaf_id (shown_leaves pv)"] by (simp add: comp_def)
  ultimately show ?thesis by (simp add: apart_def views_of_def comp_def)
qed

lemma screen_ok_step:
  assumes xopen: "\<And>sid cs. xopen env sid cs = cs @ [sid]"
  shows "screen_step env rnd s t \<Longrightarrow> screen_ok s \<Longrightarrow> screen_ok t"
proof (induction rule: screen_step.induct)
  case (1 w isMobile pv cont s theme)
  have "pending s (spage s) v" if "v \<in> set (views_of cont pv)" for v
  proof -
    have "room (spage s) (fst v)"
    proof (cases "fst v \<in> fst ` set (sviews s)")
      case True
      then obtain u where "u \<in> set (sviews s)" "fst u = fst v" by auto
      then have "showing (stheme s) (smobile s) (spage s) u" using 1(5) by (simp add: screen_ok_def)
      then show ?thesis
        using \<open>fst u = fst v\<close> by (cases "truthy (snd u)") (simp_all add: showing_def room_def sess_list_def)
    qed (use 1(4) that in \<open>auto simp: room_def\<close>)
    then show ?thesis using 1(5) by (simp add: pending_def screen_ok_def)
  qed
  then show ?case
    using commit_shows [OF xopen, of "spage s" "views_of cont pv" s theme isMobile]
      views_apart [OF 1(1-3)] 1(5)
    by (simp add: screen_ok_def commit_def)
qed

lemma screen_ok_start: "blank_screen s \<Longrightarrow> screen_ok s"
  by (simp add: blank_screen_def screen_ok_def empty_page_def page_ok_def apart_def)

text \<open>What the code relies on: \<open>terminal.open\<close> appends the element it creates.\<close>

definition xterm_appends :: "xterm \<Rightarrow> bool" where
  "xterm_appends env \<longleftrightarrow> (\<forall>sid cs. xopen env sid cs = cs @ [sid])"

interpretation screens: invariant_system "\<lambda>s. xterm_appends env \<and> blank_screen s" "screen_step env rnd"
    "\<lambda>s. xterm_appends env \<and> screen_ok s" for env rnd
  by unfold_locales (auto simp: xterm_appends_def intro: screen_ok_start screen_ok_step)

lemma reachable_screen:
  assumes "xterm_appends env" "reachable_from blank_screen (screen_step env rnd) s"
  shows "screen_ok s"
proof -
  have "reachable_from (\<lambda>s. xterm_appends env \<and> blank_screen s) (screen_step env rnd) s"
    using assms by (auto simp: reachable_from_def)
  then show ?thesis using screens.reachable_inv by blast
qed

section \<open>A concrete run\<close>

text \<open>One panel in container 0; after the split the two panels are new, and the first terminal moves.\<close>

definition ex_xterm :: xterm where
  "ex_xterm = \<lparr>xopen = \<lambda>sid cs. cs @ [sid], xtextarea = Some [], xwebgl = True\<rparr>"

definition ex_blank :: screen_state where
  "ex_blank = \<lparr>spage = empty_page, sviews = [], stheme = darkTerminalTheme, smobile = False\<rparr>"

definition ex_screen_one :: screen_state where
  "ex_screen_one = commit ex_xterm darkTerminalTheme False [(0, Some ''s1'')] ex_blank"

definition ex_screen_two :: screen_state where
  "ex_screen_two = commit ex_xterm darkTerminalTheme False [(2, Some ''s1''), (3, Some ''s2'')] ex_screen_one"

lemma ex_screens_eq:
  "childNodes (spage ex_screen_one) = (\<lambda>_. [])(0 := [''s1''])"
  "previousSessionId (spage ex_screen_one) = (\<lambda>_. None)(0 := Some ''s1'')"
  "sviews ex_screen_one = [(0, Some ''s1'')]" "sviews ex_screen_two = [(2, Some ''s1''), (3, Some ''s2'')]"
  "repainted (spage ex_screen_two) = [''s1'']" "childNodes (spage ex_screen_two) 0 = []"
  by (simp_all add: ex_screen_two_def ex_screen_one_def ex_blank_def commit_def view_effects_def useTerminal_def
      empty_page_def place_terminal_def open_terminal_def createInstance_def put_inst_def has_key_def ex_xterm_def
      loadWebgl_def configureTextarea_def bindInputListeners_def theme_effect_def on_inst_def readonly_effect_def
      lock_textarea_def reattach_def appendChild_def removeChild_def fun_eq_iff Let_def)

lemma ex_screens_reachable: "reachable_from blank_screen (screen_step ex_xterm ex_rnd) ex_screen_two"
proof -
  have views: "PanelLayout_view False (app ex_one) = Some (WholeTree (PLeaf \<lparr>leaf_id = ''leaf-1-7'', leaf_session = Some ''s1''\<rparr>))"
    "PanelLayout_view False (app ex_two) = Some (WholeTree ex_closed_tree)"
    by (simp_all add: PanelLayout_view_def active_layout_def layout_of_def ex_one_eq ex_two_eq)
  have cont: "views_of (\<lambda>_. 0) (WholeTree (PLeaf \<lparr>leaf_id = ''leaf-1-7'', leaf_session = Some ''s1''\<rparr>)) = [(0, Some ''s1'')]"
    "views_of (\<lambda>i. if i = ''leaf-1-7'' then 2 else 3) (WholeTree ex_closed_tree) = [(2, Some ''s1''), (3, Some ''s2'')]"
    by (simp_all add: views_of_def shown_leaves_def ex_closed_tree_def)
  have ids: "leaf_id ` set (shown_leaves (WholeTree ex_closed_tree)) = {''leaf-1-7'', ''leaf-2-7''}"
    by (simp add: shown_leaves_def ex_closed_tree_def)
  have blank: "reachable_from blank_screen (screen_step ex_xterm ex_rnd) ex_blank"
    by (rule reachable_start) (simp add: blank_screen_def ex_blank_def)
  have one: "screen_step ex_xterm ex_rnd ex_blank ex_screen_one"
    using screen_step.intros [OF ex_reachable(1) views(1), of "\<lambda>_. 0" ex_blank ex_xterm darkTerminalTheme]
    by (simp add: cont ex_screen_one_def ex_blank_def empty_page_def shown_leaves_def)
  have two: "screen_step ex_xterm ex_rnd ex_screen_one ex_screen_two"
    using screen_step.intros [OF ex_reachable(3) views(2), of "\<lambda>i. if i = ''leaf-1-7'' then 2 else 3" ex_screen_one ex_xterm darkTerminalTheme]
    by (simp add: cont ids ex_screen_two_def ex_screens_eq)
  show ?thesis by (rule reachable_step [OF reachable_step [OF blank one] two])
qed

end
