(* ===== verification/Clipboard.thy ===== *)
theory Clipboard
  imports Main "HOL-Library.Word"
begin

text \<open>
  Text on its way in and out of a terminal in \<open>frontend/src/hooks/useTerminal.ts\<close>: what the input listeners send
  (\<open>sendString\<close>, \<open>onBinary\<close>) and what the handler of OSC 52 puts on the clipboard, with the parts of the browser they
  use: \<open>TextEncoder\<close>, \<open>TextDecoder\<close> and \<open>atob\<close>, as the Encoding and Infra standards define them.

  A JavaScript string is a list of UTF-16 code units, a \<open>Uint8Array\<close> a list of 8-bit words, and a character a Unicode scalar value.
\<close>

section \<open>Strings and bytes\<close>

type_synonym units = "nat list"
type_synonym byte = "8 word"

definition high_surrogate :: "nat \<Rightarrow> bool" where "high_surrogate u \<longleftrightarrow> 0xD800 \<le> u \<and> u < 0xDC00"
definition low_surrogate :: "nat \<Rightarrow> bool" where "low_surrogate u \<longleftrightarrow> 0xDC00 \<le> u \<and> u < 0xE000"

definition scalar :: "nat \<Rightarrow> bool" where
  "scalar c \<longleftrightarrow> c < 0x110000 \<and> \<not> high_surrogate c \<and> \<not> low_surrogate c"

definition utf16 :: "nat list \<Rightarrow> units" where
  "utf16 cs = concat (map (\<lambda>c. if c < 0x10000 then [c]
     else [0xD800 + (c - 0x10000) div 0x400, 0xDC00 + (c - 0x10000) mod 0x400]) cs)"

text \<open>The scalar values of a string; a surrogate without its partner becomes U+FFFD.\<close>

fun scalars :: "units \<Rightarrow> nat list" where
  "scalars [] = []"
| "scalars [u] = (if high_surrogate u \<or> low_surrogate u then [0xFFFD] else [u])"
| "scalars (u # v # us) =
     (if high_surrogate u \<and> low_surrogate v then (0x10000 + (u - 0xD800) * 0x400 + (v - 0xDC00)) # scalars us
      else (if high_surrogate u \<or> low_surrogate u then 0xFFFD else u) # scalars (v # us))"

section \<open>UTF-8\<close>

definition utf8_char :: "nat \<Rightarrow> nat list" where
  "utf8_char c =
     (if c < 0x80 then [c]
      else if c < 0x800 then [0xC0 + c div 64, 0x80 + c mod 64]
      else if c < 0x10000 then [0xE0 + c div 4096, 0x80 + c div 64 mod 64, 0x80 + c mod 64]
      else [0xF0 + c div 262144, 0x80 + c div 4096 mod 64, 0x80 + c div 64 mod 64, 0x80 + c mod 64])"

text \<open>\<open>new TextEncoder().encode(data)\<close>\<close>

definition text_encode :: "units \<Rightarrow> byte list" where
  "text_encode us = map of_nat (concat (map utf8_char (scalars us)))"

text \<open>
  The decoder: bytes still needed, the code point so far, and the bounds of the next byte. A byte out of bounds ends the
  sequence with U+FFFD and is read again as the first of the next.
\<close>

record utf8_state =
  needed :: nat
  code_point :: nat
  lower_bound :: nat
  upper_bound :: nat

definition utf8_start :: utf8_state where
  "utf8_start = \<lparr>needed = 0, code_point = 0, lower_bound = 0x80, upper_bound = 0xBF\<rparr>"

definition first_byte :: "nat \<Rightarrow> utf8_state \<times> nat list" where
  "first_byte b =
     (if b \<le> 0x7F then (utf8_start, [b])
      else if 0xC2 \<le> b \<and> b \<le> 0xDF then (utf8_start\<lparr>needed := 1, code_point := b mod 32\<rparr>, [])
      else if 0xE0 \<le> b \<and> b \<le> 0xEF then
        (utf8_start\<lparr>needed := 2, code_point := b mod 16, lower_bound := if b = 0xE0 then 0xA0 else 0x80,
           upper_bound := if b = 0xED then 0x9F else 0xBF\<rparr>, [])
      else if 0xF0 \<le> b \<and> b \<le> 0xF4 then
        (utf8_start\<lparr>needed := 3, code_point := b mod 8, lower_bound := if b = 0xF0 then 0x90 else 0x80,
           upper_bound := if b = 0xF4 then 0x8F else 0xBF\<rparr>, [])
      else (utf8_start, [0xFFFD]))"

definition next_byte :: "utf8_state \<Rightarrow> nat \<Rightarrow> utf8_state \<times> nat list" where
  "next_byte st b =
     (if needed st = 0 then first_byte b
      else if b < lower_bound st \<or> upper_bound st < b then
        (let (st', out) = first_byte b in (st', 0xFFFD # out))
      else
        let c = code_point st * 64 + b mod 64
        in if needed st = 1 then (utf8_start, [c])
           else (\<lparr>needed = needed st - 1, code_point = c, lower_bound = 0x80, upper_bound = 0xBF\<rparr>, []))"

fun utf8_decode :: "utf8_state \<Rightarrow> nat list \<Rightarrow> nat list" where
  "utf8_decode st [] = (if needed st = 0 then [] else [0xFFFD])"
| "utf8_decode st (b # bs) = (case next_byte st b of (st', out) \<Rightarrow> out @ utf8_decode st' bs)"

text \<open>\<open>new TextDecoder().decode(bytes)\<close>: a byte order mark at the start is dropped.\<close>

definition text_decode :: "byte list \<Rightarrow> units" where
  "text_decode bytes =
     (let bs = map unat bytes
      in utf16 (utf8_decode utf8_start (if take 3 bs = [0xEF, 0xBB, 0xBF] then drop 3 bs else bs)))"

section \<open>Base64\<close>

definition b64_value :: "nat \<Rightarrow> nat option" where
  "b64_value u =
     (if 65 \<le> u \<and> u \<le> 90 then Some (u - 65)
      else if 97 \<le> u \<and> u \<le> 122 then Some (u - 71)
      else if 48 \<le> u \<and> u \<le> 57 then Some (u + 4)
      else if u = 43 then Some 62
      else if u = 47 then Some 63
      else None)"

fun b64_bytes :: "nat list \<Rightarrow> nat list" where
  "b64_bytes (a # b # c # d # vs) =
     (let n = ((a * 64 + b) * 64 + c) * 64 + d
      in n div 65536 # n div 256 mod 256 # n mod 256 # b64_bytes vs)"
| "b64_bytes [a, b, c] = (let n = (a * 64 + b) * 64 + c in [n div 1024, n div 4 mod 256])"
| "b64_bytes [a, b] = [(a * 64 + b) div 16]"
| "b64_bytes vs = []"

definition b64_unpad :: "units \<Rightarrow> units" where
  "b64_unpad us =
     (if length us mod 4 = 0 then
        if 2 \<le> length us \<and> drop (length us - 2) us = [61, 61] then butlast (butlast us)
        else if us \<noteq> [] \<and> last us = 61 then butlast us
        else us
      else us)"

text \<open>\<open>atob(payload)\<close>; \<open>None\<close>: it throws.\<close>

definition atob :: "units \<Rightarrow> units option" where
  "atob data =
     (let us = b64_unpad (filter (\<lambda>u. u \<notin> {9, 10, 12, 13, 32}) data)
      in if length us mod 4 = 1 \<or> (\<exists>u \<in> set us. b64_value u = None) then None
         else Some (b64_bytes (map (\<lambda>u. the (b64_value u)) us)))"

section \<open>The listeners\<close>

text \<open>What \<open>sendString\<close> hands to the socket, and the buffer \<open>onBinary\<close> fills: a code unit is cut to eight bits.\<close>

definition sendString_bytes :: "units \<Rightarrow> byte list" where
  "sendString_bytes data = text_encode data"

definition onBinary_bytes :: "units \<Rightarrow> byte list" where
  "onBinary_bytes data = map of_nat data"

text \<open>
  The handler of OSC 52: whether it reports the sequence as handled, and the text it writes, which needs a browser
  with a clipboard.
\<close>

definition osc52_payload :: "units \<Rightarrow> units" where
  "osc52_payload data = (if 59 \<in> set data then tl (dropWhile (\<lambda>u. u \<noteq> 59) data) else data)"

text \<open>\<open>execCopy\<close>: what \<open>document.execCommand('copy')\<close> makes of the selection, \<open>None\<close> when it throws or is refused.\<close>

definition onSelectionChange :: "(units \<Rightarrow> units option) \<Rightarrow> units \<Rightarrow> units \<Rightarrow> units" where
  "onSelectionChange execCopy sel clip =
     (if sel = [] then clip else case execCopy sel of None \<Rightarrow> clip | Some txt \<Rightarrow> txt)"

definition osc52 :: "bool \<Rightarrow> units \<Rightarrow> bool \<times> units option" where
  "osc52 hasClipboard data =
     (let payload = osc52_payload data in
      if payload = [63] then (True, None)
      else case atob payload of
             None \<Rightarrow> (False, None)
           | Some bin \<Rightarrow>
               let bytes = map of_nat bin
               in (True, if hasClipboard then Some (text_decode bytes) else None))"

section \<open>Round trips\<close>

lemma scalars_utf16: "\<forall>c \<in> set cs. scalar c \<Longrightarrow> scalars (utf16 cs) = cs"
proof (induction cs)
  case (Cons c cs)
  have IH: "scalars (utf16 cs) = cs" using Cons by simp
  show ?case
  proof (cases "c < 0x10000")
    case True
    then have "utf16 (c # cs) = c # utf16 cs" by (simp add: utf16_def)
    moreover have "scalars (c # us) = c # scalars us" for us
      using Cons.prems by (cases us) (auto simp: scalar_def)
    ultimately show ?thesis using IH by simp
  next
    case False
    let ?h = "0xD800 + (c - 0x10000) div 0x400" and ?l = "0xDC00 + (c - 0x10000) mod 0x400"
    have "c < 0x110000" using Cons.prems by (simp add: scalar_def)
    then have "high_surrogate ?h" "low_surrogate ?l"
      by (auto simp: high_surrogate_def low_surrogate_def less_mult_imp_div_less)
    moreover have "0x10000 + (?h - 0xD800) * 0x400 + (?l - 0xDC00) = c" using False by simp
    ultimately show ?thesis using False IH by (simp add: utf16_def)
  qed
qed (simp add: utf16_def)

lemma utf8_char_bytes: "scalar c \<Longrightarrow> b \<in> set (utf8_char c) \<Longrightarrow> b < 256"
  by (auto simp: utf8_char_def scalar_def split: if_splits)

text \<open>A number from its digits in base 64.\<close>

lemma digits:
  "n div 64 * 64 + n mod 64 = (n :: nat)"
  "(n div 4096 * 64 + n div 64 mod 64) * 64 + n mod 64 = n"
  "((n div 262144 * 64 + n div 4096 mod 64) * 64 + n div 64 mod 64) * 64 + n mod 64 = n"
proof -
  show one: "n div 64 * 64 + n mod 64 = n" for n :: nat by simp
  have "n div 4096 = n div 64 div 64" by (simp flip: div_mult2_eq)
  then show two: "(n div 4096 * 64 + n div 64 mod 64) * 64 + n mod 64 = n"
    using one [of n] one [of "n div 64"] by simp
  have "n div 262144 = n div 4096 div 64" by (simp flip: div_mult2_eq)
  then show "((n div 262144 * 64 + n div 4096 mod 64) * 64 + n div 64 mod 64) * 64 + n mod 64 = n"
    using two one [of "n div 4096"] by simp
qed

lemma decode_char:
  assumes "scalar c"
  shows "utf8_decode utf8_start (utf8_char c @ bs) = c # utf8_decode utf8_start bs"
proof -
  have top: "c < 0x110000" using assms by (simp add: scalar_def)
  then consider "c < 0x80" | "0x80 \<le> c" "c < 0x800" | "0x800 \<le> c" "c < 0x10000" | "0x10000 \<le> c" "c < 0x110000"
    by linarith
  then show ?thesis
  proof cases
    case 1
    then show ?thesis by (simp add: utf8_char_def next_byte_def first_byte_def utf8_start_def)
  next
    case 2
    define y z where "y = c div 64" and "z = c mod 64"
    have c: "c = y * 64 + z" unfolding y_def z_def by (rule digits(1) [symmetric])
    have yz: "2 \<le> y" "y < 32" "z < 64" using 2 by (auto simp: y_def z_def)
    have "utf8_char c = [0xC0 + y, 0x80 + z]" using 2 by (simp add: utf8_char_def y_def z_def)
    moreover have "(192 + y) mod 32 = y" "(128 + z) mod 64 = z"
      using yz mod_mult_self3 [of 6 32 y] mod_mult_self3 [of 2 64 z] by simp_all
    ultimately show ?thesis using yz by (auto simp: next_byte_def first_byte_def utf8_start_def c)
  next
    case 3
    define x y z where "x = c div 4096" and "y = c div 64 mod 64" and "z = c mod 64"
    have c: "c = (x * 64 + y) * 64 + z"
      unfolding x_def y_def z_def by (rule digits(2) [symmetric])
    have xyz: "x < 16" "y < 64" "z < 64" using 3 by (auto simp: x_def y_def z_def)
    have y: "x = 0 \<longrightarrow> 32 \<le> y" "x = 13 \<longrightarrow> y < 32"
      using assms 3 xyz by (auto simp: c scalar_def high_surrogate_def low_surrogate_def)
    have "utf8_char c = [0xE0 + x, 0x80 + y, 0x80 + z]" using 3 by (simp add: utf8_char_def x_def y_def z_def)
    moreover have "(224 + x) mod 16 = x" "(128 + y) mod 64 = y" "(128 + z) mod 64 = z"
      using xyz mod_mult_self3 [of 14 16 x] mod_mult_self3 [of 2 64 y] mod_mult_self3 [of 2 64 z] by simp_all
    ultimately show ?thesis
      using xyz y by (auto simp: next_byte_def first_byte_def utf8_start_def c)
  next
    case 4
    define w x y z where "w = c div 262144" and "x = c div 4096 mod 64" and "y = c div 64 mod 64" and "z = c mod 64"
    have c: "c = ((w * 64 + x) * 64 + y) * 64 + z"
      unfolding w_def x_def y_def z_def by (rule digits(3) [symmetric])
    have wxyz: "w < 5" "x < 64" "y < 64" "z < 64" using 4 by (auto simp: w_def x_def y_def z_def)
    have x: "w = 0 \<longrightarrow> 16 \<le> x" "w = 4 \<longrightarrow> x < 16"
      using 4 wxyz by (auto simp: c)
    have "utf8_char c = [0xF0 + w, 0x80 + x, 0x80 + y, 0x80 + z]" using 4 by (simp add: utf8_char_def w_def x_def y_def z_def)
    moreover have "(240 + w) mod 8 = w" "(128 + x) mod 64 = x" "(128 + y) mod 64 = y" "(128 + z) mod 64 = z"
      using wxyz mod_mult_self3 [of 30 8 w] mod_mult_self3 [of 2 64 x] mod_mult_self3 [of 2 64 y] mod_mult_self3 [of 2 64 z] by simp_all
    ultimately show ?thesis
      using wxyz x by (auto simp: next_byte_def first_byte_def utf8_start_def c)
  qed
qed

lemma decode_chars:
  "\<forall>c \<in> set cs. scalar c \<Longrightarrow> utf8_decode utf8_start (concat (map utf8_char cs)) = cs"
  by (induction cs) (simp_all add: decode_char, simp add: utf8_start_def)

lemma bom_char: "scalar c \<Longrightarrow> c \<noteq> 0xFEFF \<Longrightarrow> take 3 (utf8_char c @ bs) \<noteq> [0xEF, 0xBB, 0xBF]"
proof
  assume c: "scalar c" "c \<noteq> 0xFEFF" and bom: "take 3 (utf8_char c @ bs) = [0xEF, 0xBB, 0xBF]"
  then have "utf8_char c @ drop 3 (utf8_char c @ bs) \<noteq> []" by (auto simp: utf8_char_def)
  have hd: "hd (utf8_char c) = 0xEF" using bom by (cases "utf8_char c") (auto simp: utf8_char_def split: if_splits)
  have "c < 0x110000" using c by (simp add: scalar_def)
  then have "0x800 \<le> c" "c < 0x10000" "c div 4096 = 15" using hd by (auto simp: utf8_char_def split: if_splits)
  moreover from this have "c div 64 mod 64 = 59" "c mod 64 = 63" using bom by (auto simp: utf8_char_def)
  ultimately have "c = 0xFEFF" using digits(2) [of c] by simp
  then show False using c by simp
qed

text \<open>Text as a program puts it on the clipboard through OSC 52: the inverse of \<open>atob\<close>, as the sender computes it.\<close>

fun sextets :: "nat list \<Rightarrow> nat list" where
  "sextets (a # b # c # bs) =
     (let n = (a * 256 + b) * 256 + c in [n div 262144, n div 4096 mod 64, n div 64 mod 64, n mod 64] @ sextets bs)"
| "sextets [a, b] = (let n = a * 256 + b in [n div 1024, n div 16 mod 64, n mod 16 * 4])"
| "sextets [a] = [a div 4, a mod 4 * 16]"
| "sextets [] = []"

definition b64_char :: "nat \<Rightarrow> nat" where
  "b64_char v = (if v < 26 then v + 65 else if v < 52 then v + 71 else if v < 62 then v - 4 else if v = 62 then 43 else 47)"

definition base64 :: "nat list \<Rightarrow> units" where
  "base64 bs = map b64_char (sextets bs) @ replicate ((3 - length bs mod 3) mod 3) 61"

lemma b64_value_char: "v < 64 \<Longrightarrow> b64_value (b64_char v) = Some v"
  by (auto simp: b64_value_def b64_char_def)

lemma b64_char_other: "v < 64 \<Longrightarrow> b64_char v \<notin> {9, 10, 12, 13, 32, 59, 61, 63}"
  by (auto simp: b64_char_def)

lemma sextets_bound: "\<forall>b \<in> set bs. b < 256 \<Longrightarrow> v \<in> set (sextets bs) \<Longrightarrow> v < 64"
  by (induction bs rule: sextets.induct) (auto simp: Let_def)

lemma sextets_length:
  "length (sextets bs) mod 4 = (if length bs mod 3 = 0 then 0 else Suc (length bs mod 3))"
  "sextets bs = [] \<longleftrightarrow> bs = []"
proof -
  have step: "Suc (Suc (Suc n)) mod 3 = n mod 3" "Suc (Suc (Suc (Suc n))) mod 4 = n mod 4" for n :: nat by presburger+
  show "length (sextets bs) mod 4 = (if length bs mod 3 = 0 then 0 else Suc (length bs mod 3))"
    by (induction bs rule: sextets.induct) (simp_all add: Let_def step)
  show "sextets bs = [] \<longleftrightarrow> bs = []" by (cases bs rule: sextets.cases) (simp_all add: Let_def)
qed

lemma byte_digits: "y < 256 \<Longrightarrow> (x * 256 + y) div 256 = x" "y < 256 \<Longrightarrow> (x * 256 + y) mod 256 = (y :: nat)"
  by simp_all

lemma bytes_sextets: "\<forall>b \<in> set bs. b < 256 \<Longrightarrow> b64_bytes (sextets bs) = bs"
proof (induction bs rule: sextets.induct)
  case (1 a b c bs)
  define n where "n = (a * 256 + b) * 256 + c"
  have bytes: "b64_bytes (sextets (a # b # c # bs)) = n div 65536 # n div 256 mod 256 # n mod 256 # b64_bytes (sextets bs)"
    unfolding sextets.simps Let_def n_def [symmetric] by (simp only: append.simps b64_bytes.simps Let_def digits(3))
  have "c < 256" using 1(2) by simp
  then have "n div 256 = a * 256 + b" "n mod 256 = c" unfolding n_def by (rule byte_digits)+
  moreover have "n div 65536 = n div 256 div 256" by (simp flip: div_mult2_eq)
  ultimately have "n div 65536 = a" "n div 256 mod 256 = b" "n mod 256 = c"
    using byte_digits [of b a] 1(2) by simp_all
  then show ?case using 1 bytes by simp
next
  case (2 a b)
  define n where "n = a * 256 + b"
  have "n div 1024 = n div 16 div 64" by (simp flip: div_mult2_eq)
  then have "n div 1024 * 64 + n div 16 mod 64 = n div 16" by simp
  then have "b64_bytes (sextets [a, b]) = [(n div 16 * 64 + n mod 16 * 4) div 1024, (n div 16 * 64 + n mod 16 * 4) div 4 mod 256]"
    by (simp only: sextets.simps b64_bytes.simps Let_def flip: n_def)
  moreover have four: "n div 16 * 64 + n mod 16 * 4 = n * 4" using arg_cong [OF div_mult_mod_eq [of n 16], of "\<lambda>k. k * 4"] by (simp only: add_mult_distrib)
  moreover have "n * 4 div 1024 = n div 256" using div_mult2_eq [of "n * 4" 4 256] by simp
  moreover have "n div 256 = a" "n mod 256 = b" unfolding n_def using byte_digits 2 by simp_all
  ultimately show ?case by simp
qed simp_all

lemma two_last: "us = xs @ [x] \<Longrightarrow> drop (length us - 1) (us @ [y]) = [x, y]"
  by simp

lemma atob_base64:
  assumes "\<forall>b \<in> set bs. b < 256"
  shows "atob (base64 bs) = Some bs"
proof -
  let ?us = "map b64_char (sextets bs)"
  have chars: "u \<notin> {9, 10, 12, 13, 32, 61}" "b64_value u \<noteq> None" if "u \<in> set ?us" for u
    using that sextets_bound [OF assms] b64_char_other b64_value_char by fastforce+
  have spaces: "filter (\<lambda>u. u \<notin> {9, 10, 12, 13, 32}) (base64 bs) = base64 bs"
    using chars(1) by (intro filter_True) (auto simp: base64_def)
  have tail: "us \<noteq> [] \<Longrightarrow> last us \<noteq> 61" "drop k us \<noteq> [61, 61]" if "us = ?us" for us k
  proof -
    show "us \<noteq> [] \<Longrightarrow> last us \<noteq> 61" using that chars(1) last_in_set [of us] by blast
    have "61 \<notin> set (drop k us)" using that chars(1) set_drop_subset [of k us] by blast
    then show "drop k us \<noteq> [61, 61]" by auto
  qed
  have "b64_unpad (base64 bs) = ?us"
  proof -
    note len = sextets_length [of bs]
    consider "length bs mod 3 = 0" | "length bs mod 3 = 1" | "length bs mod 3 = 2" by linarith
    then show ?thesis
    proof cases
      case 1
      then show ?thesis using tail [OF refl] len by (cases "bs = []") (simp_all add: b64_unpad_def base64_def)
    next
      case 2
      then show ?thesis using len by (simp add: b64_unpad_def base64_def butlast_append mod_Suc numeral_2_eq_2)
    next
      case 3
      then have "sextets bs \<noteq> []" using len by auto
      then have "?us = butlast ?us @ [last ?us]" "last ?us \<noteq> 61" using tail(1) [OF refl] by simp_all
      then have "drop (length ?us - 1) (?us @ [61]) \<noteq> [61, 61]"
        using two_last [of ?us "butlast ?us" "last ?us" 61] by simp
      then show ?thesis using 3 len by (simp add: b64_unpad_def base64_def mod_Suc)
    qed
  qed
  moreover have "map (\<lambda>u. the (b64_value u)) ?us = sextets bs"
    using sextets_bound [OF assms] by (simp add: map_idI b64_value_char)
  ultimately show ?thesis
    using chars(2) sextets_length(1) [of bs] bytes_sextets [OF assms] unfolding atob_def spaces Let_def by simp
qed

lemma unat_bytes: "\<forall>b \<in> set bs. b < 256 \<Longrightarrow> map unat (map of_nat bs :: byte list) = bs"
  by (induction bs) (simp_all add: unat_of_nat take_bit_nat_eq_self)

lemma text_encode_utf16:
  "\<forall>c \<in> set cs. scalar c \<Longrightarrow> text_encode (utf16 cs) = map of_nat (concat (map utf8_char cs))"
  by (simp add: text_encode_def scalars_utf16)

lemma utf8_bytes: "\<forall>c \<in> set cs. scalar c \<Longrightarrow> \<forall>b \<in> set (concat (map utf8_char cs)). b < 256"
  using utf8_char_bytes by auto

lemma text_decode_utf8:
  assumes "\<forall>c \<in> set cs. scalar c" "cs = [] \<or> hd cs \<noteq> 0xFEFF"
  shows "text_decode (map of_nat (concat (map utf8_char cs))) = utf16 cs"
proof -
  have "take 3 (concat (map utf8_char cs)) \<noteq> [0xEF, 0xBB, 0xBF]"
    using assms bom_char by (cases cs) simp_all
  then show ?thesis
    unfolding text_decode_def unat_bytes [OF utf8_bytes [OF assms(1)]] by (simp add: decode_chars [OF assms(1)])
qed

lemma base64_chars: "\<forall>b \<in> set bs. b < 256 \<Longrightarrow> 59 \<notin> set (base64 bs) \<and> 63 \<notin> set (base64 bs)"
  using sextets_bound [of bs] b64_char_other by (fastforce simp: base64_def)

text \<open>A selection of xterm is copied through the browser, which may refuse; dropping a selection copies nothing.\<close>

lemma selection_copied:
  "execCopy sel = Some txt \<Longrightarrow> sel \<noteq> [] \<Longrightarrow> onSelectionChange execCopy sel clip = txt"
  "execCopy sel = None \<or> sel = [] \<Longrightarrow> onSelectionChange execCopy sel clip = clip"
  by (auto simp: onSelectionChange_def)

lemma osc52_payload_split: "59 \<notin> set tgt \<Longrightarrow> osc52_payload (tgt @ 59 # payload) = payload"
  by (simp add: osc52_payload_def dropWhile_append)

lemma osc52_rejects:
  "osc52_payload data \<noteq> [63] \<Longrightarrow> atob (osc52_payload data) = None \<Longrightarrow> osc52 hc data = (False, None)"
  "osc52_payload data = [63] \<Longrightarrow> osc52 hc data = (True, None)"
  by (simp_all add: osc52_def Let_def)

lemma unpad_keeps:
  assumes "u \<in> set us" "u \<noteq> 61"
  shows "u \<in> set (b64_unpad us)"
proof -
  have two: "u \<in> set (butlast (butlast us))" if "drop (length us - 2) us = [61, 61]"
  proof -
    have "us = take (length us - 2) us @ [61, 61]" using append_take_drop_id [of "length us - 2" us] that by simp
    then obtain xs where "us = xs @ [61, 61]" by blast
    then show ?thesis using assms by (simp add: butlast_append)
  qed
  have "u \<in> set (butlast us)" if "last us = 61"
    using that assms by (cases us rule: rev_cases) auto
  then show ?thesis using assms two by (simp add: b64_unpad_def)
qed

lemma atob_rejects:
  assumes "u \<in> set data" "b64_value u = None" "u \<notin> {9, 10, 12, 13, 32, 61}"
  shows "atob data = None"
proof -
  let ?us = "filter (\<lambda>u. u \<notin> {9, 10, 12, 13, 32}) data"
  have "u \<in> set ?us" using assms(1,3) by simp
  then have "u \<in> set (b64_unpad ?us)" using unpad_keeps assms(3) by blast
  then show ?thesis using assms(2) unfolding atob_def Let_def by auto
qed

end
