(* ===== verification/Styles.thy ===== *)
theory Styles
  imports Theming
begin

text \<open>
  What a component returns: trees of elements with their attributes, styles, handlers and children, and the inline
  style objects of \<open>frontend/src/App.tsx\<close> and the files under \<open>frontend/src/components\<close>, one definition per object in the
  order of its file, with the state a conditional entry depends on as an argument.
\<close>

section \<open>Elements\<close>

text \<open>
  A property is a string, a number or the sizes of a panel group. A handler names its event, whether it stops the
  propagation, and the callbacks it runs. Text outside ASCII is a list of code points.
\<close>

datatype pvalue = Str string | Num rat | Sizes "(string \<times> rat) list"

type_synonym style = "(string \<times> pvalue) list"

datatype 'a view =
    Elem string "(string \<times> pvalue) list" style "(string \<times> bool \<times> 'a list) list" "'a view list"
  | Txt string
  | Glyphs "nat list"

definition mono_font :: string where
  "mono_font = [CHR 0x27] @ ''JetBrains Mono'' @ [CHR 0x27] @ '', monospace''"

section \<open>Styles\<close>

definition login_page :: "ui_colors \<Rightarrow> style" where
  "login_page ui =
    [(''display'', Str ''flex''), (''alignItems'', Str ''center''), (''justifyContent'', Str ''center''),
     (''minHeight'', Str ''100vh''), (''width'', Str ''100vw''), (''backgroundColor'', Str (ui_appBg ui)),
     (''fontFamily'', Str mono_font), (''padding'', Str ''24px''), (''boxSizing'', Str ''border-box'')]"

definition login_box :: "style" where
  "login_box =
    [(''display'', Str ''flex''), (''flexDirection'', Str ''column''), (''gap'', Str ''16px''),
     (''width'', Str ''100%''), (''maxWidth'', Str ''320px'')]"

definition login_title :: "ui_colors \<Rightarrow> style" where
  "login_title ui =
    [(''color'', Str (ui_textPrimary ui)), (''fontSize'', Str ''20px''), (''fontWeight'', Num 600),
     (''textAlign'', Str ''center''), (''marginBottom'', Str ''8px'')]"

definition login_hint :: "ui_colors \<Rightarrow> style" where
  "login_hint ui =
    [(''color'', Str (ui_textSecondary ui)), (''fontSize'', Str ''13px''), (''textAlign'', Str ''center'')]"

definition login_input :: "ui_colors \<Rightarrow> style" where
  "login_input ui =
    [(''backgroundColor'', Str (ui_tabActiveBg ui)),
     (''border'', Str (''1px solid '' @ ui_sidebarBorder ui)), (''color'', Str (ui_textPrimary ui)),
     (''fontSize'', Str ''16px''), (''fontFamily'', Str ''inherit''), (''padding'', Str ''12px 14px''),
     (''outline'', Str ''none''), (''width'', Str ''100%''), (''boxSizing'', Str ''border-box''),
     (''borderRadius'', Num 4)]"

definition login_error_style :: "ui_colors \<Rightarrow> style" where
  "login_error_style ui =
    [(''color'', Str (ui_danger ui)), (''fontSize'', Str ''12px''), (''textAlign'', Str ''center'')]"

definition login_button :: "ui_colors \<Rightarrow> bool \<Rightarrow> string \<Rightarrow> style" where
  "login_button ui loading pw =
    [(''backgroundColor'', Str (ui_accent ui)), (''border'', Str ''none''), (''color'', Str ''#fff''),
     (''fontSize'', Str ''14px''), (''fontFamily'', Str ''inherit''), (''fontWeight'', Num 600),
     (''padding'', Str ''12px''), (''cursor'', (if loading then Str ''wait'' else Str ''pointer'')),
     (''opacity'', (if loading \<or> pw = [] then Num (6/10) else Num 1)), (''borderRadius'', Num 4),
     (''minHeight'', Num 44)]"

definition sidebar_frame :: "ui_colors \<Rightarrow> style" where
  "sidebar_frame ui =
    [(''width'', Str ''100%''), (''height'', Str ''100%''), (''backgroundColor'', Str (ui_sidebarBg ui)),
     (''borderRight'', Str (''1px solid '' @ ui_sidebarBorder ui)), (''display'', Str ''flex''),
     (''flexDirection'', Str ''column''), (''fontFamily'', Str mono_font)]"

definition sidebar_header :: "ui_colors \<Rightarrow> style" where
  "sidebar_header ui =
    [(''padding'', Str ''12px 16px''), (''fontSize'', Str ''11px''), (''fontWeight'', Num 600),
     (''letterSpacing'', Str ''0.5px''), (''textTransform'', Str ''uppercase''),
     (''color'', Str (ui_textMuted ui)), (''borderBottom'', Str (''1px solid '' @ ui_sidebarBorder ui)),
     (''display'', Str ''flex''), (''justifyContent'', Str ''space-between''),
     (''alignItems'', Str ''center''), (''gap'', Num 8)]"

definition sidebar_header_buttons :: "style" where
  "sidebar_header_buttons =
    [(''display'', Str ''flex''), (''alignItems'', Str ''center''), (''gap'', Num 4)]"

definition sidebar_add :: "ui_colors \<Rightarrow> style" where
  "sidebar_add ui =
    [(''background'', Str ''none''), (''border'', Str ''none''), (''color'', Str (ui_textSecondary ui)),
     (''cursor'', Str ''pointer''), (''fontSize'', Str ''18px''), (''padding'', Str ''4px 6px''),
     (''lineHeight'', Num 1), (''minHeight'', Num 28), (''minWidth'', Num 28)]"

definition sidebar_close :: "ui_colors \<Rightarrow> style" where
  "sidebar_close ui =
    [(''background'', Str ''none''), (''border'', Str ''none''), (''color'', Str (ui_textSecondary ui)),
     (''cursor'', Str ''pointer''), (''fontSize'', Str ''18px''), (''padding'', Str ''4px 8px''),
     (''lineHeight'', Num 1), (''minHeight'', Num 28), (''minWidth'', Num 28)]"

definition sidebar_list :: "style" where
  "sidebar_list =
    [(''flex'', Num 1), (''overflow'', Str ''auto''), (''padding'', Str ''4px 0'')]"

definition sidebar_row_style :: "ui_colors \<Rightarrow> bool \<Rightarrow> style" where
  "sidebar_row_style ui isActive =
    [(''padding'', Str ''10px 16px''), (''cursor'', Str ''pointer''),
     (''backgroundColor'', (if isActive then Str (ui_tabActiveBg ui) else Str ''transparent'')),
     (''color'', (if isActive then Str (ui_textPrimary ui) else Str (ui_textSecondary ui))),
     (''fontSize'', Str ''13px''), (''display'', Str ''flex''), (''justifyContent'', Str ''space-between''),
     (''alignItems'', Str ''center''), (''minHeight'', Num 40)]"

definition sidebar_rename :: "ui_colors \<Rightarrow> style" where
  "sidebar_rename ui =
    [(''background'', Str ''transparent''), (''border'', Str (''1px solid '' @ ui_accent ui)),
     (''color'', Str (ui_textPrimary ui)), (''fontSize'', Str ''13px''), (''fontFamily'', Str ''inherit''),
     (''padding'', Str ''4px 6px''), (''width'', Str ''100%''), (''outline'', Str ''none'')]"

definition sidebar_label :: "style" where
  "sidebar_label =
    [(''flex'', Num 1), (''minWidth'', Num 0), (''display'', Str ''flex''),
     (''flexDirection'', Str ''column''), (''gap'', Num 2)]"

definition sidebar_name :: "style" where
  "sidebar_name =
    [(''overflow'', Str ''hidden''), (''textOverflow'', Str ''ellipsis''), (''whiteSpace'', Str ''nowrap'')]"

definition sidebar_cwd :: "ui_colors \<Rightarrow> style" where
  "sidebar_cwd ui =
    [(''fontSize'', Str ''11px''), (''color'', Str (ui_textMuted ui)), (''overflow'', Str ''hidden''),
     (''textOverflow'', Str ''ellipsis''), (''whiteSpace'', Str ''nowrap''), (''direction'', Str ''rtl''),
     (''textAlign'', Str ''left'')]"

definition sidebar_dot :: "ui_colors \<Rightarrow> style" where
  "sidebar_dot ui =
    [(''width'', Num 6), (''height'', Num 6), (''borderRadius'', Str ''50%''),
     (''backgroundColor'', Str (ui_accent ui)), (''flexShrink'', Num 0), (''marginLeft'', Num 8)]"

definition sidebar_new_box :: "style" where
  "sidebar_new_box =
    [(''padding'', Str ''4px 16px'')]"

definition sidebar_new_input :: "ui_colors \<Rightarrow> style" where
  "sidebar_new_input ui =
    [(''width'', Str ''100%''), (''background'', Str ''transparent''),
     (''border'', Str (''1px solid '' @ ui_accent ui)), (''color'', Str (ui_textPrimary ui)),
     (''fontSize'', Str ''13px''), (''fontFamily'', Str ''inherit''), (''padding'', Str ''8px 10px''),
     (''outline'', Str ''none''), (''boxSizing'', Str ''border-box'')]"

definition sidebar_footer :: "ui_colors \<Rightarrow> style" where
  "sidebar_footer ui =
    [(''padding'', Str ''10px 12px''), (''borderTop'', Str (''1px solid '' @ ui_sidebarBorder ui)),
     (''fontSize'', Str ''11px''), (''color'', Str (ui_textMuted ui)), (''display'', Str ''flex''),
     (''alignItems'', Str ''center''), (''justifyContent'', Str ''space-between''), (''gap'', Num 8)]"

definition sidebar_brand :: "style" where
  "sidebar_brand =
    [(''overflow'', Str ''hidden''), (''textOverflow'', Str ''ellipsis''), (''whiteSpace'', Str ''nowrap'')]"

definition sidebar_theme :: "ui_colors \<Rightarrow> style" where
  "sidebar_theme ui =
    [(''background'', Str ''transparent''), (''border'', Str (''1px solid '' @ ui_sidebarBorder ui)),
     (''borderRadius'', Num 4), (''color'', Str (ui_textSecondary ui)), (''cursor'', Str ''pointer''),
     (''fontFamily'', Str ''inherit''), (''fontSize'', Num 11), (''padding'', Str ''4px 8px''),
     (''display'', Str ''flex''), (''alignItems'', Str ''center''), (''gap'', Num 6), (''minHeight'', Num 28)]"

definition sidebar_menu :: "ui_colors \<Rightarrow> rat \<Rightarrow> rat \<Rightarrow> style" where
  "sidebar_menu ui x y =
    [(''position'', Str ''fixed''), (''left'', Num x), (''top'', Num y),
     (''backgroundColor'', Str (ui_tabActiveBg ui)),
     (''border'', Str (''1px solid '' @ ui_sidebarBorder ui)), (''zIndex'', Num 1000),
     (''minWidth'', Str ''140px''), (''fontFamily'', Str mono_font), (''fontSize'', Str ''12px'')]"

definition sidebar_menu_rename :: "ui_colors \<Rightarrow> style" where
  "sidebar_menu_rename ui =
    [(''display'', Str ''block''), (''width'', Str ''100%''), (''padding'', Str ''8px 12px''),
     (''background'', Str ''none''), (''border'', Str ''none''), (''color'', Str (ui_textPrimary ui)),
     (''cursor'', Str ''pointer''), (''textAlign'', Str ''left''), (''fontFamily'', Str ''inherit''),
     (''fontSize'', Str ''inherit'')]"

definition sidebar_menu_delete :: "ui_colors \<Rightarrow> style" where
  "sidebar_menu_delete ui =
    [(''display'', Str ''block''), (''width'', Str ''100%''), (''padding'', Str ''8px 12px''),
     (''background'', Str ''none''), (''border'', Str ''none''), (''color'', Str (ui_danger ui)),
     (''cursor'', Str ''pointer''), (''textAlign'', Str ''left''), (''fontFamily'', Str ''inherit''),
     (''fontSize'', Str ''inherit'')]"

definition mobile_bar :: "ui_colors \<Rightarrow> style" where
  "mobile_bar ui =
    [(''flexShrink'', Num 0), (''borderTop'', Str (''1px solid '' @ ui_sidebarBorder ui)),
     (''backgroundColor'', Str (ui_tabActiveBg ui)), (''paddingBottom'', Str ''env(safe-area-inset-bottom)'')]"

definition mobile_keys :: "style" where
  "mobile_keys =
    [(''display'', Str ''flex''), (''gap'', Num 6), (''padding'', Str ''6px 8px''),
     (''overflowX'', Str ''auto''), (''WebkitOverflowScrolling'', Str ''touch'')]"

definition mobile_key :: "ui_colors \<Rightarrow> style" where
  "mobile_key ui =
    [(''flex'', Str ''0 0 auto''), (''minWidth'', Num 44), (''height'', Num 36),
     (''padding'', Str ''0 10px''), (''backgroundColor'', Str (ui_hoverBg ui)),
     (''border'', Str (''1px solid '' @ ui_sidebarBorder ui)), (''borderRadius'', Num 6),
     (''color'', Str (ui_textPrimary ui)), (''fontFamily'', Str mono_font), (''fontSize'', Num 13),
     (''cursor'', Str ''pointer''), (''whiteSpace'', Str ''nowrap'')]"

definition mobile_row :: "style" where
  "mobile_row =
    [(''display'', Str ''flex''), (''alignItems'', Str ''flex-end''), (''gap'', Num 8),
     (''padding'', Str ''0 8px 8px'')]"

definition mobile_box :: "ui_colors \<Rightarrow> style" where
  "mobile_box ui =
    [(''flex'', Num 1), (''minWidth'', Num 0), (''height'', Num 40), (''position'', Str ''relative''),
     (''overflow'', Str ''hidden''), (''backgroundColor'', Str (ui_appBg ui)),
     (''border'', Str (''1px solid '' @ ui_sidebarBorder ui)), (''borderRadius'', Num 6)]"

definition mobile_text :: "ui_colors \<Rightarrow> style" where
  "mobile_text ui =
    [(''position'', Str ''absolute''), (''top'', Num 0), (''left'', Num 0), (''width'', Str ''142.857%''),
     (''height'', Str ''142.857%''), (''transform'', Str ''scale(0.7)''),
     (''transformOrigin'', Str ''top left''), (''padding'', Str ''11px 14px''),
     (''backgroundColor'', Str ''transparent''), (''border'', Str ''none''),
     (''color'', Str (ui_textPrimary ui)), (''fontFamily'', Str mono_font), (''fontSize'', Num 20),
     (''lineHeight'', Num (14/10)), (''outline'', Str ''none''), (''resize'', Str ''none'')]"

definition mobile_send :: "ui_colors \<Rightarrow> string option \<Rightarrow> style" where
  "mobile_send ui sessionId =
    [(''flex'', Str ''0 0 auto''), (''minWidth'', Num 56), (''height'', Num 40),
     (''padding'', Str ''0 14px''), (''backgroundColor'', Str (ui_accent ui)), (''border'', Str ''none''),
     (''borderRadius'', Num 6), (''color'', Str ''#fff''), (''fontFamily'', Str ''inherit''),
     (''fontSize'', Num 14), (''fontWeight'', Num 600),
     (''cursor'', (if truthy sessionId then Str ''pointer'' else Str ''not-allowed'')),
     (''opacity'', (if truthy sessionId then Num 1 else Num (5/10)))]"

definition group_style :: "style" where
  "group_style =
    [(''width'', Str ''100%''), (''height'', Str ''100%'')]"

definition separator_style :: "ui_colors \<Rightarrow> bool \<Rightarrow> style" where
  "separator_style ui horizontal =
    [(''backgroundColor'', Str (ui_tabBorder ui)), (''flexShrink'', Num 0)] @
    (if horizontal then [(''width'', Num 4)] else []) @
    (if \<not> horizontal then [(''height'', Num 4)] else [])"

definition leaf_style :: "ui_colors \<Rightarrow> bool \<Rightarrow> style" where
  "leaf_style ui isFocused =
    [(''position'', Str ''relative''), (''width'', Str ''100%''), (''height'', Str ''100%''),
     (''boxSizing'', Str ''border-box''),
     (''border'', Str (''2px solid '' @ (if isFocused then ui_accent ui else ''transparent''))),
     (''transition'', Str ''border-color 100ms'')]"

definition leaf_button_style :: "ui_colors \<Rightarrow> style" where
  "leaf_button_style ui =
    [(''width'', Num 26), (''height'', Num 26), (''background'', Str (ui_tabActiveBg ui)),
     (''border'', Str (''1px solid '' @ ui_tabBorder ui)), (''borderRadius'', Num 4),
     (''color'', Str (ui_textSecondary ui)), (''cursor'', Str ''pointer''),
     (''fontFamily'', Str ''inherit''), (''fontSize'', Num 14), (''lineHeight'', Num 1),
     (''padding'', Num 0), (''display'', Str ''flex''), (''alignItems'', Str ''center''),
     (''justifyContent'', Str ''center'')]"

definition leaf_toolbar_style :: "style" where
  "leaf_toolbar_style =
    [(''position'', Str ''absolute''), (''top'', Num 6), (''right'', Num 6), (''display'', Str ''flex''),
     (''gap'', Num 4), (''zIndex'', Num 15)]"

definition zone_style :: "ui_colors \<Rightarrow> bool \<Rightarrow> style \<Rightarrow> style" where
  "zone_style ui isOver rect =
    [(''position'', Str ''absolute'')] @
    rect @
    [(''backgroundColor'', (if isOver then Str (ui_accent ui @ ''33'') else Str ''transparent'')),
     (''outline'', (if isOver then Str (''2px dashed '' @ ui_accent ui) else Str ''none'')),
     (''outlineOffset'', Num (- 2)), (''pointerEvents'', Str ''auto''), (''zIndex'', Num 20),
     (''transition'', Str ''background-color 80ms'')]"

definition tabbar_style :: "ui_colors \<Rightarrow> style" where
  "tabbar_style ui =
    [(''display'', Str ''flex''), (''alignItems'', Str ''stretch''),
     (''backgroundColor'', Str (ui_tabBarBg ui)), (''borderBottom'', Str (''1px solid '' @ ui_tabBorder ui)),
     (''height'', Str ''40px''), (''fontFamily'', Str mono_font), (''fontSize'', Str ''12px''),
     (''overflow'', Str ''hidden'')]"

definition tab_menu :: "ui_colors \<Rightarrow> style" where
  "tab_menu ui =
    [(''background'', Str ''none''), (''border'', Str ''none''),
     (''borderRight'', Str (''1px solid '' @ ui_tabBorder ui)), (''color'', Str (ui_textSecondary ui)),
     (''cursor'', Str ''pointer''), (''fontSize'', Str ''18px''), (''padding'', Str ''0 14px''),
     (''display'', Str ''flex''), (''alignItems'', Str ''center''), (''minWidth'', Num 44)]"

definition tab_list :: "style" where
  "tab_list =
    [(''display'', Str ''flex''), (''flex'', Num 1), (''overflowX'', Str ''auto''),
     (''overflowY'', Str ''hidden'')]"

definition tab_new :: "ui_colors \<Rightarrow> style" where
  "tab_new ui =
    [(''background'', Str ''none''), (''border'', Str ''none''),
     (''borderLeft'', Str (''1px solid '' @ ui_tabBorder ui)), (''color'', Str (ui_textSecondary ui)),
     (''cursor'', Str ''pointer''), (''fontSize'', Str ''18px''), (''padding'', Str ''0 14px''),
     (''display'', Str ''flex''), (''alignItems'', Str ''center''), (''minWidth'', Num 44)]"

definition tab_style :: "ui_colors \<Rightarrow> bool \<Rightarrow> bool \<Rightarrow> style" where
  "tab_style ui isActive isDragging =
    [(''display'', Str ''flex''), (''alignItems'', Str ''center''), (''gap'', Str ''6px''),
     (''padding'', Str ''0 12px''), (''cursor'', Str ''pointer''),
     (''backgroundColor'', (if isActive then Str (ui_tabActiveBg ui) else Str ''transparent'')),
     (''color'', (if isActive then Str (ui_textPrimary ui) else Str (ui_textSecondary ui))),
     (''borderRight'', Str (''1px solid '' @ ui_tabBorder ui)), (''whiteSpace'', Str ''nowrap''),
     (''minWidth'', Num 0), (''maxWidth'', Num 200), (''flexShrink'', Num 0),
     (''opacity'', (if isDragging then Num (4/10) else Num 1)), (''touchAction'', Str ''none'')]"

definition tab_dot :: "ui_colors \<Rightarrow> style" where
  "tab_dot ui =
    [(''width'', Num 6), (''height'', Num 6), (''borderRadius'', Str ''50%''),
     (''backgroundColor'', Str (ui_accent ui)), (''flexShrink'', Num 0)]"

definition tab_title :: "style" where
  "tab_title =
    [(''overflow'', Str ''hidden''), (''textOverflow'', Str ''ellipsis'')]"

definition tab_close :: "ui_colors \<Rightarrow> bool \<Rightarrow> style" where
  "tab_close ui isActive =
    [(''background'', Str ''none''), (''border'', Str ''none''), (''color'', Str (ui_textMuted ui)),
     (''cursor'', Str ''pointer''), (''fontSize'', Str ''16px''), (''padding'', Str ''4px 6px''),
     (''lineHeight'', Num 1), (''opacity'', (if isActive then Num (7/10) else Num (3/10)))]"

definition panel_frame :: "style" where
  "panel_frame =
    [(''display'', Str ''flex''), (''flexDirection'', Str ''column''), (''height'', Str ''100%''),
     (''width'', Str ''100%''), (''overflow'', Str ''hidden'')]"

definition panel_body :: "style" where
  "panel_body =
    [(''flex'', Num 1), (''position'', Str ''relative''), (''overflow'', Str ''hidden''),
     (''minHeight'', Num 0)]"

definition terminal_frame :: "ui_colors \<Rightarrow> bool \<Rightarrow> style" where
  "terminal_frame ui isMobile =
    [(''position'', Str ''relative''), (''width'', Str ''100%''), (''height'', Str ''100%''),
     (''backgroundColor'', Str (ui_terminalBg ui)), (''paddingLeft'', (if isMobile then Num 6 else Num 0)),
     (''boxSizing'', Str ''border-box''), (''userSelect'', Str ''text'')]"

definition terminal_container :: "style" where
  "terminal_container =
    [(''width'', Str ''100%''), (''height'', Str ''100%'')]"

definition paused_style :: "ui_colors \<Rightarrow> style" where
  "paused_style ui =
    [(''position'', Str ''absolute''), (''inset'', Num 0), (''display'', Str ''flex''),
     (''flexDirection'', Str ''column''), (''gap'', Num 6), (''alignItems'', Str ''center''),
     (''justifyContent'', Str ''center''), (''textAlign'', Str ''center''), (''padding'', Num 16),
     (''backgroundColor'', Str (ui_overlayBg ui)), (''backdropFilter'', Str ''blur(1px)''),
     (''color'', Str (ui_textPrimary ui)), (''fontFamily'', Str mono_font), (''cursor'', Str ''pointer''),
     (''userSelect'', Str ''none''), (''zIndex'', Num 12)]"

definition paused_icon :: "style" where
  "paused_icon =
    [(''fontSize'', Num 22), (''lineHeight'', Num 1)]"

definition paused_title :: "style" where
  "paused_title =
    [(''fontSize'', Num 13), (''fontWeight'', Num 600)]"

definition paused_hint :: "ui_colors \<Rightarrow> style" where
  "paused_hint ui =
    [(''fontSize'', Num 12), (''color'', Str (ui_textSecondary ui))]"

definition drop_hint :: "ui_colors \<Rightarrow> style" where
  "drop_hint ui =
    [(''position'', Str ''absolute''), (''inset'', Num 0), (''display'', Str ''flex''),
     (''alignItems'', Str ''center''), (''justifyContent'', Str ''center''),
     (''backgroundColor'', Str (ui_dropOverlayBg ui)),
     (''border'', Str (''2px dashed '' @ ui_dropOverlayBorder ui)), (''color'', Str (ui_dropOverlayText ui)),
     (''fontFamily'', Str mono_font), (''fontSize'', Num 16), (''fontWeight'', Num 600),
     (''pointerEvents'', Str ''none''), (''zIndex'', Num 10)]"

definition uploading_style :: "ui_colors \<Rightarrow> style" where
  "uploading_style ui =
    [(''position'', Str ''absolute''), (''bottom'', Num 12), (''right'', Num 12),
     (''padding'', Str ''6px 12px''), (''backgroundColor'', Str (ui_tabActiveBg ui)),
     (''border'', Str (''1px solid '' @ ui_accent ui)), (''borderRadius'', Num 4),
     (''color'', Str (ui_textPrimary ui)), (''fontFamily'', Str mono_font), (''fontSize'', Num 12),
     (''zIndex'', Num 11), (''maxWidth'', Str ''70%''), (''overflow'', Str ''hidden''),
     (''textOverflow'', Str ''ellipsis''), (''whiteSpace'', Str ''nowrap'')]"

definition upload_error_style :: "ui_colors \<Rightarrow> style" where
  "upload_error_style ui =
    [(''position'', Str ''absolute''), (''bottom'', Num 12), (''left'', Num 12),
     (''padding'', Str ''6px 12px''), (''backgroundColor'', Str (ui_tabActiveBg ui)),
     (''border'', Str (''1px solid '' @ ui_danger ui)), (''borderRadius'', Num 4),
     (''color'', Str (ui_danger ui)), (''fontFamily'', Str mono_font), (''fontSize'', Num 12),
     (''zIndex'', Num 11), (''cursor'', Str ''pointer''), (''maxWidth'', Str ''70%''),
     (''overflow'', Str ''hidden''), (''textOverflow'', Str ''ellipsis''), (''whiteSpace'', Str ''nowrap'')]"

definition toast_list :: "style" where
  "toast_list =
    [(''position'', Str ''fixed''), (''top'', Num 16), (''right'', Num 16), (''display'', Str ''flex''),
     (''flexDirection'', Str ''column''), (''gap'', Num 8), (''zIndex'', Num 1100),
     (''pointerEvents'', Str ''none''), (''maxWidth'', Num 320)]"

definition toast_style :: "ui_colors \<Rightarrow> bool \<Rightarrow> style" where
  "toast_style ui hovered =
    [(''pointerEvents'', Str ''auto''), (''backgroundColor'', Str (ui_tabActiveBg ui)),
     (''border'', Str (''1px solid '' @ ui_sidebarBorder ui)),
     (''borderLeft'', Str (''3px solid '' @ ui_accent ui)), (''borderRadius'', Num 6),
     (''boxShadow'', Str ''0 6px 20px rgba(0, 0, 0, 0.28)''), (''color'', Str (ui_textPrimary ui)),
     (''fontFamily'', Str mono_font), (''fontSize'', Num 12), (''lineHeight'', Num (14/10)),
     (''padding'', Str ''10px 12px''), (''display'', Str ''flex''), (''alignItems'', Str ''flex-start''),
     (''gap'', Num 10), (''cursor'', Str ''pointer''),
     (''opacity'', (if hovered then Num 1 else Num (96/100))), (''transition'', Str ''opacity 120ms ease'')]"

definition toast_body :: "style" where
  "toast_body =
    [(''flex'', Num 1), (''minWidth'', Num 0)]"

definition toast_title :: "ui_colors \<Rightarrow> style" where
  "toast_title ui =
    [(''fontWeight'', Num 600), (''color'', Str (ui_textPrimary ui)), (''overflow'', Str ''hidden''),
     (''textOverflow'', Str ''ellipsis''), (''whiteSpace'', Str ''nowrap'')]"

definition toast_text :: "ui_colors \<Rightarrow> style" where
  "toast_text ui =
    [(''color'', Str (ui_textSecondary ui)), (''marginTop'', Num 2)]"

definition toast_dismiss :: "ui_colors \<Rightarrow> style" where
  "toast_dismiss ui =
    [(''flexShrink'', Num 0), (''width'', Num 20), (''height'', Num 20), (''padding'', Num 0),
     (''background'', Str ''transparent''), (''border'', Str ''none''), (''color'', Str (ui_textMuted ui)),
     (''fontSize'', Num 16), (''lineHeight'', Num 1), (''fontFamily'', Str ''inherit''),
     (''cursor'', Str ''pointer''), (''borderRadius'', Num 3)]"

definition starting_style :: "ui_colors \<Rightarrow> style" where
  "starting_style ui =
    [(''display'', Str ''flex''), (''alignItems'', Str ''center''), (''justifyContent'', Str ''center''),
     (''minHeight'', Str ''100vh''), (''backgroundColor'', Str (ui_appBg ui)),
     (''color'', Str (ui_textPrimary ui)), (''fontFamily'', Str mono_font), (''padding'', Str ''24px'')]"

definition loading_style :: "ui_colors \<Rightarrow> style" where
  "loading_style ui =
    [(''display'', Str ''flex''), (''alignItems'', Str ''center''), (''justifyContent'', Str ''center''),
     (''minHeight'', Str ''100vh''), (''backgroundColor'', Str (ui_appBg ui)),
     (''color'', Str (ui_textPrimary ui)), (''fontFamily'', Str mono_font), (''padding'', Str ''24px'')]"

definition app_frame :: "ui_colors \<Rightarrow> style" where
  "app_frame ui =
    [(''display'', Str ''flex''), (''flexDirection'', Str ''column''), (''width'', Str ''100vw''),
     (''height'', Str ''100dvh''), (''backgroundColor'', Str (ui_appBg ui)), (''overflow'', Str ''hidden''),
     (''position'', Str ''relative'')]"

definition banner_style :: "ui_colors \<Rightarrow> style" where
  "banner_style ui =
    [(''flexShrink'', Num 0), (''display'', Str ''flex''), (''alignItems'', Str ''center''),
     (''gap'', Num 12), (''padding'', Str ''8px 12px''), (''backgroundColor'', Str (ui_warning ui)),
     (''color'', Str ''#000''), (''fontFamily'', Str mono_font), (''fontSize'', Num 12),
     (''lineHeight'', Num (14/10)), (''borderBottom'', Str (''1px solid '' @ ui_sidebarBorder ui))]"

definition banner_label :: "style" where
  "banner_label =
    [(''fontWeight'', Num 600), (''flexShrink'', Num 0)]"

definition banner_text :: "style" where
  "banner_text =
    [(''flex'', Num 1), (''minWidth'', Num 0), (''overflow'', Str ''hidden''),
     (''textOverflow'', Str ''ellipsis''), (''whiteSpace'', Str ''nowrap'')]"

definition banner_code :: "style" where
  "banner_code =
    [(''background'', Str ''rgba(0,0,0,0.12)''), (''padding'', Str ''0 4px''), (''borderRadius'', Num 2)]"

definition recheck_style :: "bool \<Rightarrow> style" where
  "recheck_style permChecking =
    [(''flexShrink'', Num 0), (''padding'', Str ''4px 10px''),
     (''backgroundColor'', Str ''rgba(0,0,0,0.15)''), (''border'', Str ''1px solid rgba(0,0,0,0.25)''),
     (''color'', Str ''#000''), (''fontSize'', Num 12), (''fontFamily'', Str ''inherit''),
     (''fontWeight'', Num 600), (''cursor'', (if permChecking then Str ''wait'' else Str ''pointer'')),
     (''opacity'', (if permChecking then Num (6/10) else Num 1)), (''borderRadius'', Num 3)]"

definition banner_dismiss :: "style" where
  "banner_dismiss =
    [(''flexShrink'', Num 0), (''width'', Num 22), (''height'', Num 22), (''padding'', Num 0),
     (''backgroundColor'', Str ''transparent''), (''border'', Str ''none''), (''color'', Str ''#000''),
     (''fontSize'', Num 16), (''lineHeight'', Num 1), (''fontFamily'', Str ''inherit''),
     (''cursor'', Str ''pointer''), (''borderRadius'', Num 3)]"

definition app_row :: "style" where
  "app_row =
    [(''display'', Str ''flex''), (''flex'', Num 1), (''minHeight'', Num 0), (''position'', Str ''relative'')]"

definition sidebar_column :: "rat \<Rightarrow> style" where
  "sidebar_column w =
    [(''width'', Num w), (''flexShrink'', Num 0), (''height'', Str ''100%'')]"

definition divider_style :: "style" where
  "divider_style =
    [(''width'', Str ''4px''), (''cursor'', Str ''col-resize''), (''backgroundColor'', Str ''transparent''),
     (''flexShrink'', Num 0)]"

definition backdrop_style :: "ui_colors \<Rightarrow> style" where
  "backdrop_style ui =
    [(''position'', Str ''absolute''), (''inset'', Num 0), (''backgroundColor'', Str (ui_overlayBg ui)),
     (''zIndex'', Num 999)]"

definition drawer_style :: "rat \<Rightarrow> style" where
  "drawer_style w =
    [(''position'', Str ''absolute''), (''top'', Num 0), (''left'', Num 0), (''bottom'', Num 0),
     (''width'', Num w), (''zIndex'', Num 1000), (''boxShadow'', Str ''2px 0 8px rgba(0,0,0,0.35)'')]"

definition main_column :: "style" where
  "main_column =
    [(''flex'', Num 1), (''height'', Str ''100%''), (''overflow'', Str ''hidden''), (''minWidth'', Num 0)]"

definition dragged_tab :: "ui_colors \<Rightarrow> style" where
  "dragged_tab ui =
    [(''padding'', Str ''4px 10px''), (''backgroundColor'', Str (ui_tabActiveBg ui)),
     (''border'', Str (''1px solid '' @ ui_accent ui)), (''borderRadius'', Num 3),
     (''color'', Str (ui_textPrimary ui)), (''fontFamily'', Str mono_font), (''fontSize'', Num 12),
     (''whiteSpace'', Str ''nowrap''), (''boxShadow'', Str ''0 4px 12px rgba(0,0,0,0.35)'')]"

end
