(* ===== verification/Views.thy ===== *)
theory Views
  imports Styles Widgets AppShell
begin

text \<open>
  What the components return: \<open>App.tsx\<close> and the files under \<open>components\<close>, element by element, with what every handler
  calls. The state of the store and of the components is an argument; the elements of the resize and drag libraries
  are elements like others, and the references they take to elements are left out.
\<close>

section \<open>Callbacks and component state\<close>

datatype ui_action =
    OnSelectTab string | OnCloseTab string | OnNewTab string | OnMenuClick
  | OnFocusPanel string | OnHoverPanel string bool | OnSplitPanel string split_direction | OnClosePanel string
  | OnPanelSizes string
  | OnTakeFocus | OnFileOver | OnFileEnter | OnFileLeave | OnDragText | OnFileDrop | OnDismissError
  | OnToolKey string | OnEditText | OnTextKey | OnSendText
  | OnStartCreate | OnCloseSidebar | OnOpenWorkspace string | OnContextMenu string | OnStartRename string
  | OnEditName | OnRenameBlur string | OnRenameKey string | OnEditNew | OnNewKey | OnNewBlur | OnCycleTheme
  | OnMenuRename | OnMenuDelete | OnHighlight bool
  | OnToastClick string | OnToastDismiss string | OnToastHover string bool
  | OnPassword | OnLogin
  | OnCheckPermissions | OnDismissBanner | OnDividerDown | OnDividerHover bool | OnBackdrop | OnTabDragStart | OnTabDragEnd

type_synonym ui_view = "ui_action view"
type_synonym ui_handlers = "(string \<times> bool \<times> ui_action list) list"

text \<open>
  Local state: hovered panels and toasts, uploads by panel, the ownership each view sees, and what the drag library
  passes: the props of a draggable tab, whether it or anything is dragged, and the zone under the pointer.
\<close>

record ui_state =
  leafHovered :: "string \<Rightarrow> bool"
  leafUploads :: "string \<Rightarrow> upload_view"
  leafOwned :: "string \<Rightarrow> bool"
  dndActive :: bool
  zoneOver :: "string \<Rightarrow> drop_zone \<Rightarrow> bool"
  tabDragging :: "string \<Rightarrow> bool"
  tabListeners :: "string \<Rightarrow> ui_handlers"
  tabAttributes :: "string \<Rightarrow> (string \<times> pvalue) list"
  toastHovered :: "string \<Rightarrow> bool"
  inputText :: string

section \<open>Tabs\<close>

definition DraggableTab :: "ui_colors \<Rightarrow> ui_state \<Rightarrow> tab_view \<Rightarrow> ui_view" where
  "DraggableTab ui u tv =
     (let sid = s_id (tab_session tv); title = s_title (tab_session tv); isActive = tab_active tv in
      Elem ''div'' ((''key'', Str sid) # tabAttributes u sid) (tab_style ui isActive (tabDragging u sid))
        ((''onClick'', False, [OnSelectTab sid]) # tabListeners u sid)
        ((if tab_unread tv
          then [Elem ''span'' [(''aria-label'', Str ''unread output''), (''title'', Str ''New output'')] (tab_dot ui) [] []]
          else []) @
         [Elem ''span'' [] tab_title [] [Txt title]] @
         (if tab_canClose tv
          then [Elem ''button'' [(''aria-label'', Str (''Close '' @ title))] (tab_close ui isActive)
            [(''onClick'', True, [OnCloseTab sid]), (''onPointerDown'', True, [])] [Glyphs [0xD7]]]
          else [])))"

definition TabBar :: "ui_colors \<Rightarrow> ui_state \<Rightarrow> bool \<Rightarrow> app_state \<Rightarrow> ui_view list" where
  "TabBar ui u showMenuButton s =
     (case TabBar_view s of
        None \<Rightarrow> []
      | Some tabs \<Rightarrow>
          [Elem ''div'' [] (tabbar_style ui) []
            ((if showMenuButton
              then [Elem ''button'' [(''aria-label'', Str ''Open sidebar''), (''title'', Str ''Workspaces'')] (tab_menu ui)
                [(''onClick'', False, [OnMenuClick])] [Glyphs [0x2630]]]
              else []) @
             [Elem ''div'' [] tab_list [] (map (DraggableTab ui u) tabs),
              Elem ''button'' [(''title'', Str ''New Tab''), (''aria-label'', Str ''New tab'')] (tab_new ui)
                [(''onClick'', False, if truthy (activeWorkspaceId s) then [OnNewTab (the (activeWorkspaceId s))] else [])]
                [Txt ''+'']])])"

section \<open>A terminal\<close>

definition TerminalView :: "ui_colors \<Rightarrow> bool \<Rightarrow> string option \<Rightarrow> bool \<Rightarrow> upload_view \<Rightarrow> ui_view" where
  "TerminalView ui isMobile sessionId isOwned v =
     Elem ''div'' [(''ref'', Str ''wrapper'')] (terminal_frame ui isMobile)
       [(''onDragOver'', False, [OnFileOver]), (''onDragEnter'', False, [OnFileEnter]), (''onDragLeave'', False, [OnFileLeave]),
        (''onDragStart'', False, [OnDragText]), (''onDrop'', False, [OnFileDrop])]
       ([Elem ''div'' [(''ref'', Str ''container'')] terminal_container [] []] @
        (if truthy sessionId \<and> \<not> isOwned
         then [Elem ''div'' [] (paused_style ui) [(''onMouseDown'', True, [OnTakeFocus])]
           [Elem ''div'' [] paused_icon [] [Glyphs [0x23F8]],
            Elem ''div'' [] paused_title []
              [Glyphs [0x6B64, 0x7EC8, 0x7AEF, 0x6B63, 0x5728, 0x53E6, 0x4E00, 0x4E2A, 0x7A97, 0x53E3, 0x4F7F, 0x7528]],
            Elem ''div'' [] (paused_hint ui) []
              [Glyphs [0x70B9, 0x51FB, 0x63A5, 0x7BA1, 0x5230, 0x6B64, 0x7A97, 0x53E3]]]]
         else []) @
        (if fileDragging v then [Elem ''div'' [] (drop_hint ui) [] [Txt ''Drop to upload'']] else []) @
        (if truthy (uploadingName v)
         then [Elem ''div'' [] (uploading_style ui) [] [Txt ''Uploading '', Txt (the (uploadingName v)), Txt ''...'']]
         else []) @
        (if truthy (errorMsg v)
         then [Elem ''div'' [(''title'', Str ''Click to dismiss'')] (upload_error_style ui)
           [(''onClick'', False, [OnDismissError])] [Txt ''Upload failed: '', Txt (the (errorMsg v))]]
         else []))"

section \<open>A panel\<close>

definition LeafToolbar :: "ui_colors \<Rightarrow> string \<Rightarrow> bool \<Rightarrow> ui_view" where
  "LeafToolbar ui i disableSplit =
     Elem ''div'' [(''data-testid'', Str ''leaf-toolbar'')] leaf_toolbar_style [(''onMouseDown'', True, [])]
       ((if \<not> disableSplit
         then [Elem ''button'' [(''type'', Str ''button''), (''title'', Str ''Split right''), (''aria-label'', Str ''Split panel right'')]
             (leaf_button_style ui) [(''onClick'', False, [OnSplitPanel i Row])] [Glyphs [0x25AF]],
           Elem ''button'' [(''type'', Str ''button''), (''title'', Str ''Split down''), (''aria-label'', Str ''Split panel down'')]
             (leaf_button_style ui) [(''onClick'', False, [OnSplitPanel i Column])] [Glyphs [0x25AD]]]
         else []) @
        [Elem ''button'' [(''type'', Str ''button''), (''title'', Str ''Close panel (kills session)''), (''aria-label'', Str ''Close panel'')]
           (AList.update ''color'' (Str (ui_danger ui)) (leaf_button_style ui)) [(''onClick'', False, [OnClosePanel i])] [Glyphs [0xD7]]])"

fun ZONE_RECTS :: "drop_zone \<Rightarrow> style" where
  "ZONE_RECTS TopZone = [(''top'', Num 0), (''left'', Num 0), (''width'', Str ''100%''), (''height'', Str ''25%'')]"
| "ZONE_RECTS BottomZone = [(''bottom'', Num 0), (''left'', Num 0), (''width'', Str ''100%''), (''height'', Str ''25%'')]"
| "ZONE_RECTS LeftZone = [(''top'', Str ''25%''), (''height'', Str ''50%''), (''left'', Num 0), (''width'', Str ''25%'')]"
| "ZONE_RECTS RightZone = [(''top'', Str ''25%''), (''height'', Str ''50%''), (''right'', Num 0), (''width'', Str ''25%'')]"
| "ZONE_RECTS CenterZone = [(''top'', Str ''25%''), (''left'', Str ''25%''), (''width'', Str ''50%''), (''height'', Str ''50%'')]"

fun zone_name :: "drop_zone \<Rightarrow> string" where
  "zone_name TopZone = ''top''"
| "zone_name BottomZone = ''bottom''"
| "zone_name LeftZone = ''left''"
| "zone_name RightZone = ''right''"
| "zone_name CenterZone = ''center''"

definition Zone :: "ui_colors \<Rightarrow> ui_state \<Rightarrow> string \<Rightarrow> drop_zone \<Rightarrow> ui_view" where
  "Zone ui u leafId zone =
     Elem ''div'' [(''key'', Str (zone_name zone)), (''data-testid'', Str (''dropzone-'' @ zone_name zone))]
       (zone_style ui (zoneOver u leafId zone) (ZONE_RECTS zone)) [] []"

definition DropZoneOverlay :: "ui_colors \<Rightarrow> ui_state \<Rightarrow> string \<Rightarrow> ui_view list" where
  "DropZoneOverlay ui u leafId =
     (if \<not> dndActive u then [] else map (Zone ui u leafId) [TopZone, BottomZone, LeftZone, RightZone, CenterZone])"

definition PanelLeaf :: "ui_colors \<Rightarrow> ui_state \<Rightarrow> bool \<Rightarrow> bool \<Rightarrow> bool \<Rightarrow> app_state \<Rightarrow> panel_leaf \<Rightarrow> ui_view" where
  "PanelLeaf ui u isMobile hideToolbar disableSplit s node =
     (let i = leaf_id node in
      Elem ''div'' [(''data-testid'', Str ''panel-leaf''), (''data-leaf-id'', Str i)] (leaf_style ui (panel_isFocused s node))
        [(''onMouseDown'', False, [OnFocusPanel i]), (''onMouseEnter'', False, [OnHoverPanel i True]),
         (''onMouseLeave'', False, [OnHoverPanel i False])]
        ([TerminalView ui isMobile (leaf_session node) (leafOwned u i) (leafUploads u i)] @
         (if \<not> hideToolbar \<and> leafHovered u i then [LeafToolbar ui i disableSplit] else []) @
         DropZoneOverlay ui u i))"

section \<open>The panels\<close>

definition separator :: "ui_colors \<Rightarrow> split_direction \<Rightarrow> ui_view" where
  "separator ui d = Elem ''Separator'' [] (separator_style ui (d = Row)) [] []"

definition group_children :: "ui_view \<Rightarrow> (string \<times> ui_view) list \<Rightarrow> ui_view list" where
  "group_children sep cs =
     concat (map (\<lambda>(i, k, c). (if i > 0 then [sep] else []) @
       [Elem ''Panel'' [(''id'', Str k), (''minSize'', Num 10)] [] [] [c]]) (enumerate 0 cs))"

fun PanelNodeRenderer :: "ui_colors \<Rightarrow> ui_state \<Rightarrow> app_state \<Rightarrow> panel_node \<Rightarrow> ui_view" where
  "PanelNodeRenderer ui u s (PLeaf l) = PanelLeaf ui u False False False s l"
| "PanelNodeRenderer ui u s (PSplit i d sz cs) =
     Elem ''Group'' [(''id'', Str i), (''orientation'', Str (if d = Row then ''horizontal'' else ''vertical'')),
         (''defaultLayout'', Sizes (defaultLayout cs sz))] group_style [(''onLayoutChanged'', False, [OnPanelSizes i])]
       (group_children (separator ui d) (map (\<lambda>c. (node_id c, PanelNodeRenderer ui u s c)) cs))"

definition PanelLayout :: "ui_colors \<Rightarrow> ui_state \<Rightarrow> bool \<Rightarrow> app_state \<Rightarrow> panel_view \<Rightarrow> ui_view list" where
  "PanelLayout ui u isMobile s pv =
     (case pv of
        NoPanels \<Rightarrow> []
      | SinglePanel l \<Rightarrow> [PanelLeaf ui u isMobile True True s l]
      | WholeTree t \<Rightarrow> [PanelNodeRenderer ui u s t])"

section \<open>The phone's input bar\<close>

definition key_title :: "string \<Rightarrow> string" where
  "key_title lbl =
     (if lbl = ''^C'' then ''Ctrl+C (interrupt)'' else if lbl = ''^D'' then ''Ctrl+D (EOF)''
      else if lbl = ''^Z'' then ''Ctrl+Z (suspend)'' else lbl)"

definition key_label :: "string \<Rightarrow> ui_view" where
  "key_label lbl =
     (if lbl = ''Up'' then Glyphs [0x2191] else if lbl = ''Down'' then Glyphs [0x2193]
      else if lbl = ''Left'' then Glyphs [0x2190] else if lbl = ''Right'' then Glyphs [0x2192] else Txt lbl)"

definition ToolKeyButton :: "ui_colors \<Rightarrow> string \<times> string \<Rightarrow> ui_view" where
  "ToolKeyButton ui k =
     Elem ''button'' [(''key'', Str (fst k)), (''type'', Str ''button''), (''title'', Str (key_title (fst k)))] (mobile_key ui)
       [(''onClick'', False, [OnToolKey (snd k)])] [key_label (fst k)]"

definition disabled_when :: "bool \<Rightarrow> (string \<times> pvalue) list" where
  "disabled_when b = (if b then [(''disabled'', Str [])] else [])"

definition MobileInputBar :: "ui_colors \<Rightarrow> ui_state \<Rightarrow> string option \<Rightarrow> ui_view" where
  "MobileInputBar ui u sessionId =
     Elem ''div'' [] (mobile_bar ui) []
       [Elem ''div'' [] mobile_keys [] (map (ToolKeyButton ui) TOOL_KEYS),
        Elem ''div'' [] mobile_row []
          [Elem ''div'' [] (mobile_box ui) []
             [Elem ''textarea'' [(''ref'', Str ''ta''), (''value'', Str (inputText u)), (''rows'', Num 1),
                (''placeholder'', Str ''Type and press Send (Shift+Enter for newline)''), (''autoCapitalize'', Str ''off''),
                (''autoCorrect'', Str ''off''), (''autoComplete'', Str ''off''), (''spellCheck'', Str ''false''),
                (''enterKeyHint'', Str ''send'')] (mobile_text ui)
                [(''onChange'', False, [OnEditText]), (''onKeyDown'', False, [OnTextKey])] []],
           Elem ''button'' ((''type'', Str ''button'') # disabled_when (\<not> truthy sessionId)) (mobile_send ui sessionId)
             [(''onClick'', False, [OnSendText])] [Txt ''Send'']]]"

section \<open>The terminal side\<close>

definition TerminalPanel :: "ui_colors \<Rightarrow> ui_state \<Rightarrow> bool \<Rightarrow> bool \<Rightarrow> app_state \<Rightarrow> panel_view \<Rightarrow> ui_view" where
  "TerminalPanel ui u isMobile showMenuButton s pv =
     Elem ''div'' [] panel_frame []
       (TabBar ui u showMenuButton s @
        [Elem ''div'' [] panel_body [] (PanelLayout ui u isMobile s pv)] @
        (if isMobile then [MobileInputBar ui u (activeSessionId s)] else []))"

section \<open>The workspace list\<close>

definition themeIcon :: "theme_mode \<Rightarrow> ui_view" where
  "themeIcon m = (case m of SystemMode \<Rightarrow> Glyphs [0x1F5A5] | LightMode \<Rightarrow> Glyphs [0x2600] | DarkMode \<Rightarrow> Glyphs [0x263E])"

definition themeLabel :: "theme_mode \<Rightarrow> string" where
  "themeLabel m = (case m of SystemMode \<Rightarrow> ''System'' | LightMode \<Rightarrow> ''Light'' | DarkMode \<Rightarrow> ''Dark'')"

definition rename_input :: "ui_colors \<Rightarrow> string \<Rightarrow> string \<Rightarrow> ui_view" where
  "rename_input ui i nm =
     Elem ''input'' [(''value'', Str nm), (''autoFocus'', Str [])] (sidebar_rename ui)
       [(''onChange'', False, [OnEditName]), (''onBlur'', False, [OnRenameBlur i]), (''onKeyDown'', False, [OnRenameKey i]),
        (''onClick'', True, [])] []"

definition workspace_label :: "ui_colors \<Rightarrow> workspace_row \<Rightarrow> ui_view" where
  "workspace_label ui r =
     Elem ''div'' [(''title'', Str ''Double-click or right-click to rename'')] sidebar_label
       [(''onDoubleClick'', True, [OnStartRename (ws_id (row_workspace r))])]
       (Elem ''span'' [] sidebar_name [] [Txt (ws_name (row_workspace r))] #
        (if truthy (row_cwd r)
         then [Elem ''span'' [(''title'', Str (the (row_cwd r)))] (sidebar_cwd ui) [] [Txt (the (row_cwd r))]] else []))"

definition WorkspaceRow :: "ui_colors \<Rightarrow> sidebar \<Rightarrow> workspace_row \<Rightarrow> ui_view" where
  "WorkspaceRow ui sb r =
     (let i = ws_id (row_workspace r) in
      Elem ''div'' [(''key'', Str i)] (sidebar_row_style ui (row_active r))
        [(''onClick'', False, [OnOpenWorkspace i]), (''onContextMenu'', True, [OnContextMenu i])]
        ((if editingId sb = Some i then rename_input ui i (editName sb) else workspace_label ui r) #
         (if row_unread r
          then [Elem ''span'' [(''aria-label'', Str ''unread output''), (''title'', Str ''New output in this workspace'')]
            (sidebar_dot ui) [] []] else [])))"

definition menu_entry :: "style \<Rightarrow> ui_action \<Rightarrow> string \<Rightarrow> ui_view" where
  "menu_entry st act lbl =
     Elem ''button'' [] st [(''onClick'', False, [act]), (''onMouseEnter'', False, [OnHighlight True]),
       (''onMouseLeave'', False, [OnHighlight False])] [Txt lbl]"

definition ContextMenuView :: "ui_colors \<Rightarrow> app_state \<Rightarrow> sidebar \<Rightarrow> ui_view list" where
  "ContextMenuView ui s sb =
     (case contextMenu sb of
        None \<Rightarrow> []
      | Some (i, x, y) \<Rightarrow>
          [Elem ''div'' [(''ref'', Str ''menu'')] (sidebar_menu ui x y) []
            (menu_entry (sidebar_menu_rename ui) OnMenuRename ''Rename'' #
             (if length (workspaces s) > 1 then [menu_entry (sidebar_menu_delete ui) OnMenuDelete ''Delete''] else []))])"

definition sidebar_top :: "ui_colors \<Rightarrow> bool \<Rightarrow> ui_view" where
  "sidebar_top ui closable =
     Elem ''div'' [] (sidebar_header ui) []
       [Elem ''span'' [] [] [] [Txt ''Workspaces''],
        Elem ''div'' [] sidebar_header_buttons []
          (Elem ''button'' [(''title'', Str ''New Workspace''), (''aria-label'', Str ''New Workspace'')] (sidebar_add ui)
             [(''onClick'', False, [OnStartCreate])] [Txt ''+''] #
           (if closable
            then [Elem ''button'' [(''title'', Str ''Close''), (''aria-label'', Str ''Close sidebar'')] (sidebar_close ui)
              [(''onClick'', False, [OnCloseSidebar])] [Glyphs [0xD7]]] else []))]"

definition new_workspace_input :: "ui_colors \<Rightarrow> sidebar \<Rightarrow> ui_view list" where
  "new_workspace_input ui sb =
     (if creating sb
      then [Elem ''div'' [] sidebar_new_box []
        [Elem ''input'' [(''value'', Str (newName sb)), (''autoFocus'', Str []), (''placeholder'', Str ''Workspace name...'')]
           (sidebar_new_input ui) [(''onChange'', False, [OnEditNew]), (''onKeyDown'', False, [OnNewKey]),
             (''onBlur'', False, [OnNewBlur])] []]]
      else [])"

definition theme_footer :: "ui_colors \<Rightarrow> theme_mode \<Rightarrow> ui_view" where
  "theme_footer ui mode =
     Elem ''div'' [] (sidebar_footer ui) []
       [Elem ''span'' [] sidebar_brand [] [Txt ''Mansio''],
        Elem ''button'' [(''title'', Str (''Theme: '' @ themeLabel mode @ '' (click to change)'')),
            (''aria-label'', Str (''Theme: '' @ themeLabel mode @ '', click to change''))] (sidebar_theme ui)
          [(''onClick'', False, [OnCycleTheme])]
          [Elem ''span'' [(''aria-hidden'', Str ''true'')] [] [] [themeIcon mode],
           Elem ''span'' [] [] [] [Txt (themeLabel mode)]]]"

definition Sidebar :: "ui_colors \<Rightarrow> theme_mode \<Rightarrow> bool \<Rightarrow> app_state \<Rightarrow> sidebar \<Rightarrow> ui_view" where
  "Sidebar ui mode closable s sb =
     Elem ''div'' [] (sidebar_frame ui) []
       ([sidebar_top ui closable,
         Elem ''div'' [] sidebar_list []
           (map (\<lambda>wsp. WorkspaceRow ui sb (sidebar_row s wsp)) (workspaces s) @ new_workspace_input ui sb),
         theme_footer ui mode] @
        ContextMenuView ui s sb)"

section \<open>Toasts\<close>

definition ToastItem :: "ui_colors \<Rightarrow> bool \<Rightarrow> toast \<Rightarrow> ui_view" where
  "ToastItem ui hovered t =
     Elem ''div'' [(''key'', Str (t_id t)), (''role'', Str ''alert'')] (toast_style ui hovered)
       [(''onClick'', False, [OnToastClick (t_id t)]), (''onMouseEnter'', False, [OnToastHover (t_id t) True]),
        (''onMouseLeave'', False, [OnToastHover (t_id t) False])]
       [Elem ''div'' [] toast_body []
          [Elem ''div'' [(''title'', Str (t_sessionTitle t))] (toast_title ui) []
             [Txt (if t_sessionTitle t = [] then ''Terminal'' else t_sessionTitle t)],
           Elem ''div'' [] (toast_text ui) [] [Txt ''Output finished'']],
        Elem ''button'' [(''aria-label'', Str ''Dismiss''), (''title'', Str ''Dismiss'')] (toast_dismiss ui)
          [(''onClick'', True, [OnToastDismiss (t_id t)])] [Glyphs [0xD7]]]"

definition ToastContainer :: "ui_colors \<Rightarrow> ui_state \<Rightarrow> app_state \<Rightarrow> ui_view list" where
  "ToastContainer ui u s =
     (if toasts s = [] then []
      else [Elem ''div'' [] toast_list [] (map (\<lambda>t. ToastItem ui (toastHovered u (t_id t)) t) (toasts s))])"

section \<open>The log-in form\<close>

definition LoginForm :: "ui_colors \<Rightarrow> bool \<Rightarrow> login_form \<Rightarrow> ui_view" where
  "LoginForm ui needsSetup lf =
     Elem ''div'' [] (login_page ui) []
       [Elem ''form'' [] login_box [(''onSubmit'', False, [OnLogin])]
          ([Elem ''div'' [] (login_title ui) [] [Txt ''Mansio''],
            Elem ''div'' [] (login_hint ui) []
              [Txt (if needsSetup then ''Set a password to secure your terminal.'' else ''Enter your password to continue.'')],
            Elem ''input'' [(''type'', Str ''password''), (''value'', Str (password lf)),
                (''placeholder'', Str (if needsSetup then ''Choose a password'' else ''Password'')), (''autoFocus'', Str [])]
              (login_input ui) [(''onChange'', False, [OnPassword])] []] @
           (if login_error lf \<noteq> [] then [Elem ''div'' [] (login_error_style ui) [] [Txt (login_error lf)]] else []) @
           [Elem ''button'' ((''type'', Str ''submit'') # disabled_when (submit_disabled lf))
              (login_button ui (login_loading lf) (password lf)) []
              [Txt (if needsSetup then ''Set Password'' else ''Login'')]])]"

section \<open>The application\<close>

definition banner_words :: "nat list" where
  "banner_words =
     map of_char ''Full Disk Access required '' @ [0x2014] @ map of_char '' System Settings '' @ [0x25B8] @
     map of_char '' Privacy & Security '' @ [0x25B8] @ map of_char '' Full Disk Access '' @ [0x25B8] @ map of_char '' add ''"

definition PermBanner :: "ui_colors \<Rightarrow> bool \<Rightarrow> ui_view" where
  "PermBanner ui checking =
     Elem ''div'' [] (banner_style ui) []
       [Elem ''span'' [] banner_label [] [Txt ''Permission''],
        Elem ''span'' [] banner_text []
          [Glyphs banner_words, Elem ''code'' [] banner_code [] [Txt ''/usr/local/bin/mansio'']],
        Elem ''button'' (disabled_when checking) (recheck_style checking) [(''onClick'', False, [OnCheckPermissions])]
          [if checking then Glyphs (map of_char ''Checking'' @ [0x2026]) else Txt ''Recheck''],
        Elem ''button'' [(''aria-label'', Str ''Dismiss''), (''title'', Str ''Dismiss'')] banner_dismiss
          [(''onClick'', False, [OnDismissBanner])] [Glyphs [0xD7]]]"

definition SidebarSide :: "ui_colors \<Rightarrow> theme_mode \<Rightarrow> bool \<Rightarrow> rat \<Rightarrow> shell \<Rightarrow> app_state \<Rightarrow> sidebar \<Rightarrow> ui_view list" where
  "SidebarSide ui mode isMobile w sh s sb =
     (if \<not> isMobile then
        [Elem ''div'' [] (sidebar_column w) [] [Sidebar ui mode False s sb],
         Elem ''div'' [] divider_style [(''onMouseDown'', False, [OnDividerDown]), (''onMouseEnter'', False, [OnDividerHover True]),
           (''onMouseLeave'', False, [OnDividerHover False])] []]
      else []) @
     (if isMobile \<and> mobileSidebarOpen sh then
        [Elem ''div'' [(''aria-hidden'', Str ''true'')] (backdrop_style ui) [(''onClick'', False, [OnBackdrop])] [],
         Elem ''div'' [] (drawer_style w) [] [Sidebar ui mode True s sb]]
      else [])"

definition AppMain ::
    "ui_colors \<Rightarrow> theme_mode \<Rightarrow> ui_state \<Rightarrow> bool \<Rightarrow> rat \<Rightarrow> shell \<Rightarrow> app_state \<Rightarrow> sidebar \<Rightarrow> panel_view \<Rightarrow> ui_view" where
  "AppMain ui mode u isMobile innerWidth sh s sb pv =
     Elem ''DndContext'' [] [] [(''onDragStart'', False, [OnTabDragStart]), (''onDragEnd'', False, [OnTabDragEnd])]
       [Elem ''div'' [] (app_frame ui) []
          ((if showPermBanner sh then [PermBanner ui (permChecking sh)] else []) @
           [Elem ''div'' [] app_row []
              (SidebarSide ui mode isMobile (sidebarPanelWidth isMobile innerWidth sh) sh s sb @
               [Elem ''div'' [] main_column [] [TerminalPanel ui u isMobile isMobile s pv]])] @
           ToastContainer ui u s),
        Elem ''DragOverlay'' [(''dropAnimation'', Str ''null'')] [] []
          (case draggingTab sh of
             None \<Rightarrow> []
           | Some (sid, title) \<Rightarrow> [Elem ''div'' [] (dragged_tab ui) [] [Txt title]])]"

definition AppView ::
    "ui_colors \<Rightarrow> theme_mode \<Rightarrow> ui_state \<Rightarrow> bool \<Rightarrow> rat \<Rightarrow> shell \<Rightarrow> login_form \<Rightarrow> app_state \<Rightarrow> sidebar \<Rightarrow> panel_view \<Rightarrow> ui_view" where
  "AppView ui mode u isMobile innerWidth sh lf s sb pv =
     (case app_screen (initialized s) sh of
        StartingScreen \<Rightarrow> Elem ''div'' [] (starting_style ui) [] [Txt ''Starting Mansio...'']
      | LoginScreen needsSetup \<Rightarrow> LoginForm ui needsSetup lf
      | LoadingScreen \<Rightarrow> Elem ''div'' [] (loading_style ui) [] [Txt ''Loading...'']
      | MainScreen \<Rightarrow> AppMain ui mode u isMobile innerWidth sh s sb pv)"

end
