(* ===== verification/ViewFacts.thy ===== *)
theory ViewFacts
  imports Views AppExample
begin

text \<open>
  Reading the trees of \<open>Views\<close>: \<open>fires\<close> runs the handlers of an event from its target outwards, as React does, and
  \<open>collect\<close> gathers marks of elements in document order (panels, containers, separators, layers, buttons). Lemmas per
  component say which marks it has and where an event in it goes.
\<close>

section \<open>Events\<close>

text \<open>
  A property given twice keeps its last value. \<open>fires ev p v\<close>: the callbacks an event runs whose target is the
  descendant at path \<open>p\<close>, innermost first, and whether it was stopped.
\<close>

definition own_handler :: "string \<Rightarrow> (string \<times> bool \<times> 'a list) list \<Rightarrow> 'a list \<times> bool" where
  "own_handler ev hs = (case map_of (rev hs) ev of None \<Rightarrow> ([], False) | Some (st, acts) \<Rightarrow> (acts, st))"

fun fires :: "string \<Rightarrow> nat list \<Rightarrow> 'a view \<Rightarrow> 'a list \<times> bool" where
  "fires ev [] (Elem t a st hs cs) = own_handler ev hs"
| "fires ev (i # p) (Elem t a st hs cs) =
     (if i < length cs then
        (let (acts, stopped) = fires ev p (cs ! i)
         in if stopped then (acts, True)
            else (let (acts', st') = own_handler ev hs in (acts @ acts', st')))
      else ([], False))"
| "fires ev p (Txt s) = ([], False)"
| "fires ev p (Glyphs g) = ([], False)"

section \<open>Reading a tree\<close>

fun collect :: "('a view \<Rightarrow> 'b list) \<Rightarrow> 'a view \<Rightarrow> 'b list" where
  "collect f (Elem t a st hs cs) = f (Elem t a st hs cs) @ concat (map (collect f) cs)"
| "collect f (Txt s) = f (Txt s)"
| "collect f (Glyphs g) = f (Glyphs g)"

fun leaf_mark :: "'a view \<Rightarrow> string list" where
  "leaf_mark (Elem t a st hs cs) = (case map_of a ''data-leaf-id'' of Some (Str i) \<Rightarrow> [i] | _ \<Rightarrow> [])"
| "leaf_mark v = []"

fun container_mark :: "'a view \<Rightarrow> unit list" where
  "container_mark (Elem t a st hs cs) = (if map_of a ''ref'' = Some (Str ''container'') then [()] else [])"
| "container_mark v = []"

text \<open>The panels drawn with the accent border.\<close>

fun accent_mark :: "ui_colors \<Rightarrow> 'a view \<Rightarrow> string list" where
  "accent_mark ui (Elem t a st hs cs) =
     (if map_of st ''border'' = Some (Str (''2px solid '' @ ui_accent ui)) then leaf_mark (Elem t a st hs cs) else [])"
| "accent_mark ui v = []"

fun is_tag :: "string \<Rightarrow> 'a view \<Rightarrow> unit list" where
  "is_tag tag (Elem t a st hs cs) = (if t = tag then [()] else [])"
| "is_tag tag v = []"

text \<open>Whether a control has a name: a label, a title or text with a letter in it.\<close>

definition letter :: "nat \<Rightarrow> bool" where
  "letter c \<longleftrightarrow> 65 \<le> c \<and> c \<le> 90 \<or> 97 \<le> c \<and> c \<le> 122"

fun has_text :: "'a view \<Rightarrow> bool" where
  "has_text (Elem t a st hs cs) = list_ex has_text cs"
| "has_text (Txt s) = list_ex (\<lambda>c. letter (of_char c)) s"
| "has_text (Glyphs g) = list_ex letter g"

definition says :: "string \<Rightarrow> (string \<times> pvalue) list \<Rightarrow> bool" where
  "says k a = (case map_of a k of Some (Str s) \<Rightarrow> s \<noteq> [] | _ \<Rightarrow> False)"

fun buttons_named :: "'a view \<Rightarrow> bool" where
  "buttons_named (Elem t a st hs cs) \<longleftrightarrow>
     (t = ''button'' \<longrightarrow> says ''aria-label'' a \<or> says ''title'' a \<or> list_ex has_text cs) \<and> list_all buttons_named cs"
| "buttons_named v \<longleftrightarrow> True"

section \<open>Names\<close>

lemma says_simps [simp]:
  "says k [] = False" "says k ((j, Str s) # a) = (if j = k then s \<noteq> [] else says k a)"
  "says k ((j, Num n) # a) = (if j = k then False else says k a)"
  by (simp_all add: says_def)

lemma named_DraggableTab: "buttons_named (DraggableTab ui u tv)"
  by (simp add: DraggableTab_def Let_def)

lemma named_TabBar: "list_all buttons_named (TabBar ui u b s)"
  by (cases "TabBar_view s") (simp_all add: TabBar_def list_all_iff named_DraggableTab)

lemma named_TerminalView: "buttons_named (TerminalView ui m sid ow v)"
  by (simp add: TerminalView_def)

lemma named_PanelLeaf: "buttons_named (PanelLeaf ui u m h d s node)"
  by (simp add: PanelLeaf_def Let_def named_TerminalView LeafToolbar_def DropZoneOverlay_def Zone_def)

lemma group_children_Cons:
  "group_children sep [] = []"
  "group_children sep ((k, c) # cs) = Elem ''Panel'' [(''id'', Str k), (''minSize'', Num 10)] [] [] [c] #
     concat (map (\<lambda>(k, c). [sep, Elem ''Panel'' [(''id'', Str k), (''minSize'', Num 10)] [] [] [c]]) cs)"
proof -
  have "concat (map (\<lambda>(i, k, c). (if i > 0 then [sep] else []) @ [Elem ''Panel'' [(''id'', Str k), (''minSize'', Num 10)] [] [] [c]])
      (enumerate n cs)) = concat (map (\<lambda>(k, c). [sep, Elem ''Panel'' [(''id'', Str k), (''minSize'', Num 10)] [] [] [c]]) cs)"
    if "0 < n" for n
    using that by (induction cs arbitrary: n) auto
  then show "group_children sep [] = []"
    "group_children sep ((k, c) # cs) = Elem ''Panel'' [(''id'', Str k), (''minSize'', Num 10)] [] [] [c] #
     concat (map (\<lambda>(k, c). [sep, Elem ''Panel'' [(''id'', Str k), (''minSize'', Num 10)] [] [] [c]]) cs)"
    by (simp_all add: group_children_def)
qed

lemma group_children_all:
  assumes "P sep" "\<And>k c. (k, c) \<in> set cs \<Longrightarrow> P (Elem ''Panel'' [(''id'', Str k), (''minSize'', Num 10)] [] [] [c])"
  shows "list_all P (group_children sep cs)"
  using assms by (cases cs) (auto simp: group_children_Cons list_all_iff)

lemma named_PanelNodeRenderer: "buttons_named (PanelNodeRenderer ui u s t)"
  by (induction ui u s t rule: PanelNodeRenderer.induct)
    (auto simp: named_PanelLeaf separator_def intro!: group_children_all)

lemma named_PanelLayout: "list_all buttons_named (PanelLayout ui u m s pv)"
  by (cases pv) (simp_all add: PanelLayout_def named_PanelLeaf named_PanelNodeRenderer)

lemma named_MobileInputBar: "buttons_named (MobileInputBar ui u sid)"
  by (simp add: MobileInputBar_def ToolKeyButton_def TOOL_KEYS_def key_title_def key_label_def letter_def Let_def)

lemma named_TerminalPanel: "buttons_named (TerminalPanel ui u m b s pv)"
  by (simp add: TerminalPanel_def named_TabBar named_PanelLayout named_MobileInputBar)

lemma named_Sidebar: "buttons_named (Sidebar ui mode closable s sb)"
proof -
  have "buttons_named (WorkspaceRow ui sb r)" for r
    by (simp add: WorkspaceRow_def rename_input_def workspace_label_def Let_def)
  moreover have "list_all buttons_named (ContextMenuView ui s sb)"
    by (cases "contextMenu sb") (auto simp: ContextMenuView_def menu_entry_def letter_def)
  moreover have "list_all buttons_named (new_workspace_input ui sb)" "buttons_named (sidebar_top ui closable)"
      "buttons_named (theme_footer ui mode)"
    by (simp_all add: new_workspace_input_def sidebar_top_def theme_footer_def themeIcon_def split: theme_mode.split)
  ultimately show ?thesis by (auto simp: Sidebar_def list_all_iff)
qed

lemma named_ToastContainer: "list_all buttons_named (ToastContainer ui u s)"
  by (simp add: ToastContainer_def ToastItem_def list_all_iff)

lemma named_LoginForm: "buttons_named (LoginForm ui needsSetup lf)"
  by (simp add: LoginForm_def letter_def)

lemma named_AppMain: "buttons_named (AppMain ui mode u m iw sh s sb pv)"
proof -
  have "list_all buttons_named (SidebarSide ui mode m w sh s sb)" for w
    by (simp add: SidebarSide_def named_Sidebar)
  moreover have "buttons_named (PermBanner ui b)" for b by (simp add: PermBanner_def letter_def)
  ultimately show ?thesis
    by (cases "draggingTab sh") (auto simp: AppMain_def named_TerminalPanel named_ToastContainer)
qed

lemma named_AppView: "buttons_named (AppView ui mode u isMobile innerWidth sh lf s sb pv)"
  by (cases "app_screen (initialized s) sh") (simp_all add: AppView_def named_LoginForm named_AppMain)

section \<open>The panels on the screen\<close>

lemma no_leaf_no_accent: "collect leaf_mark v = [] \<Longrightarrow> collect (accent_mark ui) v = []"
  by (induction v) (auto simp: concat_eq_Nil_conv split: if_splits)

lemma marks_TerminalView [simp]:
  "collect leaf_mark (TerminalView ui m sid ow v) = []"
  "collect (is_tag ''Separator'') (TerminalView ui m sid ow v) = []"
  "collect container_mark (TerminalView ui m sid ow v) = [()]"
  by (simp_all add: TerminalView_def)

lemma marks_LeafToolbar [simp]:
  "collect leaf_mark (LeafToolbar ui i b) = []"
  "collect (is_tag ''Separator'') (LeafToolbar ui i b) = []"
  "collect container_mark (LeafToolbar ui i b) = []"
  by (cases b; simp add: LeafToolbar_def)+

lemma marks_DropZoneOverlay [simp]:
  "concat (map (collect leaf_mark) (DropZoneOverlay ui u i)) = []"
  "concat (map (collect (is_tag ''Separator'')) (DropZoneOverlay ui u i)) = []"
  "concat (map (collect container_mark) (DropZoneOverlay ui u i)) = []"
  "concat (map (collect (accent_mark ui')) (DropZoneOverlay ui u i)) = []"
  by (simp_all add: DropZoneOverlay_def Zone_def)

lemmas marks_accent [simp] =
  no_leaf_no_accent [OF marks_TerminalView(1)] no_leaf_no_accent [OF marks_LeafToolbar(1)]

lemma marks_PanelLeaf [simp]:
  "collect leaf_mark (PanelLeaf ui u m h d s node) = [leaf_id node]"
  "collect container_mark (PanelLeaf ui u m h d s node) = [()]"
  "collect (is_tag ''Separator'') (PanelLeaf ui u m h d s node) = []"
  by (simp_all add: PanelLeaf_def Let_def)

lemma accent_PanelLeaf:
  "ui_accent ui \<noteq> ''transparent'' \<Longrightarrow>
    collect (accent_mark ui) (PanelLeaf ui u m h d s node) = (if panel_isFocused s node then [leaf_id node] else [])"
  by (simp add: PanelLeaf_def leaf_style_def Let_def)

lemma concat_map_concat: "concat (map (\<lambda>x. concat (map f (g x))) xs) = concat (map f (concat (map g xs)))"
  by (induction xs) simp_all

lemma collect_group:
  assumes "\<And>k c. f (Elem ''Panel'' [(''id'', Str k), (''minSize'', Num 10)] [] [] [c]) = []"
  shows "concat (map (collect f) (group_children sep ((node_id c, r c) # map (\<lambda>c. (node_id c, r c)) cs))) =
    collect f (r c) @ concat (map (\<lambda>c. collect f sep @ collect f (r c)) cs)"
proof -
  have "concat (map (collect f) (concat (map (\<lambda>(k, c). [sep, Elem ''Panel'' [(''id'', Str k), (''minSize'', Num 10)] [] [] [c]])
      (map (\<lambda>c. (node_id c, r c)) cs)))) = concat (map (\<lambda>c. collect f sep @ collect f (r c)) cs)"
    by (induction cs) (simp_all add: assms)
  then show ?thesis by (simp add: group_children_Cons assms)
qed

text \<open>A mark neither separators nor groups carry is collected from the leaves; separators stand between.\<close>

lemma collect_tree:
  assumes "\<And>t a st hs cs. t = ''Group'' \<or> t = ''Panel'' \<Longrightarrow> map_of a ''data-leaf-id'' = None \<Longrightarrow> map_of a ''ref'' = None \<Longrightarrow>
      f (Elem t a st hs cs) = []"
    and "\<And>ui d. collect f (separator ui d) = []"
  shows "collect f (PanelNodeRenderer ui u s t) =
    concat (map (\<lambda>l. collect f (PanelLeaf ui u False False False s l)) (listLeaves t))"
proof (induction ui u s t rule: PanelNodeRenderer.induct)
  case (2 ui u s i d sz cs)
  show ?case
  proof (cases cs)
    case (Cons c cs')
    have "collect f (PanelNodeRenderer ui u s x) =
        concat (map (\<lambda>l. collect f (PanelLeaf ui u False False False s l)) (listLeaves x))" if "x \<in> set cs" for x
      using that 2 by blast
    then show ?thesis
      using Cons by (simp add: assms collect_group) (simp add: concat_map_concat cong: map_cong)
  qed (simp add: assms group_children_Cons)
qed simp

lemma separators_drawn:
  "arity_ok t \<Longrightarrow> Suc (length (collect (is_tag ''Separator'') (PanelNodeRenderer ui u s t))) = length (listLeaves t)"
proof (induction ui u s t rule: PanelNodeRenderer.induct)
  case (2 ui u s i d sz cs)
  let ?f = "collect (is_tag ''Separator'')" and ?r = "PanelNodeRenderer ui u s"
  have sub: "Suc (length (?f (?r x))) = length (listLeaves x)" if "x \<in> set cs" for x
    using that 2 by (simp add: list_all_iff)
  have sep: "?f (separator ui d) = [()]" by (simp add: separator_def)
  obtain c cs' where cs: "cs = c # cs'" using 2(2) by (cases cs) auto
  have "length (concat (map (\<lambda>c. () # ?f (?r c)) xs)) = length (concat (map listLeaves xs))" if "set xs \<subseteq> set cs" for xs
    using that by (induction xs) (simp_all add: sub)
  then have "length (concat (map (\<lambda>c. () # ?f (?r c)) cs')) = length (concat (map listLeaves cs'))" by (simp add: cs subset_insertI)
  moreover have "Suc (length (?f (?r c))) = length (listLeaves c)" by (rule sub) (simp add: cs)
  moreover have "?f (?r (PSplit i d sz cs)) = ?f (?r c) @ concat (map (\<lambda>c. () # ?f (?r c)) cs')"
    by (simp add: cs collect_group sep)
  moreover have "listLeaves (PSplit i d sz cs) = listLeaves c @ concat (map listLeaves cs')" by (simp add: cs)
  ultimately show ?case by (simp only: length_append add_Suc [symmetric])
qed simp

lemma panels_drawn:
  "collect leaf_mark (PanelNodeRenderer ui u s t) = leaf_ids t"
  "length (collect container_mark (PanelNodeRenderer ui u s t)) = length (leaf_ids t)"
  "ui_accent ui \<noteq> ''transparent'' \<Longrightarrow> collect (accent_mark ui) (PanelNodeRenderer ui u s t) =
     map leaf_id (filter (panel_isFocused s) (listLeaves t))"
proof -
  have "concat (map (\<lambda>l. if P l then [leaf_id l] else []) ls) = map leaf_id (filter P ls)" for P ls
    by (induction ls) simp_all
  then show "ui_accent ui \<noteq> ''transparent'' \<Longrightarrow> collect (accent_mark ui) (PanelNodeRenderer ui u s t) =
      map leaf_id (filter (panel_isFocused s) (listLeaves t))"
    by (simp add: collect_tree separator_def accent_PanelLeaf)
  show "collect leaf_mark (PanelNodeRenderer ui u s t) = leaf_ids t"
    by (simp add: collect_tree separator_def leaf_ids_def)
  show "length (collect container_mark (PanelNodeRenderer ui u s t)) = length (leaf_ids t)"
    by (simp add: collect_tree separator_def leaf_ids_def length_concat comp_def)
qed

lemma accent_visible: "ui_accent (uiFor eff) \<noteq> ''transparent''"
  by (simp add: uiFor_def darkUI_def lightUI_def)

lemma one_named: "distinct (map f xs) \<Longrightarrow> x \<in> set xs \<Longrightarrow> map f (filter (\<lambda>y. f x = f y) xs) = [f x]"
  by (induction xs) (auto simp: filter_empty_conv image_iff)

section \<open>Layers\<close>

text \<open>Each element's own layer; those without one stay below. Panels have no layer of their own, so these compare.\<close>

fun layer :: "'a view \<Rightarrow> rat list" where
  "layer (Elem t a st hs cs) = (case map_of st ''zIndex'' of Some (Num z) \<Rightarrow> [z] | _ \<Rightarrow> [])"
| "layer v = []"

definition layers :: "'a view list \<Rightarrow> rat list" where
  "layers vs = concat (map (collect layer) vs)"

lemma layers_simps [simp]: "layers [] = []" "layers (v # vs) = collect layer v @ layers vs"
  "layers (vs @ ws) = layers vs @ layers ws"
  by (simp_all add: layers_def)

lemma layers_Elem [simp]: "collect layer (Elem t a st hs cs) = layer (Elem t a st hs cs) @ layers cs"
  by (simp add: layers_def)

lemma layers_map: "(\<And>x. x \<in> set xs \<Longrightarrow> collect layer (f x) = []) \<Longrightarrow> layers (map f xs) = []"
  by (simp add: layers_def)

definition between :: "rat \<Rightarrow> rat \<Rightarrow> 'a view \<Rightarrow> bool" where
  "between lo hi v \<longleftrightarrow> list_all (\<lambda>z. lo \<le> z \<and> z \<le> hi) (collect layer v)"

lemma between_simps [simp]:
  "between lo hi (Elem t a st hs cs) \<longleftrightarrow>
     (case map_of st ''zIndex'' of Some (Num z) \<Rightarrow> lo \<le> z \<and> z \<le> hi | _ \<Rightarrow> True) \<and> list_all (between lo hi) cs"
  "between lo hi (Txt s)" "between lo hi (Glyphs g)"
  by (auto simp: between_def list_all_iff layers_def split: option.split pvalue.split)

lemma between_mono: "between lo hi v \<Longrightarrow> lo' \<le> lo \<Longrightarrow> hi \<le> hi' \<Longrightarrow> between lo' hi' v"
  by (fastforce simp: between_def list_all_iff)

lemma between_TerminalView: "between 10 12 (TerminalView ui m sid ow v)"
  by (simp add: TerminalView_def terminal_frame_def terminal_container_def paused_style_def paused_icon_def paused_title_def
      paused_hint_def drop_hint_def uploading_style_def upload_error_style_def)

lemma between_LeafToolbar: "between 15 15 (LeafToolbar ui i b)"
  by (simp add: LeafToolbar_def leaf_toolbar_style_def leaf_button_style_def update_conv')

lemma between_Zone: "between 20 20 (Zone ui u i z)"
  by (cases z) (simp_all add: Zone_def zone_style_def)

lemma between_PanelLeaf: "between 10 20 (PanelLeaf ui u m h d s node)"
  using between_mono [OF between_TerminalView, of 10 20] between_mono [OF between_LeafToolbar, of 10 20]
    between_mono [OF between_Zone, of 10 20]
  by (simp add: PanelLeaf_def Let_def leaf_style_def DropZoneOverlay_def)

lemma between_tree: "between 10 20 (PanelNodeRenderer ui u s t)"
  by (induction ui u s t rule: PanelNodeRenderer.induct)
    (auto simp: between_PanelLeaf group_style_def separator_def separator_style_def intro!: group_children_all)

lemma between_TerminalPanel: "between 10 20 (TerminalPanel ui u m b s pv)"
proof -
  have "list_all (between 10 20) (PanelLayout ui u m s pv)"
    by (cases pv) (simp_all add: PanelLayout_def between_PanelLeaf between_tree)
  moreover have "between 10 20 (DraggableTab ui u tv)" for tv
    by (simp add: DraggableTab_def tab_style_def tab_dot_def tab_title_def tab_close_def Let_def)
  then have "list_all (between 10 20) (TabBar ui u b s)"
    by (cases "TabBar_view s")
      (simp_all add: TabBar_def tabbar_style_def tab_menu_def tab_list_def tab_new_def list_all_iff)
  moreover have "between 10 20 (MobileInputBar ui u sid)" for sid
    by (simp add: MobileInputBar_def ToolKeyButton_def key_label_def mobile_bar_def mobile_keys_def mobile_key_def
        mobile_row_def mobile_box_def mobile_text_def mobile_send_def list_all_iff)
  ultimately show ?thesis by (simp add: TerminalPanel_def panel_frame_def panel_body_def)
qed

lemma between_Sidebar: "between 1000 1000 (Sidebar ui mode closable s sb)"
proof -
  have "between 1000 1000 (WorkspaceRow ui sb r)" for r
    by (simp add: WorkspaceRow_def rename_input_def workspace_label_def Let_def sidebar_row_style_def sidebar_rename_def
        sidebar_label_def sidebar_name_def sidebar_cwd_def sidebar_dot_def)
  moreover have "list_all (between 1000 1000) (ContextMenuView ui s sb)"
    by (cases "contextMenu sb")
      (auto simp: ContextMenuView_def menu_entry_def sidebar_menu_def sidebar_menu_rename_def sidebar_menu_delete_def)
  moreover have "list_all (between 1000 1000) (new_workspace_input ui sb)" "between 1000 1000 (sidebar_top ui closable)"
      "between 1000 1000 (theme_footer ui mode)"
    by (simp_all add: new_workspace_input_def sidebar_top_def theme_footer_def themeIcon_def sidebar_new_box_def
        sidebar_new_input_def sidebar_header_def sidebar_header_buttons_def sidebar_add_def sidebar_close_def
        sidebar_footer_def sidebar_brand_def sidebar_theme_def split: theme_mode.split)
  ultimately show ?thesis by (auto simp: Sidebar_def sidebar_frame_def sidebar_list_def list_all_iff)
qed

lemma layers_ToastContainer: "layers (ToastContainer ui u s) = (if toasts s = [] then [] else [1100])"
proof -
  have "collect layer (ToastItem ui h t) = []" for h t
    by (simp add: ToastItem_def toast_style_def toast_body_def toast_title_def toast_text_def toast_dismiss_def)
  then show ?thesis by (simp add: ToastContainer_def toast_list_def layers_map)
qed

text \<open>The zones are drawn only while a tab is dragged, and then above everything else of their panel.\<close>

lemma zones_on_top:
  "collect layer (PanelLeaf ui u m h d s node) =
     collect layer (PanelLeaf ui (u\<lparr>dndActive := False\<rparr>) m h d s node) @ (if dndActive u then replicate 5 20 else [])"
  "between 10 15 (PanelLeaf ui (u\<lparr>dndActive := False\<rparr>) m h d s node)"
proof -
  have "collect layer (Zone ui u i z) = [20]" for i z
    by (cases z) (simp_all add: Zone_def zone_style_def)
  then show "collect layer (PanelLeaf ui u m h d s node) =
     collect layer (PanelLeaf ui (u\<lparr>dndActive := False\<rparr>) m h d s node) @ (if dndActive u then replicate 5 20 else [])"
    by (simp add: PanelLeaf_def Let_def leaf_style_def DropZoneOverlay_def numeral_eq_Suc)
  show "between 10 15 (PanelLeaf ui (u\<lparr>dndActive := False\<rparr>) m h d s node)"
    using between_mono [OF between_TerminalView, of 10 15] between_mono [OF between_LeafToolbar, of 10 15]
    by (simp add: PanelLeaf_def Let_def leaf_style_def DropZoneOverlay_def)
qed

section \<open>Where an event goes\<close>

text \<open>
  \<open>on_path p v\<close>: the path leads to an element or text of the tree; \<open>inside tag p v\<close>: an element on the way has the tag;
  \<open>quiet ev v\<close>: nothing in the tree handles the event.
\<close>

fun on_path :: "nat list \<Rightarrow> 'a view \<Rightarrow> bool" where
  "on_path [] v = True"
| "on_path (i # p) (Elem t a st hs cs) = (i < length cs \<and> on_path p (cs ! i))"
| "on_path (i # p) v = False"

fun inside :: "string \<Rightarrow> nat list \<Rightarrow> 'a view \<Rightarrow> bool" where
  "inside tag [] (Elem t a st hs cs) = (t = tag)"
| "inside tag (i # p) (Elem t a st hs cs) = (t = tag \<or> i < length cs \<and> inside tag p (cs ! i))"
| "inside tag p v = False"

fun quiet :: "string \<Rightarrow> 'a view \<Rightarrow> bool" where
  "quiet ev (Elem t a st hs cs) \<longleftrightarrow> ev \<notin> fst ` set hs \<and> list_all (quiet ev) cs"
| "quiet ev v \<longleftrightarrow> True"

lemma own_handler_simps [simp]:
  "own_handler ev [] = ([], False)"
  "own_handler ev ((e, st, acts) # hs) =
     (if e = ev \<and> ev \<notin> fst ` set hs then (acts, st) else own_handler ev hs)"
proof -
  show "own_handler ev [] = ([], False)" by (simp add: own_handler_def)
  have "map_of (rev hs) ev = None \<longleftrightarrow> ev \<notin> fst ` set hs" by (simp add: map_of_eq_None_iff)
  then show "own_handler ev ((e, st, acts) # hs) =
     (if e = ev \<and> ev \<notin> fst ` set hs then (acts, st) else own_handler ev hs)"
    by (auto simp: own_handler_def map_add_def split: option.split)
qed

lemma own_handler_none: "ev \<notin> fst ` set hs \<Longrightarrow> own_handler ev hs = ([], False)"
proof -
  assume "ev \<notin> fst ` set hs"
  then have "map_of (rev hs) ev = None" by (simp add: map_of_eq_None_iff)
  then show ?thesis by (simp add: own_handler_def)
qed

lemma fires_quiet: "quiet ev v \<Longrightarrow> fires ev p v = ([], False)"
  by (induction ev p v rule: fires.induct) (auto simp: own_handler_none list_all_length)

lemma inside_none: "collect (is_tag tag) v = [] \<Longrightarrow> \<not> inside tag p v"
  by (induction tag p v rule: inside.induct) (auto split: if_splits)

lemma inside_same [simp]: "inside tag p (Elem tag a st hs cs)"
  by (cases p) simp_all

text \<open>An event in an element all of whose children are quiet, or all but one.\<close>

lemma fires_own:
  "on_path p (Elem t a st hs cs) \<Longrightarrow> list_all (quiet ev) cs \<Longrightarrow> fires ev p (Elem t a st hs cs) = own_handler ev hs"
  by (cases p) (auto simp: fires_quiet list_all_length split_def)

lemma fires_child:
  assumes "on_path p (Elem t a st hs (pre @ x # post))" "list_all (quiet ev) pre" "list_all (quiet ev) post"
  shows "fires ev p (Elem t a st hs (pre @ x # post)) =
    (if take 1 p = [length pre] then
       (case fires ev (tl p) x of (acts, True) \<Rightarrow> (acts, True) | (acts, False) \<Rightarrow> (acts @ fst (own_handler ev hs), snd (own_handler ev hs)))
     else own_handler ev hs)"
proof (cases p)
  case (Cons i q)
  show ?thesis
  proof (cases "i = length pre")
    case True
    then show ?thesis by (simp add: Cons split_def Let_def split: bool.split)
  next
    case False
    then have "quiet ev ((pre @ x # post) ! i)"
      using assms Cons by (auto simp: list_all_length nth_append nth_Cons' split: if_splits)
    then show ?thesis using False assms(1) Cons by (simp add: fires_quiet split_def)
  qed
qed simp

lemma inside_child:
  assumes "t \<noteq> tag" "list_all (\<lambda>v. collect (is_tag tag) v = []) pre" "list_all (\<lambda>v. collect (is_tag tag) v = []) post"
  shows "inside tag p (Elem t a st hs (pre @ x # post)) \<longleftrightarrow> take 1 p = [length pre] \<and> inside tag (tl p) x"
proof (cases p)
  case (Cons i q)
  show ?thesis
  proof (cases "i = length pre")
    case False
    then have "i < length (pre @ x # post) \<Longrightarrow> collect (is_tag tag) ((pre @ x # post) ! i) = []"
      using assms(2,3) by (auto simp: list_all_length nth_append nth_Cons' split: if_splits)
    then show ?thesis using False assms(1) Cons inside_none by fastforce
  qed (use assms(1) Cons in simp)
qed (use assms(1) in simp)

lemma on_path_child: "on_path p (Elem t a st hs (pre @ x # post)) \<Longrightarrow> take 1 p = [length pre] \<Longrightarrow> on_path (tl p) x"
  by (cases p) auto

text \<open>A control that stops the event, nested in an element that handles it.\<close>

lemma nested_control:
  assumes "on_path p (Elem t a st hs (pre @ Elem tag xa xst xhs xcs # post))" "t \<noteq> tag"
    and "list_all (\<lambda>v. quiet ev v \<and> collect (is_tag tag) v = []) (pre @ post)"
    and "list_all (quiet ev) xcs" "own_handler ev xhs = (acts, True)"
  shows "fires ev p (Elem t a st hs (pre @ Elem tag xa xst xhs xcs # post)) =
    (if inside tag p (Elem t a st hs (pre @ Elem tag xa xst xhs xcs # post)) then (acts, True) else own_handler ev hs)"
proof -
  have q: "list_all (quiet ev) pre" "list_all (quiet ev) post" "list_all (\<lambda>v. collect (is_tag tag) v = []) pre"
      "list_all (\<lambda>v. collect (is_tag tag) v = []) post"
    using assms(3) by (auto simp: list_all_iff)
  have "fires ev (tl p) (Elem tag xa xst xhs xcs) = (acts, True)" if "take 1 p = [length pre]"
    using fires_own [OF on_path_child [OF assms(1) that] assms(4)] assms(5) by simp
  then show ?thesis
    by (simp add: fires_child [OF assms(1) q(1,2)] inside_child [OF assms(2) q(3,4)])
qed

lemma optional_control:
  assumes "on_path p v" "v = Elem t a st hs (pre @ (if b then [Elem tag xa xst xhs xcs] else []))" "t \<noteq> tag"
    and "list_all (\<lambda>v. quiet ev v \<and> collect (is_tag tag) v = []) pre"
    and "list_all (quiet ev) xcs" "own_handler ev xhs = (acts, True)"
  shows "fires ev p v = (if inside tag p v then (acts, True) else own_handler ev hs)"
proof (cases b)
  case True
  with assms show ?thesis
    using nested_control [of p t a st hs pre tag xa xst xhs xcs "[]" ev acts] by simp
next
  case False
  with assms have v: "v = Elem t a st hs pre" by simp
  have "collect (is_tag tag) v = []" using assms(3,4) v by (simp add: list_all_iff)
  moreover have "list_all (quiet ev) pre" using assms(4) by (simp add: list_all_iff)
  then have "fires ev p v = own_handler ev hs" using assms(1) unfolding v by (simp add: fires_own)
  ultimately show ?thesis using inside_none [of tag v p] by simp
qed

lemma tab_events:
  assumes "''onClick'' \<notin> fst ` set (tabListeners u (s_id (tab_session tv)))" "on_path p (DraggableTab ui u tv)"
  shows "fires ''onClick'' p (DraggableTab ui u tv) =
      (if inside ''button'' p (DraggableTab ui u tv) then ([OnCloseTab (s_id (tab_session tv))], True)
       else ([OnSelectTab (s_id (tab_session tv))], False))"
    and "fires ''onPointerDown'' p (DraggableTab ui u tv) =
      (if inside ''button'' p (DraggableTab ui u tv) then ([], True)
       else own_handler ''onPointerDown'' (tabListeners u (s_id (tab_session tv))))"
proof -
  let ?sid = "s_id (tab_session tv)"
  obtain pre where tab: "DraggableTab ui u tv = Elem ''div'' ((''key'', Str ?sid) # tabAttributes u ?sid)
      (tab_style ui (tab_active tv) (tabDragging u ?sid)) ((''onClick'', False, [OnSelectTab ?sid]) # tabListeners u ?sid)
      (pre @ (if tab_canClose tv then [Elem ''button'' [(''aria-label'', Str (''Close '' @ s_title (tab_session tv)))]
          (tab_close ui (tab_active tv)) [(''onClick'', True, [OnCloseTab ?sid]), (''onPointerDown'', True, [])] [Glyphs [0xD7]]]
        else []))"
    and pre: "\<And>ev. list_all (\<lambda>v. quiet ev v \<and> collect (is_tag ''button'') v = []) pre"
    unfolding DraggableTab_def Let_def append_assoc [symmetric] by fastforce
  show "fires ''onClick'' p (DraggableTab ui u tv) =
      (if inside ''button'' p (DraggableTab ui u tv) then ([OnCloseTab ?sid], True) else ([OnSelectTab ?sid], False))"
    using optional_control [OF assms(2) tab _ pre, of "''onClick''"] assms(1) by simp
  show "fires ''onPointerDown'' p (DraggableTab ui u tv) =
      (if inside ''button'' p (DraggableTab ui u tv) then ([], True) else own_handler ''onPointerDown'' (tabListeners u ?sid))"
    using optional_control [OF assms(2) tab _ pre, of "''onPointerDown''"] by simp
qed

lemma row_events:
  assumes "on_path p (WorkspaceRow ui sb r)"
  shows "fires ''onClick'' p (WorkspaceRow ui sb r) =
    (if inside ''input'' p (WorkspaceRow ui sb r) then ([], True) else ([OnOpenWorkspace (ws_id (row_workspace r))], False))"
proof (cases "editingId sb = Some (ws_id (row_workspace r))")
  case True
  let ?dot = "if row_unread r then [Elem ''span'' [(''aria-label'', Str ''unread output''), (''title'', Str ''New output in this workspace'')]
            (sidebar_dot ui) [] []] else []"
  let ?i = "ws_id (row_workspace r)"
  have row: "WorkspaceRow ui sb r = Elem ''div'' [(''key'', Str ?i)] (sidebar_row_style ui (row_active r))
      [(''onClick'', False, [OnOpenWorkspace ?i]), (''onContextMenu'', True, [OnContextMenu ?i])] ([] @ rename_input ui ?i (editName sb) # ?dot)"
    using True by (simp add: WorkspaceRow_def Let_def)
  show ?thesis using assms unfolding row rename_input_def
    by (subst nested_control [where acts = "[]"]) simp_all
next
  case False
  have "collect (is_tag ''input'') (WorkspaceRow ui sb r) = []"
    using False by (simp add: WorkspaceRow_def workspace_label_def Let_def)
  then have "\<not> inside ''input'' p (WorkspaceRow ui sb r)" by (rule inside_none)
  moreover have "fires ''onClick'' p (WorkspaceRow ui sb r) = ([OnOpenWorkspace (ws_id (row_workspace r))], False)"
    using assms False unfolding WorkspaceRow_def Let_def by (subst fires_own) (simp_all add: workspace_label_def)
  ultimately show ?thesis by simp
qed

lemma toast_events:
  assumes "on_path p (ToastItem ui h t)"
  shows "fires ''onClick'' p (ToastItem ui h t) =
    (if inside ''button'' p (ToastItem ui h t) then ([OnToastDismiss (t_id t)], True) else ([OnToastClick (t_id t)], False))"
proof -
  obtain pre where toast: "ToastItem ui h t = Elem ''div'' [(''key'', Str (t_id t)), (''role'', Str ''alert'')] (toast_style ui h)
      [(''onClick'', False, [OnToastClick (t_id t)]), (''onMouseEnter'', False, [OnToastHover (t_id t) True]),
        (''onMouseLeave'', False, [OnToastHover (t_id t) False])]
      (pre @ (if True then [Elem ''button'' [(''aria-label'', Str ''Dismiss''), (''title'', Str ''Dismiss'')] (toast_dismiss ui)
          [(''onClick'', True, [OnToastDismiss (t_id t)])] [Glyphs [0xD7]]] else []))"
    and pre: "\<And>ev. list_all (\<lambda>v. quiet ev v \<and> collect (is_tag ''button'') v = []) pre"
    by (auto simp: ToastItem_def)
  show ?thesis
    using optional_control [OF assms toast _ pre, of "''onClick''"] by simp
qed

text \<open>A press in a terminal: the second child is the overlay of a session another window holds.\<close>

definition paused_view :: "string option \<Rightarrow> bool \<Rightarrow> bool" where
  "paused_view sid isOwned \<longleftrightarrow> truthy sid \<and> \<not> isOwned"

lemma press_TerminalView:
  assumes "on_path p (TerminalView ui m sid ow v)"
  shows "fires ''onMouseDown'' p (TerminalView ui m sid ow v) =
    (if paused_view sid ow \<and> take 1 p = [1] then ([OnTakeFocus], True) else ([], False))"
proof -
  obtain st hs xa xst xcs post where view: "TerminalView ui m sid ow v = Elem ''div'' [(''ref'', Str ''wrapper'')] st hs
      ([Elem ''div'' [(''ref'', Str ''container'')] terminal_container [] []] @
       (if paused_view sid ow then [Elem ''div'' [] (paused_style ui) [(''onMouseDown'', True, [OnTakeFocus])] xcs] else []) @ post)"
    and q: "list_all (quiet ''onMouseDown'') post" "list_all (quiet ''onMouseDown'') xcs" "''onMouseDown'' \<notin> fst ` set hs"
    unfolding TerminalView_def paused_view_def by fastforce
  show ?thesis
  proof (cases "paused_view sid ow")
    case True
    with assms view q show ?thesis
      using fires_child [of p "''div''" "[(''ref'', Str ''wrapper'')]" st hs "[Elem ''div'' [(''ref'', Str ''container'')] terminal_container [] []]"
          "Elem ''div'' [] (paused_style ui) [(''onMouseDown'', True, [OnTakeFocus])] xcs" post "''onMouseDown''"]
        on_path_child [of p "''div''" "[(''ref'', Str ''wrapper'')]" st hs "[Elem ''div'' [(''ref'', Str ''container'')] terminal_container [] []]"
          "Elem ''div'' [] (paused_style ui) [(''onMouseDown'', True, [OnTakeFocus])] xcs" post]
        fires_own [of "tl p" "''div''" "[]" "paused_style ui" "[(''onMouseDown'', True, [OnTakeFocus])]" xcs "''onMouseDown''"]
      by (auto simp: own_handler_none)
  next
    case False
    with assms view q show ?thesis
      using fires_own [of p "''div''" "[(''ref'', Str ''wrapper'')]" st hs _ "''onMouseDown''"] by (simp add: own_handler_none)
  qed
qed

lemma press_PanelLeaf:
  assumes "on_path p (PanelLeaf ui u m h d s node)"
  shows "fires ''onMouseDown'' p (PanelLeaf ui u m h d s node) =
    (if paused_view (leaf_session node) (leafOwned u (leaf_id node)) \<and> take 2 p = [0, 1] then ([OnTakeFocus], True)
     else if \<not> h \<and> leafHovered u (leaf_id node) \<and> take 1 p = [1] then ([], True)
     else ([OnFocusPanel (leaf_id node)], False))"
proof -
  let ?i = "leaf_id node"
  let ?tv = "TerminalView ui m (leaf_session node) (leafOwned u ?i) (leafUploads u ?i)"
  let ?bar = "if \<not> h \<and> leafHovered u ?i then [LeafToolbar ui ?i d] else []"
  let ?a = "[(''data-testid'', Str ''panel-leaf''), (''data-leaf-id'', Str ?i)]" and ?st = "leaf_style ui (panel_isFocused s node)"
    and ?hs = "[(''onMouseDown'', False, [OnFocusPanel ?i]), (''onMouseEnter'', False, [OnHoverPanel ?i True]),
         (''onMouseLeave'', False, [OnHoverPanel ?i False])]"
  have leaf: "PanelLeaf ui u m h d s node = Elem ''div'' ?a ?st ?hs ([?tv] @ ?bar @ DropZoneOverlay ui u ?i)"
    by (simp add: PanelLeaf_def Let_def)
  have own: "own_handler ''onMouseDown'' ?hs = ([OnFocusPanel ?i], False)" by simp
  have bar: "fires ''onMouseDown'' q (LeafToolbar ui ?i d) = ([], True)" if "on_path q (LeafToolbar ui ?i d)" for q
    using that unfolding LeafToolbar_def by (subst fires_own) simp_all
  have zones: "fires ''onMouseDown'' q z = ([], False)" if "z \<in> set (DropZoneOverlay ui u ?i)" for q z
    by (rule fires_quiet) (use that in \<open>auto simp: DropZoneOverlay_def Zone_def split: if_splits\<close>)
  show ?thesis
  proof (cases p)
    case Nil
    then show ?thesis unfolding leaf using own by simp
  next
    case (Cons j q)
    have "fires ''onMouseDown'' q (([?tv] @ ?bar @ DropZoneOverlay ui u ?i) ! j) =
      (if paused_view (leaf_session node) (leafOwned u ?i) \<and> take 2 p = [0, 1] then ([OnTakeFocus], True)
       else if \<not> h \<and> leafHovered u ?i \<and> j = 1 then ([], True) else ([], False))"
    proof (cases j)
      case 0
      then have "on_path q ?tv" using assms Cons unfolding leaf by simp
      then show ?thesis using 0 Cons by (simp add: press_TerminalView numeral_2_eq_2 take_Suc)
    next
      case (Suc k)
      show ?thesis
      proof (cases "\<not> h \<and> leafHovered u ?i \<and> k = 0")
        case True
        then have "on_path q (LeafToolbar ui ?i d)" using assms Cons Suc unfolding leaf by simp
        then show ?thesis using True Suc Cons bar by (simp add: numeral_2_eq_2)
      next
        case False
        then have "([?tv] @ ?bar @ DropZoneOverlay ui u ?i) ! j \<in> set (DropZoneOverlay ui u ?i)"
          using assms Cons Suc unfolding leaf by (cases k) (auto simp: nth_append split: if_splits)
        then show ?thesis using False Suc Cons zones by (auto simp: numeral_2_eq_2)
      qed
    qed
    moreover have "j < length ([?tv] @ ?bar @ DropZoneOverlay ui u ?i)" using assms Cons unfolding leaf by simp
    ultimately show ?thesis unfolding leaf Cons using own Cons by (auto simp: Let_def)
  qed
qed

section \<open>An example\<close>

definition ex_ui :: ui_state where
  "ex_ui = \<lparr>leafHovered = (\<lambda>_. True), leafUploads = (\<lambda>_. \<lparr>uploadingName = None, errorMsg = None, fileDragging = False, pasted = []\<rparr>), leafOwned = (\<lambda>i. i = ''leaf-1-7''), dndActive = True,
     zoneOver = (\<lambda>_ z. z = CenterZone), tabDragging = (\<lambda>_. False), tabListeners = (\<lambda>_. [(''onPointerDown'', False, [])]),
     tabAttributes = (\<lambda>_. [(''role'', Str ''button'')]), toastHovered = (\<lambda>_. False), inputText = []\<rparr>"

definition ex_tab :: tab_view where
  "ex_tab = \<lparr>tab_session = ex_session ''s1'', tab_active = False, tab_unread = True, tab_canClose = True\<rparr>"

end
