(* ===== verification/Reload.thy ===== *)
theory Reload
  imports AppExample
begin

text \<open>
  Pages that come and go: the store (\<open>stores/appStore.ts\<close>) with the subscriber \<open>wireLayoutPersistence\<close> registers once per page
  (\<open>main.tsx\<close>), over a \<open>localStorage\<close> that outlives the page and which other code writes under other keys. Whatever
  happens, the storage holds the layouts of the page as they are, so that a reload finds them.
\<close>

section \<open>A page and its storage\<close>

record browser =
  page_world :: world
  page_storage :: storage
  persistenceWired :: bool
  subscribers :: nat

definition wireLayoutPersistence :: "browser \<Rightarrow> browser" where
  "wireLayoutPersistence b =
     (if persistenceWired b then b else b\<lparr>persistenceWired := True, subscribers := Suc (subscribers b)\<rparr>)"

text \<open>The function it returns takes the subscriber back.\<close>

definition unwireLayoutPersistence :: "browser \<Rightarrow> browser" where
  "unwireLayoutPersistence b = b\<lparr>subscribers := subscribers b - 1, persistenceWired := False\<rparr>"

lemma unwire_wired: "\<not> persistenceWired b \<Longrightarrow> unwireLayoutPersistence (wireLayoutPersistence b) = b"
  by (simp add: unwireLayoutPersistence_def wireLayoutPersistence_def)

text \<open>Every subscriber runs after a change, told whether the two dictionaries are the same objects as before.\<close>

definition notify :: "(json \<Rightarrow> string) \<Rightarrow> bool \<Rightarrow> bool \<Rightarrow> browser \<Rightarrow> browser" where
  "notify stringify sameLayouts sameFocus b =
     b\<lparr>page_storage := ((\<lambda>st. outcome_state (persist_subscriber stringify sameLayouts sameFocus (app (page_world b)) st))
        ^^ subscribers b) (page_storage b)\<rparr>"

definition open_page :: "storage \<Rightarrow> browser" where
  "open_page st = wireLayoutPersistence \<lparr>page_world = initial_world, page_storage = st, persistenceWired = False, subscribers = 0\<rparr>"

definition new_browser :: "browser \<Rightarrow> bool" where
  "new_browser b \<longleftrightarrow> (\<exists>m. b = open_page (Working False m))"

text \<open>An object that is the same as before has the same contents.\<close>

inductive browse_step :: "(nat \<Rightarrow> nat) \<Rightarrow> (json \<Rightarrow> string) \<Rightarrow> browser \<Rightarrow> browser \<Rightarrow> bool" for rnd stringify where
  act: "app_step rnd (page_world b) w \<Longrightarrow>
     (sameLayouts \<Longrightarrow> layoutByWorkspace (app w) = layoutByWorkspace (app (page_world b))) \<Longrightarrow>
     (sameFocus \<Longrightarrow> focusedPanelByWorkspace (app w) = focusedPanelByWorkspace (app (page_world b))) \<Longrightarrow>
     browse_step rnd stringify b (notify stringify sameLayouts sameFocus (b\<lparr>page_world := w\<rparr>))"
| wire: "browse_step rnd stringify b (wireLayoutPersistence b)"
| reload: "browse_step rnd stringify b (open_page (page_storage b))"
| elsewhere: "page_storage b = Working False m \<Longrightarrow> map_of m' layout_key = map_of m layout_key \<Longrightarrow>
     browse_step rnd stringify b (b\<lparr>page_storage := Working False m'\<rparr>)"

section \<open>The storage is up to date\<close>

text \<open>Before the first layout there is nothing to save, and the storage keeps what an earlier page left.\<close>

definition saved_now :: "(json \<Rightarrow> string) \<Rightarrow> app_state \<Rightarrow> string obj \<Rightarrow> bool" where
  "saved_now stringify s m \<longleftrightarrow>
     layoutByWorkspace s = [] \<and> focusedPanelByWorkspace s = [] \<or>
     (\<exists>out. layouts_to_save s (obj_keys (layoutByWorkspace s)) [] = Some out \<and>
        map_of m layout_key = Some (stringify (layouts_file out)))"

definition browse_ok :: "(json \<Rightarrow> string) \<Rightarrow> browser \<Rightarrow> bool" where
  "browse_ok stringify b \<longleftrightarrow> persistenceWired b \<and> subscribers b = 1 \<and>
     (\<exists>m. page_storage b = Working False m \<and> saved_now stringify (app (page_world b)) m)"

lemma layouts_to_save_cong:
  assumes "layoutByWorkspace s' = layoutByWorkspace s" "focusedPanelByWorkspace s' = focusedPanelByWorkspace s"
  shows "layouts_to_save s' wids out = layouts_to_save s wids out"
  by (induction wids arbitrary: out) (simp_all add: layout_of_def focus_of_def assms split: option.split)

lemma open_page_ok: "browse_ok stringify (open_page (Working False m))"
  by (simp add: browse_ok_def open_page_def wireLayoutPersistence_def saved_now_def initial_world_def initial_state_def)

lemma browse_ok_step:
  assumes "browse_step rnd stringify b b'" "browse_ok stringify b" "world_ok (page_world b)"
  shows "browse_ok stringify b'"
  using assms
proof (induction rule: browse_step.induct)
  case (act b w sameLayouts sameFocus)
  obtain m where b: "persistenceWired b" "subscribers b = 1" "page_storage b = Working False m"
      "saved_now stringify (app (page_world b)) m"
    using act.prems by (auto simp: browse_ok_def)
  have "store_ok (app w)" using store.step_inv [OF act.hyps(1) act.prems(2)] by (simp add: world_ok_def)
  then obtain out where out: "layouts_to_save (app w) (obj_keys (layoutByWorkspace (app w))) [] = Some out"
    using layouts_to_save_all by metis
  show ?case
  proof (cases "sameLayouts \<and> sameFocus")
    case True
    then have same: "layoutByWorkspace (app w) = layoutByWorkspace (app (page_world b))"
        "focusedPanelByWorkspace (app w) = focusedPanelByWorkspace (app (page_world b))"
      using act.hyps by simp_all
    have "saved_now stringify (app w) m"
      using b(4) unfolding saved_now_def layouts_to_save_cong [OF same] same .
    then show ?thesis using True b by (simp add: browse_ok_def notify_def persist_subscriber_def)
  next
    case False
    then have "notify stringify sameLayouts sameFocus (b\<lparr>page_world := w\<rparr>) =
        b\<lparr>page_world := w, page_storage := Working False (obj_set layout_key (stringify (layouts_file out)) m)\<rparr>"
      using b(2,3) out by (simp add: notify_def persist_subscriber_def saveLayouts_def if_not_P [OF False])
    then show ?thesis using b out by (simp add: browse_ok_def saved_now_def)
  qed
next
  case (wire b)
  then show ?case by (simp add: browse_ok_def wireLayoutPersistence_def)
next
  case (reload b)
  then show ?case using open_page_ok by (auto simp: browse_ok_def)
next
  case (elsewhere b m m')
  then show ?case by (auto simp: browse_ok_def saved_now_def)
qed

lemma open_page_start: "start_world (page_world (open_page st))"
  by (simp add: open_page_def wireLayoutPersistence_def start_world_def)

lemma browse_view:
  "browse_step rnd stringify b b' \<Longrightarrow>
     app_step rnd (page_world b) (page_world b') \<or> page_world b' = page_world b \<or> start_world (page_world b')"
  by (induction rule: browse_step.induct) (simp_all add: notify_def wireLayoutPersistence_def open_page_start)

text \<open>A page is the store, started again by every reload.\<close>

interpretation browsing: refining_system start_world "app_step rnd" world_ok
  new_browser "browse_step rnd stringify" "browse_ok stringify" page_world for rnd stringify
proof
  show "browse_ok stringify b \<and> start_world (page_world b)" if "new_browser b" for b
    using that open_page_ok open_page_start by (auto simp: new_browser_def)
  show "(app_step rnd)\<^sup>*\<^sup>* (page_world b) (page_world b') \<or> start_world (page_world b')" if "browse_step rnd stringify b b'" for b b'
    using browse_view [OF that] step_or_stay [of "app_step rnd" "page_world b" "page_world b'"] by blast
qed (use browse_ok_step in blast)

lemma reachable_browser:
  assumes "reachable_from new_browser (browse_step rnd stringify) b"
  shows "browse_ok stringify b" "reachable_world rnd (page_world b)"
  using browsing.conc.reachable_inv [OF assms] by (simp_all add: reachable_world_def)

section \<open>What a start-up restores\<close>

lemma load_up_to_date:
  assumes "browse_ok stringify b" "store_ok (app (page_world b))" "layout_of (app (page_world b)) wid = Some t"
    and "\<And>out. layouts_to_save (app (page_world b)) (obj_keys (layoutByWorkspace (app (page_world b)))) [] = Some out \<Longrightarrow>
      stringify (layouts_file out) \<noteq> [] \<and> parse (stringify (layouts_file out)) = Some (layouts_file out)"
  shows "map_of (loadLayouts parse (page_storage b)) k = map_option (\<lambda>t. \<lparr>pl_layout = t, pl_focused = the (focus_of (app (page_world b)) k)\<rparr>)
      (layout_of (app (page_world b)) k)"
proof -
  let ?s = "app (page_world b)"
  obtain m out where m: "page_storage b = Working False m" "layouts_to_save ?s (obj_keys (layoutByWorkspace ?s)) [] = Some out"
      "map_of m layout_key = Some (stringify (layouts_file out))"
    using assms(1,3) by (auto simp: browse_ok_def saved_now_def layout_of_def)
  have "loadLayouts parse (page_storage b) = loadLayouts parse (saveLayouts stringify out (Working False m))"
    using m(1,3) by (simp add: loadLayouts_def saveLayouts_def)
  then show ?thesis using load_saved_state [OF assms(2) m(2), of stringify parse m k] assms(4) [OF m(2)] by simp
qed

text \<open>
  Two windows save under one key. What another window wrote there is gone with the next change in this one, whose file holds
  its own layouts of all workspaces: the last window to change something wins.
\<close>

lemma last_window_wins:
  assumes "browse_ok stringify b" "store_ok (app (page_world b))" "layoutByWorkspace (app (page_world b)) \<noteq> []"
  shows "\<exists>out. layouts_to_save (app (page_world b)) (obj_keys (layoutByWorkspace (app (page_world b)))) [] = Some out \<and>
    page_storage (notify stringify False same (b\<lparr>page_storage := Working False theirs\<rparr>)) =
      Working False (obj_set layout_key (stringify (layouts_file out)) theirs)"
proof -
  obtain out where out: "layouts_to_save (app (page_world b)) (obj_keys (layoutByWorkspace (app (page_world b)))) [] = Some out"
    using layouts_to_save_all [OF assms(2)] by metis
  then show ?thesis
    using assms(1) by (simp add: browse_ok_def notify_def persist_subscriber_def saveLayouts_def)
qed

lemma init_layouts_at:
  assumes "init_layouts rnd saved sess wss ls fs c = Some (ls', fs', c')" "wid \<in> ws_id ` set wss"
  shows "\<exists>c1 t f c2. init_layout rnd (map_of saved wid) (known_sessions sess wid) c1 = Some (t, f, c2) \<and>
    map_of ls' wid = Some t \<and> map_of fs' wid = Some f"
  using assms
proof (induction wss arbitrary: ls fs c)
  case (Cons x xs)
  obtain t f c1 where t: "init_layout rnd (map_of saved (ws_id x)) (known_sessions sess (ws_id x)) c = Some (t, f, c1)"
    and rest: "init_layouts rnd saved sess xs (obj_set (ws_id x) t ls) (obj_set (ws_id x) f fs) c1 = Some (ls', fs', c')"
    using Cons.prems(1) by (auto simp: known_sessions_def Let_def split: option.splits)
  show ?case
  proof (cases "wid \<in> ws_id ` set xs")
    case True
    then show ?thesis using Cons.IH [OF rest] by blast
  next
    case False
    have keep: "map_of ls' wid = map_of ls wid \<and> map_of fs' wid = map_of fs wid"
      if "init_layouts rnd saved sess ys ls fs c = Some (ls', fs', c')" "wid \<notin> ws_id ` set ys" for ys ls fs c
      using that by (induction ys arbitrary: ls fs c) (auto simp: Let_def split: option.splits)
    from keep [OF rest False] show ?thesis
      using t False Cons.prems(2) by (intro exI [of _ c] exI [of _ t] exI [of _ f] exI [of _ c1]) auto
  qed
qed simp

lemma init_layout_restored:
  assumes "init_layout rnd (Some \<lparr>pl_layout = t, pl_focused = f\<rparr>) wS c = Some (t', f', c')" "f \<in> set (leaf_ids t)"
    and "listVisibleSessionIds (map_leaves (keep_sessions (set (map s_id wS))) t) \<noteq> []"
  shows "t' = map_leaves (keep_sessions (set (map s_id wS))) t \<and> f' = f"
proof -
  let ?t = "map_leaves (keep_sessions (set (map s_id wS))) t"
  have "f \<in> set (leaf_ids ?t)" using assms(2) by simp
  then have "findLeafById ?t f \<noteq> None" using findLeafById_None [of ?t f] by blast
  then have "reconcileLayout \<lparr>pl_layout = t, pl_focused = f\<rparr> (set (map s_id wS)) = Some \<lparr>pl_layout = ?t, pl_focused = f\<rparr>"
    by (simp add: reconcileLayout_def Let_def pruneSessionIds_eq del: prune.rewrite_shape)
  then show ?thesis using assms(1,3) by (simp add: init_layout_def Let_def)
qed

lemma keep_all_sessions: "set (listVisibleSessionIds t) \<subseteq> V \<Longrightarrow> map_leaves (keep_sessions V) t = t"
  unfolding map_leaves_fix by (force simp: keep_sessions_def set_listVisibleSessionIds subset_iff elim!: truthyE)

section \<open>An example\<close>

text \<open>The two panels of \<open>ex_two\<close>, opened on an empty storage.\<close>

definition ex_page :: "(json \<Rightarrow> string) \<Rightarrow> browser" where
  "ex_page stringify = fold (\<lambda>w b. notify stringify False False (b\<lparr>page_world := w\<rparr>)) [ex_one, ex_split, ex_two]
     (open_page (Working False []))"

definition ex_page_file :: persisted_layouts where
  "ex_page_file = [(''w1'', \<lparr>pl_layout = ex_closed_tree, pl_focused = ''leaf-2-7''\<rparr>)]"

lemma ex_page_reachable: "reachable_from new_browser (browse_step ex_rnd stringify) (ex_page stringify)"
proof -
  have start: "reachable_from new_browser (browse_step ex_rnd stringify) (open_page (Working False []))"
    by (rule reachable_start) (auto simp: new_browser_def)
  have next_page: "reachable_from new_browser (browse_step ex_rnd stringify) (notify stringify False False (b\<lparr>page_world := w\<rparr>))"
    if "reachable_from new_browser (browse_step ex_rnd stringify) b" "app_step ex_rnd (page_world b) w" for b w
    by (rule reachable_step [OF that(1) browse_step.act [OF that(2)]]) simp_all
  have steps: "app_step ex_rnd initial_world ex_one" "app_step ex_rnd ex_one ex_split" "app_step ex_rnd ex_split ex_two"
    unfolding ex_one_def ex_two_def by (rule app_step.create_workspace)
      (unfold ex_one_def [symmetric] ex_split_def, rule app_step.split [OF ex_fresh], rule app_step.create_session)
  show ?thesis
    unfolding ex_page_def fold.simps comp_def id_apply
    by (rule next_page next_page [OF next_page [OF next_page [OF start]]])+
      (simp_all add: notify_def open_page_def wireLayoutPersistence_def steps)
qed

lemma ex_page_facts:
  "page_world (ex_page stringify) = ex_two" "layout_of (app ex_two) ''w1'' = Some ex_closed_tree"
  "layouts_to_save (app ex_two) (obj_keys (layoutByWorkspace (app ex_two))) [] = Some ex_page_file"
  "page_storage (ex_page (\<lambda>_. ''doc'')) = Working False [(layout_key, ''doc'')]"
  by (simp_all add: ex_page_def notify_def ex_two_eq layout_of_def focus_of_def obj_keys_def obj_entries_def ex_page_file_def
      open_page_def wireLayoutPersistence_def persist_subscriber_def ex_one_eq ex_split_eq saveLayouts_def)

lemma ex_page_restarts:
  assumes "saved_ok saved"
  shows "\<exists>w'. init ex_rnd (Resolved [ex_workspace]) Rejected (\<lambda>_. Resolved [ex_session ''s1'', ex_session ''s2'']) Rejected
     saved initial_world = Done w' \<and>
   workspaces (app w') = [ex_workspace] \<and> sessions_of (app w') ''w1'' = [ex_session ''s1'', ex_session ''s2'']"
proof -
  let ?l = "[ex_session ''s1'', ex_session ''s2'']"
  let ?i = "init_finish ex_rnd saved [ex_workspace] [(''w1'', ?l)] [(''w1'', ''s1'')] initial_world"
  have id: "s_id (ex_session i) = i" "ws_id ex_workspace = ''w1''" for i
    by (simp_all add: ex_session_def ex_workspace_def)
  have "toasts_ok (toasts (app initial_world))" by (simp add: initial_world_def initial_state_def toasts_ok_def)
  then obtain w' where w': "?i = Done w'" using init_finish_ok [OF assms] by blast
  moreover have "workspaces (app w') = [ex_workspace]" "sessions_of (app w') ''w1'' = ?l"
    using w' by (auto simp: init_finish_def sessions_of_def Let_def split: option.splits)
  moreover have "init ex_rnd (Resolved [ex_workspace]) Rejected (\<lambda>_. Resolved ?l) Rejected saved initial_world = ?i"
    by (simp add: init_def init_sessions_def init_active_map_def Let_def id)
  ultimately show ?thesis by (intro exI [of _ w']) simp
qed

lemma ex_page_saved_ok: "saved_ok (loadLayouts (\<lambda>_. Some (layouts_file ex_page_file)) (page_storage (ex_page (\<lambda>_. ''doc''))))"
proof -
  note ok = reachable_browser(1) [OF ex_page_reachable, of "\<lambda>_. ''doc''"]
    reachable_store [OF reachable_browser(2) [OF ex_page_reachable, of "\<lambda>_. ''doc''"]]
  have "map_of (loadLayouts (\<lambda>_. Some (layouts_file ex_page_file)) (page_storage (ex_page (\<lambda>_. ''doc'')))) k =
      map_option (\<lambda>t. \<lparr>pl_layout = t, pl_focused = the (focus_of (app ex_two) k)\<rparr>) (layout_of (app ex_two) k)" for k
    using load_up_to_date [OF ok, of "''w1''" ex_closed_tree "\<lambda>_. Some (layouts_file ex_page_file)" k] ex_page_facts by simp
  then show ?thesis
    using layouts_okD(1) [OF store_okD(1) [OF reachable_store [OF ex_reachable(3)]]]
    by (auto simp: saved_ok_def layout_of_def)
qed

end
