(* ===== verification/Messages.thy ===== *)
theory Messages
  imports AppExample Terminal "HOL-Library.Word"
begin

text \<open>
  What arrives over a terminal's socket (\<open>ws.onmessage\<close> in \<open>hooks/useTerminal.ts\<close>): output, which is written to the terminal and
  reported to the store (\<open>stores/appStore.ts\<close>), and status messages. \<open>parse\<close> is \<open>JSON.parse\<close>, \<open>dims\<close> what
  \<open>proposeDimensions\<close> returns.
\<close>

section \<open>The handler\<close>

datatype ws_data = Binary "8 word list" | TextFrame string

datatype term_write = Bytes "8 word list" | StartedFresh

record attached_term =
  link :: conn
  written :: "term_write list"
  store_world :: world

text \<open>Reading a property of \<open>null\<close> throws, which is caught like text that is not JSON.\<close>

definition status_message :: "(string \<Rightarrow> json option) \<Rightarrow> string \<Rightarrow> json option" where
  "status_message parse s =
     (case parse s of None \<Rightarrow> None
      | Some msg \<Rightarrow> if jprop msg ''type'' = Some (JString ''attached'') then Some msg else None)"

definition recreated :: "json \<Rightarrow> bool" where
  "recreated msg = (case jprop msg ''recreated'' of None \<Rightarrow> False | Some v \<Rightarrow> json_truthy v)"

fun ws_onmessage ::
    "(string \<Rightarrow> json option) \<Rightarrow> (nat \<times> nat) option \<Rightarrow> document \<Rightarrow> int \<Rightarrow> string \<Rightarrow> ws_data \<Rightarrow> attached_term \<Rightarrow> attached_term"
  where
  "ws_onmessage parse dims doc now sid (Binary bs) tw =
     tw\<lparr>written := written tw @ [Bytes bs], store_world := markSessionOutput doc now sid (store_world tw)\<rparr>"
| "ws_onmessage parse dims doc now sid (TextFrame s) tw =
     (case status_message parse s of
        None \<Rightarrow> tw
      | Some msg \<Rightarrow> tw\<lparr>link := ws_attached dims (link tw),
          written := written tw @ (if recreated msg then [StartedFresh] else [])\<rparr>)"

text \<open>A message arrives with the time and the terminal's size.\<close>

type_synonym arrival = "int \<times> (nat \<times> nat) option \<times> ws_data"

definition arrive ::
    "(string \<Rightarrow> json option) \<Rightarrow> document \<Rightarrow> string \<Rightarrow> arrival list \<Rightarrow> attached_term \<Rightarrow> attached_term" where
  "arrive parse doc sid msgs tw = fold (\<lambda>(now, dims, d). ws_onmessage parse dims doc now sid d) msgs tw"

section \<open>What arrives, seen from each side\<close>

fun shown_of :: "(string \<Rightarrow> json option) \<Rightarrow> ws_data \<Rightarrow> term_write list" where
  "shown_of parse (Binary bs) = [Bytes bs]"
| "shown_of parse (TextFrame s) =
     (case status_message parse s of None \<Rightarrow> [] | Some msg \<Rightarrow> if recreated msg then [StartedFresh] else [])"

fun is_output :: "arrival \<Rightarrow> bool" where
  "is_output (now, dims, Binary bs) = True"
| "is_output (now, dims, TextFrame s) = False"

definition output_times :: "arrival list \<Rightarrow> int list" where
  "output_times msgs = map fst (filter is_output msgs)"

definition statuses :: "(string \<Rightarrow> json option) \<Rightarrow> arrival list \<Rightarrow> (nat \<times> nat) option list" where
  "statuses parse msgs = List.map_filter (\<lambda>(now, dims, d). case d of Binary bs \<Rightarrow> None
     | TextFrame s \<Rightarrow> map_option (\<lambda>_. dims) (status_message parse s)) msgs"

lemma arrive_split:
  "written (arrive parse doc sid msgs tw) = written tw @ concat (map (\<lambda>(now, dims, d). shown_of parse d) msgs)"
  "store_world (arrive parse doc sid msgs tw) = fold (\<lambda>now. markSessionOutput doc now sid) (output_times msgs) (store_world tw)"
  "link (arrive parse doc sid msgs tw) = fold ws_attached (statuses parse msgs) (link tw)"
proof -
  have "written (arrive parse doc sid msgs tw) = written tw @ concat (map (\<lambda>(now, dims, d). shown_of parse d) msgs) \<and>
    store_world (arrive parse doc sid msgs tw) = fold (\<lambda>now. markSessionOutput doc now sid) (output_times msgs) (store_world tw) \<and>
    link (arrive parse doc sid msgs tw) = fold ws_attached (statuses parse msgs) (link tw)"
  proof (induction msgs arbitrary: tw)
    case (Cons m msgs)
    obtain now dims d where m: "m = (now, dims, d)" by (cases m)
    show ?case
      using Cons [of "ws_onmessage parse dims doc now sid d tw"]
      by (cases d) (auto simp: m arrive_def output_times_def statuses_def List.map_filter_simps split: option.split)
  qed (simp add: arrive_def output_times_def statuses_def List.map_filter_simps)
  then show "written (arrive parse doc sid msgs tw) = written tw @ concat (map (\<lambda>(now, dims, d). shown_of parse d) msgs)"
    "store_world (arrive parse doc sid msgs tw) = fold (\<lambda>now. markSessionOutput doc now sid) (output_times msgs) (store_world tw)"
    "link (arrive parse doc sid msgs tw) = fold ws_attached (statuses parse msgs) (link tw)" by blast+
qed

text \<open>A status on an open socket sends the size back, and changes nothing else of the connection.\<close>

fun size_reply :: "nat \<Rightarrow> (nat \<times> nat) option \<Rightarrow> (nat \<times> frame) list" where
  "size_reply h None = []"
| "size_reply h (Some (cols, rows)) = (if 0 < cols \<and> 0 < rows then [(h, Resize cols rows)] else [])"

lemma ws_attached_open:
  assumes "inst_ws c = Some h" "socks c h = SOpen"
  shows "outbox (ws_attached d c) = outbox c @ size_reply h d" "inst_ws (ws_attached d c) = Some h"
    "socks (ws_attached d c) = socks c"
proof -
  have "outbox (ws_attached d c) = outbox c @ size_reply h d \<and> inst_ws (ws_attached d c) = Some h \<and> socks (ws_attached d c) = socks c"
  proof (cases d)
    case (Some p)
    obtain cols rows where "p = (cols, rows)" by (cases p)
    then show ?thesis using assms Some by (simp add: ws_attached_def wsState_def send_frame_def)
  qed (use assms in \<open>simp add: ws_attached_def\<close>)
  then show "outbox (ws_attached d c) = outbox c @ size_reply h d" "inst_ws (ws_attached d c) = Some h"
    "socks (ws_attached d c) = socks c" by blast+
qed

lemma statuses_sent:
  assumes "inst_ws c = Some h" "socks c h = SOpen"
  shows "outbox (fold ws_attached ds c) = outbox c @ concat (map (size_reply h) ds) \<and>
    inst_ws (fold ws_attached ds c) = Some h \<and> socks (fold ws_attached ds c) = socks c"
  using assms by (induction ds arbitrary: c) (simp_all add: ws_attached_open)

section \<open>Background output\<close>

text \<open>
  A burst of output of a background session leaves one pending timer for it, due 1500 ms after the
  last byte, whatever the number of chunks; when that timer fires the session becomes unread exactly
  when the burst lasted at least 500 ms and the session is still in the background.
\<close>

lemma background_burst_debounced:
  assumes "reachable_world rnd w" "map_of (busyTrack (track w)) sid = None" "ts \<noteq> []"
    and "\<not> isSessionVisibleInActiveWorkspace (app w) sid \<or> doc \<noteq> Visible"
    and "w' = fold (\<lambda>now. markSessionOutput doc now sid) ts w"
  shows "app w' = app w \<and>
    (\<exists>h. \<forall>h' p. map_of (timers (track w')) h' = Some p \<and> tm_session p = sid \<longleftrightarrow>
           h' = h \<and> p = \<lparr>tm_session = sid, tm_due = last ts + 1500\<rparr>) \<and>
    (\<forall>h p doc'. map_of (timers (track w')) h = Some p \<and> tm_session p = sid \<longrightarrow>
       (sessionUnread (app (fire_timer doc' h w')) sid \<longleftrightarrow>
          sessionUnread (app w) sid \<or>
          500 \<le> last ts - hd ts \<and> (\<not> isSessionVisibleInActiveWorkspace (app w) sid \<or> doc' = Hidden)))"
proof -
  have w': "w' = w\<lparr>track := fold (track_output sid) ts (track w)\<rparr>"
    using assms(4,5) background_burst [of w sid doc ts] by blast
  note tr = burst_tracker [OF reachable_tracker [OF assms(1)] assms(2,3)]
  obtain h where h: "map_of (idleTimers (track w')) sid = Some h"
      "map_of (timers (track w')) h = Some \<lparr>tm_session = sid, tm_due = last ts + 1500\<rparr>"
    using tracked_timer [OF conjunct1 [OF tr] conjunct2 [OF tr]] by (auto simp: w' IDLE_MS_def)
  have only: "h' = h \<and> p = \<lparr>tm_session = sid, tm_due = last ts + 1500\<rparr>"
    if "map_of (timers (track w')) h' = Some p" "tm_session p = sid" for h' p
    using tracker_okD(1) [OF conjunct1 [OF tr], of h' p] that h by (simp add: w')
  have fire: "sessionUnread (app (fire_timer doc' h w')) sid \<longleftrightarrow>
      sessionUnread (app w) sid \<or>
      500 \<le> last ts - hd ts \<and> (\<not> isSessionVisibleInActiveWorkspace (app w) sid \<or> doc' = Hidden)" for doc'
    using fire_timer_unread [OF h(2), of "\<lparr>startedAt = hd ts, lastByteAt = last ts\<rparr>" doc'] tr
    by (simp add: w' MIN_BUSY_MS_def)
  have iff: "map_of (timers (track w')) h' = Some p \<and> tm_session p = sid \<longleftrightarrow>
           h' = h \<and> p = \<lparr>tm_session = sid, tm_due = last ts + 1500\<rparr>" for h' p
    using h(2) only [of h' p] by auto
  show ?thesis
    unfolding iff using fire by (auto simp: w')
qed

section \<open>An example\<close>

text \<open>The session \<open>s9\<close> of \<open>ex_third\<close>, shown nowhere: a status message, three chunks of output and something else.\<close>

definition ex_background :: attached_term where
  "ex_background = \<lparr>link = new_conn\<lparr>inst_ws := Some 0, socks := (\<lambda>_. SClosed)(0 := SOpen)\<rparr>, written = [], store_world = ex_third\<rparr>"

definition ex_arrivals :: "arrival list" where
  "ex_arrivals = [(50, Some (80, 24), TextFrame ''attached''), (100, None, Binary [104]), (400, None, TextFrame ''pong''),
     (400, None, Binary [105]), (900, None, Binary [10])]"

definition ex_parse :: "string \<Rightarrow> json option" where
  "ex_parse s = (if s = ''attached'' then Some (JObject [(''type'', JString ''attached''), (''recreated'', JBool True)]) else None)"

lemma ex_arrivals_eq:
  "output_times ex_arrivals = [100, 400, 900]" "statuses ex_parse ex_arrivals = [Some (80, 24)]"
  "concat (map (\<lambda>(now, dims, d). shown_of ex_parse d) ex_arrivals) = [StartedFresh, Bytes [104], Bytes [105], Bytes [10]]"
  by (simp_all add: output_times_def statuses_def ex_arrivals_def ex_parse_def status_message_def recreated_def jprop_def
      json_truthy_def List.map_filter_simps)

end
