(* ===== verification/PageEffects.thy ===== *)
theory PageEffects
  imports Theming AppStore
begin

text \<open>
  Effects on the page: the theme every component reads through \<open>hooks/useEffectiveTheme.ts\<close>, each with its own copy of the system's
  choice, and what the hook writes to the document; and the polling and visibility effects of \<open>App.tsx\<close>.
\<close>

section \<open>The document's theme\<close>

text \<open>The attributes of the root element and the \<open>meta\<close> elements of the head, by name.\<close>

record page_doc =
  colorScheme :: "string option"
  dataTheme :: "string option"
  metas :: "(string \<times> string) list"

fun theme_name :: "effective_theme \<Rightarrow> string" where
  "theme_name LightTheme = ''light''"
| "theme_name DarkTheme = ''dark''"

text \<open>The first \<open>meta\<close> element of the name gets the content; it is appended when there is none.\<close>

fun put_meta :: "string \<Rightarrow> string \<Rightarrow> (string \<times> string) list \<Rightarrow> (string \<times> string) list" where
  "put_meta nm content [] = [(nm, content)]"
| "put_meta nm content ((n, c) # ms) = (if n = nm then (n, content) # ms else (n, c) # put_meta nm content ms)"

definition apply_theme :: "effective_theme \<Rightarrow> page_doc \<Rightarrow> page_doc" where
  "apply_theme eff d =
     d\<lparr>colorScheme := Some (theme_name eff), dataTheme := Some (theme_name eff),
       metas := put_meta ''theme-color'' (ui_metaThemeColor (uiFor eff)) (metas d)\<rparr>"

section \<open>The hook in every component\<close>

text \<open>
  The store's mode, the storage, whether the light query matches (\<open>None\<close>: no \<open>matchMedia\<close>), and the system theme each
  mounted component has in its state.
\<close>

record themed_page =
  tmode :: theme_mode
  tstorage :: storage
  light_query :: "bool option"
  systemThemes :: "effective_theme obj"
  tdoc :: page_doc

text \<open>After a render the effect runs in the components whose effective theme is not the one before.\<close>

definition rerender :: "themed_page \<Rightarrow> themed_page \<Rightarrow> themed_page" where
  "rerender old tp =
     tp\<lparr>tdoc := fold (\<lambda>(i, sys) d.
          if map_option (effectiveTheme (tmode old)) (map_of (systemThemes old) i) = Some (effectiveTheme (tmode tp) sys) then d
          else apply_theme (effectiveTheme (tmode tp) sys) d) (systemThemes tp) (tdoc tp)\<rparr>"

definition mount_hook :: "string \<Rightarrow> themed_page \<Rightarrow> themed_page" where
  "mount_hook i tp = rerender tp (tp\<lparr>systemThemes := obj_set i (readSystemTheme (light_query tp)) (systemThemes tp)\<rparr>)"

definition unmount_hook :: "string \<Rightarrow> themed_page \<Rightarrow> themed_page" where
  "unmount_hook i tp = tp\<lparr>systemThemes := obj_del i (systemThemes tp)\<rparr>"

text \<open>The \<open>change\<close> event of the query, which every component listens to.\<close>

definition system_changed :: "bool \<Rightarrow> themed_page \<Rightarrow> themed_page" where
  "system_changed b tp =
     (if light_query tp = None then tp
      else rerender tp (tp\<lparr>light_query := Some b,
        systemThemes := map (\<lambda>(i, _). (i, if b then LightTheme else DarkTheme)) (systemThemes tp)\<rparr>))"

definition page_setMode :: "theme_mode \<Rightarrow> themed_page \<Rightarrow> themed_page" where
  "page_setMode md tp = rerender tp (case setMode md (tstorage tp) of (m, st) \<Rightarrow> tp\<lparr>tmode := m, tstorage := st\<rparr>)"

definition page_cycleMode :: "themed_page \<Rightarrow> themed_page" where
  "page_cycleMode tp = rerender tp (case cycleMode (tmode tp) (tstorage tp) of (m, st) \<Rightarrow> tp\<lparr>tmode := m, tstorage := st\<rparr>)"

definition fresh_themed_page :: "themed_page \<Rightarrow> bool" where
  "fresh_themed_page tp \<longleftrightarrow> tmode tp = loadMode (tstorage tp) \<and> systemThemes tp = []"

inductive theme_step :: "themed_page \<Rightarrow> themed_page \<Rightarrow> bool" where
  mount: "has_key i (systemThemes tp) = False \<Longrightarrow> theme_step tp (mount_hook i tp)"
| unmount: "theme_step tp (unmount_hook i tp)"
| system: "theme_step tp (system_changed b tp)"
| set_mode: "theme_step tp (page_setMode md tp)"
| cycle: "theme_step tp (page_cycleMode tp)"

section \<open>The page shows one theme\<close>

definition page_theme :: "themed_page \<Rightarrow> effective_theme" where
  "page_theme tp = effectiveTheme (tmode tp) (readSystemTheme (light_query tp))"

definition doc_shows :: "effective_theme \<Rightarrow> page_doc \<Rightarrow> bool" where
  "doc_shows eff d \<longleftrightarrow> colorScheme d = Some (theme_name eff) \<and> dataTheme d = Some (theme_name eff) \<and>
     map_of (metas d) ''theme-color'' = Some (ui_metaThemeColor (uiFor eff))"

definition stored_mode_ok :: "themed_page \<Rightarrow> bool" where
  "stored_mode_ok tp \<longleftrightarrow> (\<forall>m. tstorage tp = Working False m \<longrightarrow> loadMode (tstorage tp) = tmode tp)"

definition theme_ok :: "themed_page \<Rightarrow> bool" where
  "theme_ok tp \<longleftrightarrow> (\<forall>(i, sys) \<in> set (systemThemes tp). sys = readSystemTheme (light_query tp)) \<and>
     (systemThemes tp \<noteq> [] \<longrightarrow> doc_shows (page_theme tp) (tdoc tp)) \<and> stored_mode_ok tp \<and> distinct (map fst (systemThemes tp))"

lemma map_of_put_meta [simp]: "map_of (put_meta nm content ms) k = (if k = nm then Some content else map_of ms k)"
  by (induction nm content ms rule: put_meta.induct) auto

lemma apply_theme_shows [simp]: "doc_shows eff (apply_theme eff d)"
  by (simp add: doc_shows_def apply_theme_def)

text \<open>
  When all components have the system's theme, the effect leaves the document right if one of them ran it or it was right before.
\<close>

lemma fold_run:
  "fold (\<lambda>(i, sys) d. if same i then d else apply_theme eff d) xs d =
     (if \<forall>i \<in> fst ` set xs. same i then d else fold (\<lambda>(i, sys) d. if same i then d else apply_theme eff d) xs d)"
  "\<not> (\<forall>i \<in> fst ` set xs. same i) \<Longrightarrow> doc_shows eff (fold (\<lambda>(i, sys) d. if same i then d else apply_theme eff d) xs d)"
proof -
  show "fold (\<lambda>(i, sys) d. if same i then d else apply_theme eff d) xs d =
     (if \<forall>i \<in> fst ` set xs. same i then d else fold (\<lambda>(i, sys) d. if same i then d else apply_theme eff d) xs d)"
    by (induction xs arbitrary: d) auto
  show "doc_shows eff (fold (\<lambda>(i, sys) d. if same i then d else apply_theme eff d) xs d)"
    if "\<not> (\<forall>i \<in> fst ` set xs. same i)"
    using that
  proof (induction xs rule: rev_induct)
    case (snoc x xs)
    show ?case
    proof (cases "same (fst x)")
      case True
      then have "\<not> (\<forall>i \<in> fst ` set xs. same i)" using snoc.prems by auto
      then show ?thesis using True snoc.IH by (simp add: split_def)
    qed (simp add: split_def)
  qed simp
qed

lemma rerender_shows:
  assumes "\<forall>(i, sys) \<in> set (systemThemes tp). sys = readSystemTheme (light_query tp)"
    and "(\<forall>i \<in> fst ` set (systemThemes tp). map_option (effectiveTheme (tmode old)) (map_of (systemThemes old) i) =
      Some (page_theme tp)) \<Longrightarrow> systemThemes tp \<noteq> [] \<Longrightarrow> doc_shows (page_theme tp) (tdoc tp)"
  shows "systemThemes tp \<noteq> [] \<longrightarrow> doc_shows (page_theme tp) (tdoc (rerender old tp))"
proof -
  let ?same = "\<lambda>i. map_option (effectiveTheme (tmode old)) (map_of (systemThemes old) i) = Some (page_theme tp)"
  have run: "tdoc (rerender old tp) =
      fold (\<lambda>(i, sys) d. if ?same i then d else apply_theme (page_theme tp) d) (systemThemes tp) (tdoc tp)"
  proof -
    have "(case x of (i, sys) \<Rightarrow> \<lambda>d.
        if map_option (effectiveTheme (tmode old)) (map_of (systemThemes old) i) = Some (effectiveTheme (tmode tp) sys) then d
        else apply_theme (effectiveTheme (tmode tp) sys) d) =
      (case x of (i, sys) \<Rightarrow> \<lambda>d. if ?same i then d else apply_theme (page_theme tp) d)" if "x \<in> set (systemThemes tp)" for x
    proof (cases x)
      case (Pair i sys)
      then have e: "effectiveTheme (tmode tp) sys = page_theme tp" using that assms(1) by (auto simp: page_theme_def)
      show ?thesis by (simp only: Pair prod.case e)
    qed
    then show ?thesis unfolding rerender_def by (simp cong: fold_cong)
  qed
  show ?thesis
  proof (cases "\<forall>i \<in> fst ` set (systemThemes tp). ?same i")
    case True
    then show ?thesis using assms(2) unfolding run by (subst fold_run(1)) simp
  next
    case False
    then show ?thesis using fold_run(2) [OF False] unfolding run by blast
  qed
qed

lemma rerender_fields [simp]:
  "tmode (rerender old tp) = tmode tp" "tstorage (rerender old tp) = tstorage tp"
  "light_query (rerender old tp) = light_query tp" "systemThemes (rerender old tp) = systemThemes tp"
  "page_theme (rerender old tp) = page_theme tp"
  by (simp_all add: rerender_def page_theme_def)

text \<open>
  A render keeps the invariant when the copies stay right and, where the theme did not change, a component that was there
  before has kept the document right.
\<close>

lemma rerender_ok:
  assumes "theme_ok old" "\<forall>(i, sys) \<in> set (systemThemes tp). sys = readSystemTheme (light_query tp)" "tdoc tp = tdoc old"
    and "stored_mode_ok tp" "distinct (map fst (systemThemes tp))"
  shows "theme_ok (rerender old tp)"
proof -
  have "doc_shows (page_theme tp) (tdoc tp)"
    if same: "\<forall>i \<in> fst ` set (systemThemes tp). map_option (effectiveTheme (tmode old)) (map_of (systemThemes old) i) =
      Some (page_theme tp)" and ne: "systemThemes tp \<noteq> []"
  proof -
    obtain i sys xs where "systemThemes tp = (i, sys) # xs" using ne by (cases "systemThemes tp") auto
    then obtain sys' where sys': "map_of (systemThemes old) i = Some sys'" "effectiveTheme (tmode old) sys' = page_theme tp"
      using same by auto
    then have "(i, sys') \<in> set (systemThemes old)" by (simp add: map_of_SomeD)
    then have "sys' = readSystemTheme (light_query old)" "systemThemes old \<noteq> []"
      using assms(1) by (auto simp: theme_ok_def)
    then show ?thesis using sys'(2) assms(1,3) by (simp add: theme_ok_def page_theme_def)
  qed
  then show ?thesis
    using rerender_shows [OF assms(2), of old] assms(2,4,5) by (simp add: theme_ok_def stored_mode_ok_def)
qed

lemma update_mem: "p \<in> set (AList.update k v xs) \<Longrightarrow> p = (k, v) \<or> p \<in> set xs"
  by (induction xs) (auto split: if_splits)

lemma in_set_deleteD: "p \<in> set (AList.delete k xs) \<Longrightarrow> p \<in> set xs"
  by (simp add: AList.delete_eq)

lemma stored_after_set: "stored_mode_ok (tp\<lparr>tmode := md, tstorage := saveMode md st\<rparr>)"
  by (cases st; cases md)
    (auto simp: stored_mode_ok_def saveMode_def loadMode_def read_mode_def)

interpretation themed: invariant_system fresh_themed_page theme_step theme_ok
proof
  show "fresh_themed_page s \<Longrightarrow> theme_ok s" for s
    by (simp add: fresh_themed_page_def theme_ok_def stored_mode_ok_def)
  show "theme_ok t" if "theme_step s t" "theme_ok s" for s t
    using that
  proof (induction rule: theme_step.induct)
    case (mount i tp)
    then show ?case
      unfolding mount_hook_def
      by (intro rerender_ok) (auto simp: theme_ok_def stored_mode_ok_def distinct_update dest!: update_mem)
  next
    case (unmount i tp)
    then show ?case
      by (auto simp: unmount_hook_def theme_ok_def stored_mode_ok_def page_theme_def distinct_delete
          dest: in_set_deleteD)
  next
    case (system tp b)
    show ?case
    proof (cases "light_query tp")
      case (Some y)
      let ?tp = "tp\<lparr>light_query := Some b, systemThemes := map (\<lambda>(i, _). (i, if b then LightTheme else DarkTheme)) (systemThemes tp)\<rparr>"
      have "theme_ok (rerender tp ?tp)"
        by (rule rerender_ok [OF system])
          (use system in \<open>auto simp: theme_ok_def stored_mode_ok_def readSystemTheme_def comp_def split_def\<close>)
      then show ?thesis by (simp add: system_changed_def Some)
    qed (use system in \<open>simp add: system_changed_def\<close>)
  next
    case (set_mode md tp)
    then show ?case
      unfolding page_setMode_def setMode_def prod.case
      by (intro rerender_ok) (auto simp: theme_ok_def intro: stored_after_set)
  next
    case (cycle tp)
    then show ?case
      unfolding page_cycleMode_def cycleMode_def setMode_def prod.case
      by (intro rerender_ok) (auto simp: theme_ok_def intro: stored_after_set)
  qed
qed

section \<open>Polling and visibility\<close>

text \<open>
  The timer of \<open>App.tsx\<close>, every five seconds once the store is initialised: the workspace it asks the server about, if
  the page is visible. And the listener that clears the marks of what is visible when the page comes back.
\<close>

definition tick :: "document \<Rightarrow> world \<Rightarrow> string option" where
  "tick doc w = (if \<not> initialized (app w) then None else if doc = Visible then pollActive_call w else None)"

definition visibility_changed :: "document \<Rightarrow> world \<Rightarrow> world" where
  "visibility_changed doc w = (if doc \<noteq> Visible then w else clearWorkspaceVisibleUnread w)"

section \<open>An example\<close>

text \<open>A page on a light system: a component, the dark mode, another component, the cycle back to the system's theme.\<close>

definition ex_fresh_theme :: themed_page where
  "ex_fresh_theme = \<lparr>tmode = SystemMode, tstorage = Working False [], light_query = Some True, systemThemes = [],
     tdoc = \<lparr>colorScheme = None, dataTheme = None, metas = [(''viewport'', ''width=device-width''), (''theme-color'', ''#0d1117'')]\<rparr>\<rparr>"

definition ex_themed :: themed_page where
  "ex_themed = page_cycleMode (mount_hook ''Sidebar'' (page_setMode DarkMode (mount_hook ''App'' ex_fresh_theme)))"

lemma ex_themed_reachable: "reachable_from fresh_themed_page theme_step ex_themed"
proof -
  have "reachable_from fresh_themed_page theme_step ex_fresh_theme"
    by (rule reachable_start) (simp add: fresh_themed_page_def ex_fresh_theme_def loadMode_def read_mode_def)
  then have "reachable_from fresh_themed_page theme_step (mount_hook ''App'' ex_fresh_theme)"
    by (rule reachable_step) (rule theme_step.mount, simp add: has_key_def ex_fresh_theme_def)
  then have "reachable_from fresh_themed_page theme_step (page_setMode DarkMode (mount_hook ''App'' ex_fresh_theme))"
    by (rule reachable_step) (rule theme_step.set_mode)
  then have "reachable_from fresh_themed_page theme_step (mount_hook ''Sidebar'' (page_setMode DarkMode (mount_hook ''App'' ex_fresh_theme)))"
    by (rule reachable_step)
      (rule theme_step.mount, simp add: has_key_def ex_fresh_theme_def page_setMode_def setMode_def mount_hook_def)
  then show ?thesis unfolding ex_themed_def by (rule reachable_step) (rule theme_step.cycle)
qed

lemma ex_themed_eq: "tmode ex_themed = SystemMode" "map fst (systemThemes ex_themed) = [''App'', ''Sidebar'']"
  "light_query ex_themed = Some True" "systemThemes ex_themed \<noteq> []"
  by (simp_all add: ex_themed_def ex_fresh_theme_def page_cycleMode_def cycleMode_def nextThemeMode_def mount_hook_def
      page_setMode_def setMode_def)

end
