(* ===== verification/LockTiming.thy ===== *)
theory LockTiming
  imports LockProgress
begin

text \<open>
  The windows of \<open>frontend/src/lib/sessionLock.ts\<close> in time: when they beat, how long a message is under way, and
  why the timeout of three beats drops no window that is still there. With it the assumption of \<open>lock_step\<close>
  on heartbeats is a theorem.
\<close>

section \<open>Windows and a clock\<close>

text \<open>
  \<open>beaten\<close> is when the interval of a window last fired (or was set), \<open>posted\<close> when the messages of its queue were sent,
  \<open>departed\<close> when a window went away. All windows belong to one browser and read one clock.
\<close>

record timed_locks =
  lsys :: lock_system
  clock :: int
  beaten :: "string \<Rightarrow> int"
  posted :: "string \<Rightarrow> int list"
  departed :: "string \<Rightarrow> int option"

definition stamp :: "string \<Rightarrow> lock_msg list \<Rightarrow> timed_locks \<Rightarrow> timed_locks" where
  "stamp w msgs ts = ts\<lparr>posted := (\<lambda>u. if u \<noteq> w \<and> windows (lsys ts) u \<noteq> None
     then posted ts u @ replicate (length msgs) (clock ts) else posted ts u)\<rparr>"

definition run_timed :: "string \<Rightarrow> lock_effect \<Rightarrow> timed_locks \<Rightarrow> timed_locks" where
  "run_timed w e ts = (stamp w (fst (snd e)) ts)\<lparr>lsys := run_window w e (lsys ts)\<rparr>"

definition leave :: "string \<Rightarrow> lock_msg list \<Rightarrow> timed_locks \<Rightarrow> timed_locks" where
  "leave w msgs ts = (stamp w msgs ts)\<lparr>lsys := broadcast w msgs ((lsys ts)\<lparr>windows := (windows (lsys ts))(w := None)\<rparr>),
     departed := (departed ts)(w \<mapsto> clock ts)\<rparr>"

text \<open>
  Time passes only as far as every open window has beaten within \<open>lag\<close> and every message has arrived within \<open>delay\<close>.
  A heartbeat now drops whatever the code drops.
\<close>

inductive timed_step :: "int \<Rightarrow> int \<Rightarrow> timed_locks \<Rightarrow> timed_locks \<Rightarrow> bool" for lag delay where
  opens: "new_window (lsys ts) w \<Longrightarrow> departed ts w = None \<Longrightarrow>
     initSessionLock foreground True (clock ts) (fresh_lock w) = (lk, msgs) \<Longrightarrow>
     timed_step lag delay ts (run_timed w (lk, msgs, False) (ts\<lparr>
       lsys := (lsys ts)\<lparr>inboxes := (inboxes (lsys ts))(w := [])\<rparr>,
       posted := (posted ts)(w := []), beaten := (beaten ts)(w := clock ts)\<rparr>))"
| acts: "windows (lsys ts) w = Some lk \<Longrightarrow>
     e = claimSession sid lk \<or> e = releaseSession sid lk \<or> e = takeFocus (clock ts) lk \<Longrightarrow>
     timed_step lag delay ts (run_timed w e ts)"
| receives: "windows (lsys ts) w = Some lk \<Longrightarrow> inboxes (lsys ts) w = m # ms \<Longrightarrow>
     timed_step lag delay ts (run_timed w (onmessage (clock ts) m lk) (ts\<lparr>
       lsys := (lsys ts)\<lparr>inboxes := (inboxes (lsys ts))(w := ms)\<rparr>, posted := (posted ts)(w := tl (posted ts w))\<rparr>))"
| beats: "windows (lsys ts) w = Some lk \<Longrightarrow>
     timed_step lag delay ts (run_timed w (heartbeat (clock ts) lk) (ts\<lparr>beaten := (beaten ts)(w := clock ts)\<rparr>))"
| closes: "windows (lsys ts) w = Some lk \<Longrightarrow> timed_step lag delay ts (leave w (onPageHide lk) ts)"
| crashes: "windows (lsys ts) w = Some lk \<Longrightarrow> timed_step lag delay ts (leave w [] ts)"
| waits: "clock ts \<le> now \<Longrightarrow>
     (\<And>w. windows (lsys ts) w \<noteq> None \<Longrightarrow> now \<le> beaten ts w + lag \<and> (\<forall>p \<in> set (posted ts w). now \<le> p + delay)) \<Longrightarrow>
     timed_step lag delay ts (ts\<lparr>clock := now\<rparr>)"

definition no_timed :: "timed_locks \<Rightarrow> bool" where
  "no_timed ts \<longleftrightarrow> no_windows (lsys ts) \<and> departed ts = Map.empty"

section \<open>What a window has heard of another\<close>

text \<open>When \<open>w\<close> last heard of \<open>v\<close>, then when the presences still under way were posted.\<close>

definition under_way :: "string \<Rightarrow> (lock_msg \<times> int) list \<Rightarrow> int list" where
  "under_way v mail = map snd (filter (\<lambda>(m, t). \<not> is_bye m \<and> msg_sender m = v) mail)"

definition heard :: "lock \<Rightarrow> (lock_msg \<times> int) list \<Rightarrow> string \<Rightarrow> int list" where
  "heard lk mail v = (case map_of (lock_peers lk) v of None \<Rightarrow> [] | Some p \<Rightarrow> [lastSeen p]) @ under_way v mail"

fun gaps :: "int \<Rightarrow> int \<Rightarrow> int list \<Rightarrow> bool" where
  "gaps lag b [] = True"
| "gaps lag b [t] = (b \<le> t)"
| "gaps lag b (t # u # us) = (u \<le> t + lag \<and> gaps lag b (u # us))"

lemma gaps_append: "gaps lag b ts \<Longrightarrow> now \<le> b + lag \<Longrightarrow> b' \<le> now \<Longrightarrow> gaps lag b' (ts @ [now])"
  by (induction lag b ts rule: gaps.induct) auto

lemma gaps_tl: "gaps lag b (t # ts) \<Longrightarrow> gaps lag b ts"
  by (cases ts) auto

lemma gaps_later: "gaps lag b (t # ts) \<Longrightarrow> t \<le> t' \<Longrightarrow> gaps lag b (t' # ts)"
  by (cases ts) auto

lemma gaps_head:
  assumes "gaps lag b (t # ts)" "\<forall>u \<in> set ts. now \<le> u + delay" "now \<le> b + lag" "0 \<le> delay"
  shows "now - (lag + delay) \<le> t"
  using assms by (cases ts) auto

lemma under_way_simps [simp]:
  "under_way v [] = []"
  "under_way v ((Presence i f ss, t) # mail) = (if i = v then [t] else []) @ under_way v mail"
  "under_way v ((Bye i, t) # mail) = under_way v mail"
  "under_way v (xs @ ys) = under_way v xs @ under_way v ys"
  by (auto simp: under_way_def)

lemma set_under_way: "set (under_way v mail) \<subseteq> snd ` set mail"
  by (auto simp: under_way_def)

abbreviation mail :: "timed_locks \<Rightarrow> string \<Rightarrow> (lock_msg \<times> int) list" where
  "mail ts w \<equiv> zip (inboxes (lsys ts) w) (posted ts w)"

section \<open>The invariant\<close>

text \<open>What holds of one window: its queue and its timer are on time, its records are not older than its last beat allows.\<close>

definition punctual :: "int \<Rightarrow> int \<Rightarrow> timed_locks \<Rightarrow> string \<Rightarrow> lock \<Rightarrow> bool" where
  "punctual lag delay ts w lk \<longleftrightarrow>
     length (posted ts w) = length (inboxes (lsys ts) w) \<and>
     (\<forall>p \<in> set (posted ts w). p \<le> clock ts \<and> clock ts \<le> p + delay) \<and>
     beaten ts w \<le> clock ts \<and> clock ts \<le> beaten ts w + lag \<and>
     (\<forall>v p. map_of (lock_peers lk) v = Some p \<longrightarrow> lastSeen p \<le> clock ts \<and> beaten ts w - STALE_MS \<le> lastSeen p)"

text \<open>What \<open>w\<close> keeps of a window \<open>v\<close> that is gone: no record or message from after it left.\<close>

definition past :: "int \<Rightarrow> timed_locks \<Rightarrow> string \<Rightarrow> lock \<Rightarrow> string \<Rightarrow> bool" where
  "past delay ts w lk v \<longleftrightarrow>
     (\<forall>p. map_of (lock_peers lk) v = Some p \<longrightarrow> (\<exists>t. departed ts v = Some t \<and> lastSeen p \<le> t + delay)) \<and>
     (\<forall>(m, q) \<in> set (mail ts w). msg_sender m = v \<longrightarrow> (\<exists>t. departed ts v = Some t \<and> q \<le> t))"

definition timed_ok :: "int \<Rightarrow> int \<Rightarrow> timed_locks \<Rightarrow> bool" where
  "timed_ok lag delay ts \<longleftrightarrow>
     (\<forall>w lk. windows (lsys ts) w = Some lk \<longrightarrow> punctual lag delay ts w lk \<and> departed ts w = None) \<and>
     (\<forall>w lk v. windows (lsys ts) w = Some lk \<longrightarrow>
        (if windows (lsys ts) v = None then past delay ts w lk v
         else w \<noteq> v \<longrightarrow> gaps lag (beaten ts v) (heard lk (mail ts w) v)))"

lemma timed_okD:
  assumes "timed_ok lag delay ts" "windows (lsys ts) w = Some lk"
  shows "punctual lag delay ts w lk" "departed ts w = None"
    "windows (lsys ts) v = None \<Longrightarrow> past delay ts w lk v"
    "windows (lsys ts) v = Some lkv \<Longrightarrow> w \<noteq> v \<Longrightarrow> gaps lag (beaten ts v) (heard lk (mail ts w) v)"
  using assms unfolding timed_ok_def by (auto split: if_splits)

text \<open>The heart of the matter: a window that is open is never stale for another.\<close>

lemma open_not_stale:
  assumes "timed_ok lag delay ts" "lag + delay \<le> STALE_MS" "0 \<le> delay"
    and "lock_ok w lk" "windows (lsys ts) w = Some lk" "windows (lsys ts) v = Some lkv"
  shows "v \<notin> set (stale_peers (clock ts) lk)"
proof
  assume "v \<in> set (stale_peers (clock ts) lk)"
  then obtain p where p: "(v, p) \<in> set (lock_peers lk)" "lastSeen p < clock ts - STALE_MS"
    by (auto simp: stale_peers_def)
  then have m: "map_of (lock_peers lk) v = Some p" and "w \<noteq> v"
    using assms(4) by (auto simp: lock_ok_def has_key_def)
  have "gaps lag (beaten ts v) (lastSeen p # under_way v (mail ts w))"
    using timed_okD(4) [OF assms(1,5,6) \<open>w \<noteq> v\<close>] m by (simp add: heard_def)
  moreover have "\<forall>u \<in> set (under_way v (mail ts w)). clock ts \<le> u + delay"
    using timed_okD(1) [OF assms(1,5)] set_under_way [of v "mail ts w"]
    by (force simp: punctual_def dest: set_zip_rightD)
  moreover have "clock ts \<le> beaten ts v + lag"
    using timed_okD(1) [OF assms(1,6)] by (simp add: punctual_def)
  ultimately have "clock ts - (lag + delay) \<le> lastSeen p" using gaps_head assms(3) by blast
  then show False using p(2) assms(2) by linarith
qed

section \<open>Every step keeps the time\<close>

definition at_window :: "string \<Rightarrow> lock_msg list \<Rightarrow> int list \<Rightarrow> int \<Rightarrow> timed_locks \<Rightarrow> timed_locks" where
  "at_window w ms ps b ts = ts\<lparr>lsys := (lsys ts)\<lparr>inboxes := (inboxes (lsys ts))(w := ms)\<rparr>,
     posted := (posted ts)(w := ps), beaten := (beaten ts)(w := b)\<rparr>"

lemma run_fields:
  "windows (lsys (run_timed w e (at_window w ms ps b ts))) = (windows (lsys ts))(w \<mapsto> fst e)"
  "clock (run_timed w e (at_window w ms ps b ts)) = clock ts"
  "departed (run_timed w e (at_window w ms ps b ts)) = departed ts"
  "beaten (run_timed w e (at_window w ms ps b ts)) = (beaten ts)(w := b)"
  "posted (run_timed w e (at_window w ms ps b ts)) u = (if u = w then ps else if windows (lsys ts) u \<noteq> None
     then posted ts u @ replicate (length (fst (snd e))) (clock ts) else posted ts u)"
  "inboxes (lsys (run_timed w e (at_window w ms ps b ts))) u = (if u = w then ms else if windows (lsys ts) u \<noteq> None
     then inboxes (lsys ts) u @ fst (snd e) else inboxes (lsys ts) u)"
  by (simp_all add: run_timed_def at_window_def stamp_def run_window_def broadcast_def)

lemma at_fields:
  "windows (lsys (at_window w ms ps b ts)) = windows (lsys ts)" "clock (at_window w ms ps b ts) = clock ts"
  "departed (at_window w ms ps b ts) = departed ts" "beaten (at_window w ms ps b ts) w = b"
  "posted (at_window w ms ps b ts) w = ps" "inboxes (lsys (at_window w ms ps b ts)) w = ms"
  by (simp_all add: at_window_def)

lemma zip_stamp: "zip ms (replicate (length ms) t) = map (\<lambda>m. (m, t)) ms"
  by (induction ms) auto

lemma timed_update:
  assumes ok: "timed_ok lag delay ts" and dep: "departed ts w = None"
    and mine: "punctual lag delay (at_window w ms ps b ts) w (fst e)"
    and gone: "\<And>v. v \<noteq> w \<Longrightarrow> windows (lsys ts) v = None \<Longrightarrow> past delay (at_window w ms ps b ts) w (fst e) v"
    and to_me: "\<And>v lkv. v \<noteq> w \<Longrightarrow> windows (lsys ts) v = Some lkv \<Longrightarrow> gaps lag (beaten ts v) (heard (fst e) (zip ms ps) v)"
    and from_me: "\<And>u lku. u \<noteq> w \<Longrightarrow> windows (lsys ts) u = Some lku \<Longrightarrow>
      gaps lag b (heard lku (mail ts u @ map (\<lambda>m. (m, clock ts)) (fst (snd e))) w)"
    and sender: "\<And>m. m \<in> set (fst (snd e)) \<Longrightarrow> msg_sender m = w"
    and delay: "0 \<le> delay"
  shows "timed_ok lag delay (run_timed w e (at_window w ms ps b ts))" (is "timed_ok lag delay ?t")
proof -
  have mail_w: "mail ?t w = zip ms ps" by (simp add: run_fields)
  have mail_u: "mail ?t u = mail ts u @ map (\<lambda>m. (m, clock ts)) (fst (snd e))"
    if "u \<noteq> w" "windows (lsys ts) u = Some lku" for u lku
    using that timed_okD(1) [OF ok that(2)] by (simp add: run_fields punctual_def zip_stamp)
  have mute: "under_way v (map (\<lambda>m. (m, clock ts)) (fst (snd e))) = []" if "v \<noteq> w" for v
    using that sender by (auto simp: under_way_def filter_empty_conv)
  have one: "punctual lag delay ?t u lku \<and> departed ts u = None" if u: "windows (lsys ?t) u = Some lku" for u lku
  proof (cases "u = w")
    case True
    then show ?thesis using mine u dep by (simp add: punctual_def run_fields at_fields)
  next
    case False
    then have old: "windows (lsys ts) u = Some lku" using u by (simp add: run_fields)
    then show ?thesis
      using timed_okD(1,2) [OF ok old] False delay by (auto simp: punctual_def run_fields)
  qed
  have gone': "past delay ?t u lku v" if u: "windows (lsys ?t) u = Some lku" and v: "windows (lsys ?t) v = None" for u lku v
  proof -
    have v': "v \<noteq> w" "windows (lsys ts) v = None" using v by (auto simp: run_fields split: if_splits)
    show ?thesis
    proof (cases "u = w")
      case True
      then have "lku = fst e" using u by (simp add: run_fields)
      then show ?thesis using gone [OF v'] True mail_w by (simp add: past_def run_fields at_fields)
    next
      case False
      then have old: "windows (lsys ts) u = Some lku" using u by (simp add: run_fields)
      show ?thesis
        using timed_okD(3) [OF ok old v'(2)] sender v'(1) unfolding past_def mail_u [OF False old]
        by (auto simp: run_fields(3))
    qed
  qed
  have link: "gaps lag (beaten ?t v) (heard lku (mail ?t u) v)"
    if u: "windows (lsys ?t) u = Some lku" and v: "windows (lsys ?t) v = Some lkv" and "u \<noteq> v" for u lku v lkv
  proof (cases "u = w")
    case True
    then show ?thesis using to_me [of v lkv] u v \<open>u \<noteq> v\<close> unfolding True mail_w by (simp add: run_fields)
  next
    case False
    then have old: "windows (lsys ts) u = Some lku" using u by (simp add: run_fields)
    show ?thesis
    proof (cases "v = w")
      case True
      then show ?thesis using from_me [OF False old] unfolding mail_u [OF False old] by (simp add: run_fields)
    next
      case other: False
      then have "windows (lsys ts) v = Some lkv" using v by (simp add: run_fields)
      then show ?thesis
        using timed_okD(4) [OF ok old _ \<open>u \<noteq> v\<close>] other
        unfolding mail_u [OF False old] by (simp add: run_fields heard_def mute)
    qed
  qed
  show ?thesis
    unfolding timed_ok_def using one gone' link by (auto simp: run_fields(3))
qed

text \<open>A step of a window that is open: it posts nothing, or its presence.\<close>

lemma timed_local:
  assumes ok: "timed_ok lag delay ts" and w: "windows (lsys ts) w = Some lk" and ann: "announced w lk e"
    and mine: "punctual lag delay (at_window w ms ps b ts) w (fst e)"
    and gone: "\<And>v. v \<noteq> w \<Longrightarrow> windows (lsys ts) v = None \<Longrightarrow> past delay (at_window w ms ps b ts) w (fst e) v"
    and to_me: "\<And>v lkv. v \<noteq> w \<Longrightarrow> windows (lsys ts) v = Some lkv \<Longrightarrow> gaps lag (beaten ts v) (heard (fst e) (zip ms ps) v)"
    and b: "b = beaten ts w \<or> b = clock ts \<and> fst (snd e) \<noteq> []"
    and delay: "0 \<le> delay"
  shows "timed_ok lag delay (run_timed w e (at_window w ms ps b ts))"
proof (rule timed_update [OF ok timed_okD(2) [OF ok w] mine gone to_me])
  show "gaps lag b (heard lku (mail ts u @ map (\<lambda>m. (m, clock ts)) (fst (snd e))) w)"
    if u: "u \<noteq> w" "windows (lsys ts) u = Some lku" for u lku
  proof -
    have old: "gaps lag (beaten ts w) (heard lku (mail ts u) w)" using timed_okD(4) [OF ok u(2) w u(1)] .
    have time: "beaten ts w \<le> clock ts" "clock ts \<le> beaten ts w + lag"
      using timed_okD(1) [OF ok w] by (auto simp: punctual_def)
    show ?thesis
    proof (cases "fst (snd e) = []")
      case True
      then show ?thesis using old b by simp
    next
      case False
      then have "fst (snd e) = [Presence w (focusTs (fst e)) (claimed (fst e))]" using ann by (auto simp: announced_def)
      then have "heard lku (mail ts u @ map (\<lambda>m. (m, clock ts)) (fst (snd e))) w = heard lku (mail ts u) w @ [clock ts]"
        by (simp add: heard_def)
      moreover have "b \<le> clock ts" using b time by auto
      ultimately show ?thesis using gaps_append [OF old time(2)] by simp
    qed
  qed
  show "msg_sender m = w" if "m \<in> set (fst (snd e))" for m using that ann by (auto simp: announced_def)
qed (use delay in auto)

lemma at_same [simp]: "at_window w (inboxes (lsys ts) w) (posted ts w) (beaten ts w) ts = ts"
  by (simp add: at_window_def)

lemma timed_acts:
  assumes "timed_ok lag delay ts" "windows (lsys ts) w = Some lk" "announced w lk e" "0 \<le> delay"
    and "lock_peers (fst e) = lock_peers lk"
  shows "timed_ok lag delay (run_timed w e ts)"
proof -
  note old = timed_okD [OF assms(1,2)]
  have "timed_ok lag delay (run_timed w e (at_window w (inboxes (lsys ts) w) (posted ts w) (beaten ts w) ts))"
  proof (rule timed_local [OF assms(1-3)])
    show "punctual lag delay (at_window w (inboxes (lsys ts) w) (posted ts w) (beaten ts w) ts) w (fst e)"
      using old(1) by (simp add: punctual_def assms(5))
    show "past delay (at_window w (inboxes (lsys ts) w) (posted ts w) (beaten ts w) ts) w (fst e) v"
      if "windows (lsys ts) v = None" for v using old(3) [OF that] by (simp add: past_def assms(5))
    show "gaps lag (beaten ts v) (heard (fst e) (mail ts w) v)" if "v \<noteq> w" "windows (lsys ts) v = Some lkv" for v lkv
      using old(4) [OF that(2)] that(1) by (simp add: heard_def assms(5))
  qed (use assms(4) in simp_all)
  then show ?thesis by simp
qed

lemma timed_beats:
  assumes ok: "timed_ok lag delay ts" and w: "windows (lsys ts) w = Some lk" and lk: "lock_ok w lk"
    and bounds: "0 \<le> delay" "0 \<le> lag" "lag + delay \<le> STALE_MS"
  shows "timed_ok lag delay (run_timed w (heartbeat (clock ts) lk) (ts\<lparr>beaten := (beaten ts)(w := clock ts)\<rparr>))"
proof -
  note old = timed_okD [OF ok w]
  let ?e = "heartbeat (clock ts) lk"
  have peers: "map_of (lock_peers (fst ?e)) v =
      (if v \<in> set (stale_peers (clock ts) lk) then None else map_of (lock_peers lk) v)" for v
    by (simp add: peers_ops(4) [OF lk])
  have recent: "clock ts - STALE_MS \<le> lastSeen p" if "map_of (lock_peers (fst ?e)) v = Some p" for v p
    using that map_of_SomeD [of "lock_peers lk" v p] by (force simp: peers stale_peers_def split: if_splits)
  have "timed_ok lag delay (run_timed w ?e (at_window w (inboxes (lsys ts) w) (posted ts w) (clock ts) ts))"
  proof (rule timed_local [OF ok w announced_ops(5) [OF lk]])
    show "punctual lag delay (at_window w (inboxes (lsys ts) w) (posted ts w) (clock ts) ts) w (fst ?e)"
      using old(1) recent bounds by (auto simp: punctual_def at_fields peers split: if_splits)
    show "past delay (at_window w (inboxes (lsys ts) w) (posted ts w) (clock ts) ts) w (fst ?e) v"
      if "windows (lsys ts) v = None" for v
      using old(3) [OF that] by (auto simp: past_def at_fields peers)
    show "gaps lag (beaten ts v) (heard (fst ?e) (mail ts w) v)" if "v \<noteq> w" "windows (lsys ts) v = Some lkv" for v lkv
      using old(4) [OF that(2)] open_not_stale [OF ok bounds(3,1) lk w that(2)] that(1) by (simp add: heard_def peers)
    have "fst (snd ?e) \<noteq> []"
      using lk by (simp add: heartbeat_def Let_def case_prod_beta postPresence_def lock_ok_def)
    then show "clock ts = beaten ts w \<or> clock ts = clock ts \<and> fst (snd ?e) \<noteq> []" by blast
  qed (use bounds in simp_all)
  then show ?thesis by (simp add: at_window_def)
qed

lemma timed_receives:
  assumes ok: "timed_ok lag delay ts" and sys: "sys_ok (lsys ts)" and w: "windows (lsys ts) w = Some lk"
    and box: "inboxes (lsys ts) w = m # ms" and delay: "0 \<le> delay"
  shows "timed_ok lag delay (run_timed w (onmessage (clock ts) m lk) (at_window w ms (tl (posted ts w)) (beaten ts w) ts))"
proof -
  note lk = sys_ok_lock [OF sys w]
  note old = timed_okD [OF ok w]
  let ?e = "onmessage (clock ts) m lk"
  obtain q ps where ps: "posted ts w = q # ps" using old(1) box by (cases "posted ts w") (auto simp: punctual_def)
  have q: "q \<le> clock ts" "clock ts \<le> q + delay" using old(1) ps by (auto simp: punctual_def)
  show ?thesis
    unfolding ps list.sel
  proof (rule timed_local [OF ok w announced_ops(4) [OF lk]])
    show "punctual lag delay (at_window w ms ps (beaten ts w) ts) w (fst ?e)"
      using old(1) ps box by (cases m) (auto simp: punctual_def at_fields peers_message [OF lk] STALE_MS_def split: if_splits)
    show "past delay (at_window w ms ps (beaten ts w) ts) w (fst ?e) v" if "v \<noteq> w" "windows (lsys ts) v = None" for v
    proof -
      have "\<exists>t. departed ts v = Some t \<and> q \<le> t" if "msg_sender m = v"
        using old(3) [OF \<open>windows (lsys ts) v = None\<close>] that ps box by (simp add: past_def)
      then show ?thesis
        using old(3) [OF that(2)] q ps box
        by (cases m) (fastforce simp: past_def at_fields peers_message [OF lk] split: if_splits)+
    qed
    show "gaps lag (beaten ts v) (heard (fst ?e) (zip ms ps) v)" if v: "v \<noteq> w" "windows (lsys ts) v = Some lkv" for v lkv
    proof -
      have "Bye v \<notin> set (m # ms)" using sys_ok_link [OF sys w v(2)] v(1) box by (simp add: link_ok_def)
      then have m: "m \<noteq> Bye v" by auto
      have g: "gaps lag (beaten ts v) (heard lk (zip (m # ms) (q # ps)) v)"
        using old(4) [OF v(2)] v(1) ps box by simp
      show ?thesis
      proof (cases "\<exists>f ss. m = Presence v f ss")
        case True
        then have "gaps lag (beaten ts v) (q # under_way v (zip ms ps))"
          using g gaps_tl by (auto simp: heard_def split: option.splits)
        then show ?thesis
          using gaps_later q(1) True v(1) by (auto simp: heard_def peers_message [OF lk])
      next
        case False
        then show ?thesis using g m by (cases m) (auto simp: heard_def peers_message [OF lk])
      qed
    qed
  qed (use delay in simp_all)
qed

lemma timed_opens:
  assumes ok: "timed_ok lag delay ts" and sys: "sys_ok (lsys ts)" and new: "new_window (lsys ts) w"
    and dep: "departed ts w = None" and lk: "initSessionLock foreground True (clock ts) (fresh_lock w) = (lk, msgs)"
    and bounds: "0 \<le> lag" "0 \<le> delay"
  shows "timed_ok lag delay (run_timed w (lk, msgs, False) (at_window w [] [] (clock ts) ts))"
proof (rule timed_update [OF ok dep])
  have l: "lock_peers lk = []" "msgs = [Presence w (focusTs lk) []]"
    using lk by (auto simp: initSessionLock_def fresh_lock_def postPresence_def)
  show "punctual lag delay (at_window w [] [] (clock ts) ts) w (fst (lk, msgs, False))"
    using bounds by (simp add: punctual_def at_fields l)
  show "past delay (at_window w [] [] (clock ts) ts) w (fst (lk, msgs, False)) v" for v
    by (simp add: past_def at_fields l)
  show "gaps lag (beaten ts v) (heard (fst (lk, msgs, False)) (zip [] []) v)" for v
    by (simp add: heard_def l)
  show "msg_sender m = w" if "m \<in> set (fst (snd (lk, msgs, False)))" for m using that by (simp add: l)
  show "gaps lag (clock ts) (heard lku (mail ts u @ map (\<lambda>m. (m, clock ts)) (fst (snd (lk, msgs, False)))) w)"
    if "windows (lsys ts) u = Some lku" for u lku
  proof -
    have "\<not> has_key w (lock_peers lku)" "\<forall>m \<in> set (inboxes (lsys ts) u). msg_sender m \<noteq> w"
      using new that by (auto simp: new_window_def)
    then have "map_of (lock_peers lku) w = None" "under_way w (mail ts u) = []"
      by (auto simp: has_key_def under_way_def filter_empty_conv dest: set_zip_leftD)
    then show ?thesis by (simp add: heard_def l)
  qed
qed (use bounds in simp)

lemma timed_leave:
  assumes ok: "timed_ok lag delay ts" and w: "windows (lsys ts) w = Some lk" and msgs: "msgs = [] \<or> msgs = [Bye w]"
    and delay: "0 \<le> delay"
  shows "timed_ok lag delay (leave w msgs ts)"
proof -
  let ?t = "leave w msgs ts"
  have wins: "windows (lsys ?t) = (windows (lsys ts))(w := None)" "departed ?t = (departed ts)(w \<mapsto> clock ts)"
    "clock ?t = clock ts" "beaten ?t = beaten ts"
    by (simp_all add: leave_def broadcast_def stamp_def)
  have mail: "mail ?t u = mail ts u @ map (\<lambda>m. (m, clock ts)) msgs" "posted ?t u = posted ts u @ replicate (length msgs) (clock ts)"
    "length (inboxes (lsys ?t) u) = length (inboxes (lsys ts) u) + length msgs"
    if "u \<noteq> w" "windows (lsys ts) u = Some lku" for u lku
    using that timed_okD(1) [OF ok that(2)]
    by (simp_all add: leave_def broadcast_def stamp_def punctual_def zip_stamp)
  have mute: "under_way v (map (\<lambda>m. (m, clock ts)) msgs) = []" for v using msgs by auto
  have one: "punctual lag delay ?t u lku \<and> departed ?t u = None" if u: "u \<noteq> w" "windows (lsys ts) u = Some lku" for u lku
    using timed_okD(1,2) [OF ok u(2)] u(1) delay by (auto simp: punctual_def wins mail [OF u])
  have gone: "past delay ?t u lku v" if u: "u \<noteq> w" "windows (lsys ts) u = Some lku" and v: "v = w \<or> windows (lsys ts) v = None" for u lku v
  proof (cases "v = w")
    case True
    have "lastSeen p \<le> clock ts + delay" if "map_of (lock_peers lku) w = Some p" for p
      using timed_okD(1) [OF ok u(2)] that delay by (force simp: punctual_def)
    moreover have "q \<le> clock ts" if "(m, q) \<in> set (mail ts u)" for m q
      using timed_okD(1) [OF ok u(2)] set_zip_rightD [OF that] by (simp add: punctual_def)
    ultimately show ?thesis unfolding past_def mail(1) [OF u] True by (auto simp: wins)
  next
    case False
    then show ?thesis
      using timed_okD(3) [OF ok u(2), of v] v msgs unfolding past_def mail(1) [OF u] by (auto simp: wins)
  qed
  have "gaps lag (beaten ?t v) (heard lku (mail ?t u) v)"
    if u: "u \<noteq> w" "windows (lsys ts) u = Some lku" and v: "windows (lsys ts) v = Some lkv" "u \<noteq> v" for u lku v lkv
    using timed_okD(4) [OF ok u(2) v] unfolding mail(1) [OF u] by (simp add: wins heard_def mute)
  with one gone show ?thesis unfolding timed_ok_def wins(1) by auto
qed

lemma timed_waits:
  assumes "timed_ok lag delay ts" "clock ts \<le> now"
    and "\<And>w. windows (lsys ts) w \<noteq> None \<Longrightarrow> now \<le> beaten ts w + lag \<and> (\<forall>p \<in> set (posted ts w). now \<le> p + delay)"
  shows "timed_ok lag delay (ts\<lparr>clock := now\<rparr>)"
proof -
  have "punctual lag delay (ts\<lparr>clock := now\<rparr>) w lk" if "windows (lsys ts) w = Some lk" for w lk
    using timed_okD(1) [OF assms(1) that] assms(2) assms(3) [of w] that by (force simp: punctual_def)
  moreover have "past delay (ts\<lparr>clock := now\<rparr>) w lk v = past delay ts w lk v" for w lk v by (simp add: past_def)
  ultimately show ?thesis using assms(1) unfolding timed_ok_def by simp
qed

lemma timed_ok_step:
  assumes "timed_step lag delay ts ts'" "timed_ok lag delay ts" "sys_ok (lsys ts)"
    and "0 \<le> lag" "0 \<le> delay" "lag + delay \<le> STALE_MS"
  shows "timed_ok lag delay ts'"
  using assms(1)
proof cases
  case (opens w foreground lk msgs)
  then show ?thesis using timed_opens [OF assms(2,3) opens(2,3,4) assms(4,5)] by (simp add: at_window_def)
next
  case (acts w lk e sid)
  note lk = sys_ok_lock [OF assms(3) acts(2)]
  have "announced w lk e" "lock_peers (fst e) = lock_peers lk"
    using acts(3) announced_ops(1-3) [OF lk] peers_ops(1-3) [OF lk] by auto
  then show ?thesis using timed_acts [OF assms(2) acts(2) _ assms(5)] acts(1) by simp
next
  case (receives w lk m ms)
  have "at_window w ms (tl (posted ts w)) (beaten ts w) ts =
      ts\<lparr>lsys := (lsys ts)\<lparr>inboxes := (inboxes (lsys ts))(w := ms)\<rparr>, posted := (posted ts)(w := tl (posted ts w))\<rparr>"
    by (simp add: at_window_def)
  then show ?thesis using timed_receives [OF assms(2,3) receives(2,3) assms(5)] receives(1) by simp
next
  case (beats w lk)
  then show ?thesis using timed_beats [OF assms(2) beats(2) sys_ok_lock [OF assms(3) beats(2)] assms(5,4,6)] by simp
next
  case (closes w lk)
  have "onPageHide lk = [Bye w]" using sys_ok_lock [OF assms(3) closes(2)] by (simp add: onPageHide_def lock_ok_def)
  then show ?thesis using timed_leave [OF assms(2) closes(2) _ assms(5)] closes(1) by simp
next
  case (crashes w lk)
  then show ?thesis using timed_leave [OF assms(2) crashes(2) _ assms(5)] by simp
next
  case (waits now)
  then show ?thesis using timed_waits [OF assms(2)] by simp
qed

lemma timed_view:
  assumes "timed_step lag delay ts ts'" "timed_ok lag delay ts" "sys_ok (lsys ts)"
    and "0 \<le> delay" "lag + delay \<le> STALE_MS"
  shows "lock_step (lsys ts) (lsys ts') \<or> lsys ts' = lsys ts"
  using assms(1)
proof cases
  case (opens w foreground lk msgs)
  then show ?thesis using lock_step.open_window [OF opens(2,4)] by (simp add: run_timed_def)
next
  case (acts w lk e sid)
  then show ?thesis
    using lock_step.claim [OF acts(2)] lock_step.release [OF acts(2)] lock_step.focus [OF acts(2)]
    by (auto simp: run_timed_def)
next
  case (receives w lk m ms)
  then show ?thesis using lock_step.deliver [OF receives(2,3)] by (simp add: run_timed_def)
next
  case (beats w lk)
  have "windows (lsys ts) i = None" if "i \<in> set (stale_peers (clock ts) lk)" for i
    using open_not_stale [OF assms(2,5,4) sys_ok_lock [OF assms(3) beats(2)] beats(2)] that
    by (cases "windows (lsys ts) i") auto
  then show ?thesis using lock_step.beat [OF beats(2)] beats(1) by (simp add: run_timed_def)
next
  case (closes w lk)
  then show ?thesis using lock_step.close [OF closes(2)] by (simp add: leave_def)
next
  case (crashes w lk)
  have "broadcast w [] sys = sys" for sys by (simp add: broadcast_def cong: if_cong)
  then show ?thesis using lock_step.crash [OF crashes(2)] crashes(1) by (simp add: leave_def)
next
  case (waits now)
  then show ?thesis by simp
qed

section \<open>The clocked windows refine the windows without a clock\<close>

text \<open>Three beats of two seconds cover a beat and the delivery of its message.\<close>

definition on_time :: "int \<Rightarrow> int \<Rightarrow> bool" where
  "on_time lag delay \<longleftrightarrow> 0 \<le> lag \<and> 0 \<le> delay \<and> lag + delay \<le> STALE_MS"

text \<open>Intervals that are late by \<open>slack\<close> and messages by \<open>delay\<close> are on time when both together stay below two beats.\<close>

lemma on_time_beats: "0 \<le> slack \<Longrightarrow> 0 \<le> delay \<Longrightarrow> slack + delay \<le> 4000 \<Longrightarrow> on_time (HEARTBEAT_MS + slack) delay"
  by (simp add: on_time_def HEARTBEAT_MS_def STALE_MS_def)

interpretation timed: refining_system no_windows lock_step sys_ok
  "\<lambda>ts. no_timed ts \<and> on_time lag delay" "timed_step lag delay" "\<lambda>ts. on_time lag delay \<and> timed_ok lag delay ts" lsys
  for lag delay
proof
  show "(on_time lag delay \<and> timed_ok lag delay ts) \<and> no_windows (lsys ts)" if "no_timed ts \<and> on_time lag delay" for ts
    using that by (auto simp: no_timed_def no_windows_def timed_ok_def)
  show "on_time lag delay \<and> timed_ok lag delay ts'"
    if "timed_step lag delay ts ts'" "on_time lag delay \<and> timed_ok lag delay ts" "sys_ok (lsys ts)" for ts ts'
    using timed_ok_step [OF that(1) _ that(3)] that(2) by (simp add: on_time_def)
  show "lock_step\<^sup>*\<^sup>* (lsys ts) (lsys ts') \<or> no_windows (lsys ts')"
    if "timed_step lag delay ts ts'" "on_time lag delay \<and> timed_ok lag delay ts" "sys_ok (lsys ts)" for ts ts'
    using step_or_stay [of lock_step, OF timed_view [OF that(1) _ that(3)]] that(2) by (auto simp: on_time_def)
qed

lemma reachable_timed:
  assumes "on_time lag delay" "reachable_from no_timed (timed_step lag delay) ts"
  shows "timed_ok lag delay ts" "reachable_windows (lsys ts)"
proof -
  have "reachable_from (\<lambda>ts. no_timed ts \<and> on_time lag delay) (timed_step lag delay) ts"
    using assms by (auto simp: reachable_from_def)
  from timed.conc.reachable_inv [OF this] show "timed_ok lag delay ts" "reachable_windows (lsys ts)"
    by (simp_all add: reachable_windows_def)
qed

lemma timed_open_not_stale:
  assumes "on_time lag delay" "reachable_from no_timed (timed_step lag delay) ts"
    and "windows (lsys ts) w = Some lk" "windows (lsys ts) v = Some lkv"
  shows "v \<notin> set (stale_peers (clock ts) lk)"
  using open_not_stale [OF reachable_timed(1) [OF assms(1,2)] _ _ _ assms(3,4)] assms(1)
    sys_ok_lock [OF reachable_sys_ok [OF reachable_timed(2) [OF assms(1,2)]] assms(3)]
  by (simp add: on_time_def)

section \<open>A window that is gone is forgotten\<close>

lemma gone_forgotten:
  assumes ok: "timed_ok lag delay ts" and w: "windows (lsys ts) w = Some lk" and v: "windows (lsys ts) v = None"
    and past: "\<And>t. departed ts v = Some t \<Longrightarrow> t + delay + lag + STALE_MS < clock ts"
    and bounds: "0 \<le> lag" "0 \<le> delay"
  shows "\<not> has_key v (lock_peers lk)" "m \<in> set (inboxes (lsys ts) w) \<Longrightarrow> msg_sender m \<noteq> v"
proof -
  note p = timed_okD(1) [OF ok w] and g = timed_okD(3) [OF ok w v]
  have "map_of (lock_peers lk) v = None"
  proof (rule ccontr)
    assume "map_of (lock_peers lk) v \<noteq> None"
    then obtain r where r: "map_of (lock_peers lk) v = Some r" by blast
    then obtain t where "departed ts v = Some t" "lastSeen r \<le> t + delay" using g by (auto simp: past_def)
    moreover have "beaten ts w - STALE_MS \<le> lastSeen r" "clock ts \<le> beaten ts w + lag"
      using p r by (auto simp: punctual_def)
    ultimately show False using past [of t] by linarith
  qed
  then show "\<not> has_key v (lock_peers lk)" by (simp add: has_key_def)
  show "msg_sender m \<noteq> v" if m: "m \<in> set (inboxes (lsys ts) w)"
  proof
    assume sender: "msg_sender m = v"
    have "length (inboxes (lsys ts) w) = length (posted ts w)" using p by (simp add: punctual_def)
    then obtain q where q: "(m, q) \<in> set (mail ts w)" using in_set_impl_in_set_zip1 m by metis
    then obtain t where "departed ts v = Some t" "q \<le> t" using g sender by (auto simp: past_def)
    moreover have "clock ts \<le> q + delay" using p set_zip_rightD [OF q] by (simp add: punctual_def)
    ultimately show False using past [of t] bounds by (simp add: STALE_MS_def)
  qed
qed

lemma all_alive_in_time:
  assumes "on_time lag delay" "reachable_from no_timed (timed_step lag delay) ts"
    and "\<And>v t. departed ts v = Some t \<Longrightarrow> t + delay + lag + STALE_MS < clock ts"
  shows "all_alive (lsys ts)"
proof -
  have bounds: "0 \<le> lag" "0 \<le> delay" using assms(1) by (simp_all add: on_time_def)
  note forgotten = gone_forgotten [OF reachable_timed(1) [OF assms(1,2)] _ _ assms(3) bounds]
  show ?thesis
    unfolding all_alive_def
  proof (intro allI impI conjI ballI)
    fix w lk i
    assume w: "windows (lsys ts) w = Some lk"
    show "windows (lsys ts) i \<noteq> None" if "has_key i (lock_peers lk)"
    proof
      assume "windows (lsys ts) i = None"
      from forgotten(1) [OF w this] that show False by simp
    qed
    show "windows (lsys ts) (msg_sender m) \<noteq> None" if "m \<in> set (inboxes (lsys ts) w)" for m
    proof
      assume "windows (lsys ts) (msg_sender m) = None"
      from forgotten(2) [OF w this _ that] show False by simp
    qed
  qed
qed

section \<open>Time does not stop\<close>

inductive timed_receive :: "timed_locks \<Rightarrow> timed_locks \<Rightarrow> bool" where
  "windows (lsys ts) w = Some lk \<Longrightarrow> inboxes (lsys ts) w = m # ms \<Longrightarrow>
     timed_receive ts (run_timed w (onmessage (clock ts) m lk) (ts\<lparr>
       lsys := (lsys ts)\<lparr>inboxes := (inboxes (lsys ts))(w := ms)\<rparr>, posted := (posted ts)(w := tl (posted ts w))\<rparr>))"

inductive_cases timed_receiveE: "timed_receive ts ts'"

lemma receive_kinds:
  assumes "timed_receive ts ts'"
  shows "timed_step lag delay ts ts'" "deliver_step (lsys ts) (lsys ts')" "clock ts' = clock ts"
    "dom (windows (lsys ts')) = dom (windows (lsys ts))"
proof -
  from assms obtain w lk m ms where
    1: "ts' = run_timed w (onmessage (clock ts) m lk) (ts\<lparr>lsys := (lsys ts)\<lparr>inboxes := (inboxes (lsys ts))(w := ms)\<rparr>,
        posted := (posted ts)(w := tl (posted ts w))\<rparr>)"
      "windows (lsys ts) w = Some lk" "inboxes (lsys ts) w = m # ms"
    by (rule timed_receiveE)
  show "timed_step lag delay ts ts'" unfolding 1(1) by (rule timed_step.receives [OF 1(2,3)])
  show "deliver_step (lsys ts) (lsys ts')" using deliver_step.intros [OF 1(2,3)] 1(1) by (simp add: run_timed_def)
  show "clock ts' = clock ts" by (simp add: 1(1) run_timed_def stamp_def)
  show "dom (windows (lsys ts')) = dom (windows (lsys ts))"
    using 1(2) unfolding 1(1) by (auto simp: run_timed_def run_window_def broadcast_def)
qed

interpretation receiving: terminating_system timed_receive "\<lambda>ts. delivery_ok ids (lsys ts)"
  "inv_image (measures [byes, strangers ids, messages]) lsys" for ids
proof
  show "wf (inv_image (measures [byes, strangers ids, messages]) lsys)" by simp
  show "(ts', ts) \<in> inv_image (measures [byes, strangers ids, messages]) lsys" "delivery_ok ids (lsys ts')"
    if "delivery_ok ids (lsys ts)" "timed_receive ts ts'" for ts ts'
    using deliver_less [OF that(1) receive_kinds(2) [OF that(2)]] delivery_ok_step [OF that(1) receive_kinds(2) [OF that(2)]]
    by (simp_all only: in_inv_image)
qed

lemma undelivered_receive:
  assumes "\<not> delivered (lsys ts)"
  shows "\<exists>ts'. timed_receive ts ts'"
proof -
  obtain w lk where "windows (lsys ts) w = Some lk" "inboxes (lsys ts) w \<noteq> []" using assms by (auto simp: delivered_def)
  then show ?thesis by (cases "inboxes (lsys ts) w") (auto intro: timed_receive.intros)
qed

lemma receives_run:
  assumes "timed_receive\<^sup>*\<^sup>* ts ts'"
  shows "(timed_step lag delay)\<^sup>*\<^sup>* ts ts'" "clock ts' = clock ts" "dom (windows (lsys ts')) = dom (windows (lsys ts))"
  using assms by (induction rule: rtranclp_induct) (auto simp: receive_kinds(3,4) intro: rtranclp.rtrancl_into_rtrancl receive_kinds(1))

text \<open>First what is under way arrives, then every window beats.\<close>

lemma all_received:
  assumes "reachable_windows (lsys ts)"
  shows "\<exists>ts'. (timed_step lag delay)\<^sup>*\<^sup>* ts ts' \<and> clock ts' = clock ts \<and> delivered (lsys ts') \<and>
    dom (windows (lsys ts')) = dom (windows (lsys ts))"
proof -
  obtain ids where "delivery_ok ids (lsys ts)" using reachable_delivery_ok [OF assms] by blast
  from receiving.reaches_end [OF this] obtain ts' where "timed_receive\<^sup>*\<^sup>* ts ts'" "\<forall>u. \<not> timed_receive ts' u" by blast
  then show ?thesis using receives_run [of ts ts'] undelivered_receive [of ts'] by blast
qed

lemma all_beat:
  assumes "finite S" "S \<subseteq> dom (windows (lsys ts))" "\<forall>w \<in> dom (windows (lsys ts)). set (posted ts w) \<subseteq> {clock ts}"
  shows "\<exists>ts'. (timed_step lag delay)\<^sup>*\<^sup>* ts ts' \<and> clock ts' = clock ts \<and> dom (windows (lsys ts')) = dom (windows (lsys ts)) \<and>
    (\<forall>w \<in> S. beaten ts' w = clock ts) \<and> (\<forall>w \<in> dom (windows (lsys ts)). set (posted ts' w) \<subseteq> {clock ts})"
  using assms(1,2)
proof (induction S)
  case empty
  then show ?case using assms(3) by blast
next
  case (insert w S)
  then obtain ts1 where ts1: "(timed_step lag delay)\<^sup>*\<^sup>* ts ts1" "clock ts1 = clock ts"
      "dom (windows (lsys ts1)) = dom (windows (lsys ts))" "\<forall>v \<in> S. beaten ts1 v = clock ts"
      "\<forall>v \<in> dom (windows (lsys ts)). set (posted ts1 v) \<subseteq> {clock ts}"
    by auto
  have "w \<in> dom (windows (lsys ts1))" using insert.prems ts1(3) by simp
  then obtain lk where lk: "windows (lsys ts1) w = Some lk" by blast
  let ?t = "run_timed w (heartbeat (clock ts1) lk) (at_window w (inboxes (lsys ts1) w) (posted ts1 w) (clock ts1) ts1)"
  have "timed_step lag delay ts1 ?t" using timed_step.beats [OF lk] by (simp add: at_window_def)
  then have "(timed_step lag delay)\<^sup>*\<^sup>* ts ?t" using ts1(1) by simp
  moreover have "dom (windows (lsys ?t)) = dom (windows (lsys ts))"
    unfolding run_fields using ts1(3) lk by auto
  moreover have "\<forall>v \<in> insert w S. beaten ?t v = clock ts" unfolding run_fields using ts1(2,4) by simp
  moreover have "\<forall>v \<in> dom (windows (lsys ts)). set (posted ?t v) \<subseteq> {clock ts}"
    unfolding run_fields using ts1(2,5) by auto
  ultimately show ?case using ts1(2) by (metis run_fields(2))
qed

lemma clock_advances:
  assumes "on_time lag delay" "reachable_from no_timed (timed_step lag delay) ts" "1 \<le> lag" "1 \<le> delay"
  shows "\<exists>ts'. (timed_step lag delay)\<^sup>*\<^sup>* ts ts' \<and> clock ts' = clock ts + 1 \<and> dom (windows (lsys ts')) = dom (windows (lsys ts))"
proof -
  obtain ts1 where ts1: "(timed_step lag delay)\<^sup>*\<^sup>* ts ts1" "clock ts1 = clock ts" "delivered (lsys ts1)"
      "dom (windows (lsys ts1)) = dom (windows (lsys ts))"
    using all_received [OF reachable_timed(2) [OF assms(1,2)]] by blast
  have reach: "reachable_from no_timed (timed_step lag delay) ts1"
    using assms(2) ts1(1) unfolding reachable_from_def by (meson rtranclp_trans)
  have "set (posted ts1 w) \<subseteq> {clock ts1}" if "w \<in> dom (windows (lsys ts1))" for w
    using that ts1(3) timed_okD(1) [OF reachable_timed(1) [OF assms(1) reach]] by (fastforce simp: delivered_def punctual_def)
  then obtain ts2 where ts2: "(timed_step lag delay)\<^sup>*\<^sup>* ts1 ts2" "clock ts2 = clock ts1"
      "dom (windows (lsys ts2)) = dom (windows (lsys ts1))" "\<forall>w \<in> dom (windows (lsys ts1)). beaten ts2 w = clock ts1"
      "\<forall>w \<in> dom (windows (lsys ts1)). set (posted ts2 w) \<subseteq> {clock ts1}"
    using all_beat [of "dom (windows (lsys ts1))" ts1] reachable_finite [OF reachable_timed(2) [OF assms(1) reach]] by blast
  have "timed_step lag delay ts2 (ts2\<lparr>clock := clock ts + 1\<rparr>)"
  proof (rule timed_step.waits)
    show "clock ts2 \<le> clock ts + 1" using ts1(2) ts2(2) by simp
    show "clock ts + 1 \<le> beaten ts2 w + lag \<and> (\<forall>p \<in> set (posted ts2 w). clock ts + 1 \<le> p + delay)"
      if "windows (lsys ts2) w \<noteq> None" for w
    proof -
      have "w \<in> dom (windows (lsys ts1))" using that ts2(3) by blast
      then have "beaten ts2 w = clock ts" "set (posted ts2 w) \<subseteq> {clock ts}" using ts1(2) ts2(4,5) by simp_all
      then show ?thesis using assms(3,4) by auto
    qed
  qed
  then have "(timed_step lag delay)\<^sup>*\<^sup>* ts (ts2\<lparr>clock := clock ts + 1\<rparr>)"
    using ts1(1) ts2(1) by (meson rtranclp.rtrancl_into_rtrancl rtranclp_trans)
  then show ?thesis using ts1(4) ts2(3) by fastforce
qed

section \<open>Concrete runs\<close>

definition at_noon :: timed_locks where
  "at_noon = \<lparr>lsys = \<lparr>windows = \<lambda>_. None, inboxes = \<lambda>_. []\<rparr>, clock = 0, beaten = \<lambda>_. 0, posted = \<lambda>_. [], departed = \<lambda>_. None\<rparr>"

definition t_open :: "bool \<Rightarrow> string \<Rightarrow> timed_locks \<Rightarrow> timed_locks" where
  "t_open foreground w ts = (let (lk, msgs) = initSessionLock foreground True (clock ts) (fresh_lock w)
     in run_timed w (lk, msgs, False) (at_window w [] [] (clock ts) ts))"

definition t_claim :: "string \<Rightarrow> string \<Rightarrow> timed_locks \<Rightarrow> timed_locks" where
  "t_claim sid w ts = (case windows (lsys ts) w of None \<Rightarrow> ts
     | Some lk \<Rightarrow> run_timed w (claimSession sid lk) (at_window w (inboxes (lsys ts) w) (posted ts w) (beaten ts w) ts))"

definition t_receive :: "string \<Rightarrow> timed_locks \<Rightarrow> timed_locks" where
  "t_receive w ts = (case windows (lsys ts) w of None \<Rightarrow> ts
     | Some lk \<Rightarrow> (case inboxes (lsys ts) w of [] \<Rightarrow> ts
         | m # ms \<Rightarrow> run_timed w (onmessage (clock ts) m lk) (at_window w ms (tl (posted ts w)) (beaten ts w) ts)))"

definition t_beat :: "string \<Rightarrow> timed_locks \<Rightarrow> timed_locks" where
  "t_beat w ts = (case windows (lsys ts) w of None \<Rightarrow> ts
     | Some lk \<Rightarrow> run_timed w (heartbeat (clock ts) lk) (at_window w (inboxes (lsys ts) w) (posted ts w) (clock ts) ts))"

definition t_crash :: "string \<Rightarrow> timed_locks \<Rightarrow> timed_locks" where
  "t_crash w ts = (case windows (lsys ts) w of None \<Rightarrow> ts | Some lk \<Rightarrow> leave w [] ts)"

definition t_wait :: "int \<Rightarrow> timed_locks \<Rightarrow> timed_locks" where
  "t_wait now ts = ts\<lparr>clock := now\<rparr>"

lemma reach_timed:
  assumes "reachable_from no_timed (timed_step lag delay) ts"
  shows "new_window (lsys ts) w \<Longrightarrow> departed ts w = None \<Longrightarrow> reachable_from no_timed (timed_step lag delay) (t_open fg w ts)"
    "reachable_from no_timed (timed_step lag delay) (t_claim sid w ts)"
    "reachable_from no_timed (timed_step lag delay) (t_receive w ts)"
    "reachable_from no_timed (timed_step lag delay) (t_beat w ts)"
    "reachable_from no_timed (timed_step lag delay) (t_crash w ts)"
    "clock ts \<le> now \<Longrightarrow> (\<And>w. windows (lsys ts) w \<noteq> None \<Longrightarrow> now \<le> beaten ts w + lag \<and> (\<forall>p \<in> set (posted ts w). now \<le> p + delay)) \<Longrightarrow>
      reachable_from no_timed (timed_step lag delay) (t_wait now ts)"
proof -
  note step = reachable_step [OF assms]
  show "reachable_from no_timed (timed_step lag delay) (t_open fg w ts)" if "new_window (lsys ts) w" "departed ts w = None"
  proof -
    obtain lk msgs where "initSessionLock fg True (clock ts) (fresh_lock w) = (lk, msgs)" by fastforce
    then show ?thesis using step [OF timed_step.opens [OF that]] by (simp add: t_open_def at_window_def)
  qed
  show "reachable_from no_timed (timed_step lag delay) (t_claim sid w ts)"
  proof (cases "windows (lsys ts) w")
    case (Some lk)
    then show ?thesis using step [OF timed_step.acts [OF Some, of "claimSession sid lk"]] by (auto simp: t_claim_def)
  qed (use assms in \<open>simp add: t_claim_def\<close>)
  show "reachable_from no_timed (timed_step lag delay) (t_receive w ts)"
    using assms step [OF timed_step.receives [of ts w]] by (auto simp: t_receive_def at_window_def split: option.split list.split)
  show "reachable_from no_timed (timed_step lag delay) (t_beat w ts)"
    using assms step [OF timed_step.beats [of ts w]] by (cases "windows (lsys ts) w") (simp_all add: t_beat_def at_window_def)
  show "reachable_from no_timed (timed_step lag delay) (t_crash w ts)"
    using assms step [OF timed_step.crashes [of ts w]] by (cases "windows (lsys ts) w") (simp_all add: t_crash_def)
  show "reachable_from no_timed (timed_step lag delay) (t_wait now ts)"
    if "clock ts \<le> now" "\<And>w. windows (lsys ts) w \<noteq> None \<Longrightarrow> now \<le> beaten ts w + lag \<and> (\<forall>p \<in> set (posted ts w). now \<le> p + delay)"
    unfolding t_wait_def by (rule step [OF timed_step.waits]) (use that in auto)
qed

text \<open>Two windows, \<open>a\<close> and \<open>b\<close>, with their queues.\<close>

definition two :: "lock option \<Rightarrow> lock option \<Rightarrow> lock_msg list \<times> int list \<Rightarrow> lock_msg list \<times> int list \<Rightarrow>
    int \<Rightarrow> int \<Rightarrow> int \<Rightarrow> (string \<Rightarrow> int option) \<Rightarrow> timed_locks" where
  "two la lb qa qb now ba bb dep = \<lparr>lsys = \<lparr>windows = \<lambda>w. if w = ''a'' then la else if w = ''b'' then lb else None,
       inboxes = \<lambda>w. if w = ''a'' then fst qa else if w = ''b'' then fst qb else []\<rparr>, clock = now,
     beaten = \<lambda>w. if w = ''a'' then ba else if w = ''b'' then bb else 0,
     posted = \<lambda>w. if w = ''a'' then snd qa else if w = ''b'' then snd qb else [], departed = dep\<rparr>"

definition reach_other :: "lock option \<Rightarrow> int \<Rightarrow> lock_msg list \<Rightarrow> lock_msg list \<times> int list \<Rightarrow> lock_msg list \<times> int list" where
  "reach_other l now msgs q = (if l = None then q else (fst q @ msgs, snd q @ replicate (length msgs) now))"

lemma two_run:
  "run_timed ''a'' e (at_window ''a'' ms ps t (two la lb qa qb now ba bb dep)) =
     two (Some (fst e)) lb (ms, ps) (reach_other lb now (fst (snd e)) qb) now t bb dep"
  "run_timed ''b'' e (at_window ''b'' ms ps t (two la lb qa qb now ba bb dep)) =
     two la (Some (fst e)) (reach_other la now (fst (snd e)) qa) (ms, ps) now ba t dep"
  by (simp_all add: run_timed_def at_window_def stamp_def run_window_def broadcast_def two_def reach_other_def fun_eq_iff)

lemma two_fields:
  "windows (lsys (two la lb qa qb now ba bb dep)) w = (if w = ''a'' then la else if w = ''b'' then lb else None)"
  "inboxes (lsys (two la lb qa qb now ba bb dep)) w = (if w = ''a'' then fst qa else if w = ''b'' then fst qb else [])"
  "posted (two la lb qa qb now ba bb dep) w = (if w = ''a'' then snd qa else if w = ''b'' then snd qb else [])"
  "beaten (two la lb qa qb now ba bb dep) w = (if w = ''a'' then ba else if w = ''b'' then bb else 0)"
  "clock (two la lb qa qb now ba bb dep) = now" "departed (two la lb qa qb now ba bb dep) = dep"
  "(two la lb qa qb now ba bb dep)\<lparr>clock := t\<rparr> = two la lb qa qb t ba bb dep"
  by (simp_all add: two_def)

lemma two_leave:
  "leave ''a'' [] (two la lb qa qb now ba bb dep) = two None lb qa qb now ba bb (dep(''a'' \<mapsto> now))"
  by (simp add: leave_def stamp_def broadcast_def two_def fun_eq_iff)

lemma at_noon_two: "at_noon = two None None ([], []) ([], []) 0 0 0 Map.empty"
  by (simp add: at_noon_def two_def fun_eq_iff)

lemmas t_run_simps = t_open_def t_claim_def t_receive_def t_beat_def t_crash_def t_wait_def two_leave two_run two_fields
  reach_other_def at_noon_two heartbeat_def stale_peers_def STALE_MS_def
  initSessionLock_def fresh_lock_def postPresence_def claimSession_def onmessage_def recompute_def
  computeOwned_def self_presence_def peersAsPresence_def setsEqual_def peer_wins_def js_set_def has_key_def

text \<open>\<open>a\<close> has the focus and the session; \<open>b\<close> was opened in the background. All messages are delivered.\<close>

definition ex_lock :: "int \<Rightarrow> string set \<Rightarrow> string \<Rightarrow> peer_record obj \<Rightarrow> lock" where
  "ex_lock f own w prs = \<lparr>windowId = w, focusTs = f, claimed = [''s''], owned = own, lock_peers = prs,
     channel = True, heartbeatTimer = True, lock_initialized = True, lock_listeners = lock_events\<rparr>"

definition ex_pair :: timed_locks where
  "ex_pair = t_receive ''a'' (t_receive ''b'' (t_receive ''a'' (t_receive ''a''
     (t_claim ''s'' ''b'' (t_open False ''b'' (t_wait 5 (t_claim ''s'' ''a'' (t_open True ''a'' (t_wait 1 at_noon)))))))))"

lemma ex_pair_eq:
  "ex_pair = two (Some (ex_lock 1 {''s''} ''a'' [(''b'', \<lparr>peer_focus = 0, peer_sessions = [''s''], lastSeen = 5\<rparr>)]))
     (Some (ex_lock 0 {} ''b'' [(''a'', \<lparr>peer_focus = 1, peer_sessions = [''s''], lastSeen = 5\<rparr>)])) ([], []) ([], []) 5 1 5 Map.empty"
  by (simp add: ex_pair_def ex_lock_def t_run_simps)

text \<open>\<open>a\<close> crashes with the session; \<open>b\<close> beats on and finds out.\<close>

fun beats_of :: "int list \<Rightarrow> timed_locks \<Rightarrow> timed_locks" where
  "beats_of [] ts = ts"
| "beats_of (t # rest) ts = beats_of rest (t_receive ''a'' (t_beat ''b'' (t_wait t ts)))"

definition ex_recovered :: timed_locks where
  "ex_recovered = beats_of [2005, 4005, 6005, 8005, 10005, 12006] (t_crash ''a'' ex_pair)"

definition ex_crashed :: timed_locks where
  "ex_crashed = t_wait 8700 (beats_of [2005, 4005, 6005, 8005] (t_crash ''a'' ex_pair))"

text \<open>\<open>a\<close> is alive, but the browser runs the intervals of its hidden page once a minute.\<close>

definition ex_throttled :: timed_locks where
  "ex_throttled = beats_of [2005, 4005, 6005, 8005] ex_pair"

lemma ex_crashed_eq:
  "ex_crashed = two None (Some (ex_lock 0 {''s''} ''b'' [])) ([], []) ([], []) 8700 1 8005 [''a'' \<mapsto> 5]"
  by (simp add: ex_crashed_def ex_pair_eq ex_lock_def t_run_simps)

lemma ex_recovered_eq:
  "ex_recovered = two None (Some (ex_lock 0 {''s''} ''b'' [])) ([], []) ([], []) 12006 1 12006 [''a'' \<mapsto> 5]"
  by (simp add: ex_recovered_def ex_pair_eq ex_lock_def t_run_simps)

lemma ex_throttled_eq:
  "ex_throttled = two (Some (ex_lock 1 {''s''} ''a'' [(''b'', \<lparr>peer_focus = 0, peer_sessions = [''s''], lastSeen = 8005\<rparr>)]))
     (Some (ex_lock 0 {''s''} ''b'' [])) ([], []) ([], []) 8005 1 8005 Map.empty"
  by (simp add: ex_throttled_def ex_pair_eq ex_lock_def t_run_simps)

lemma ex_pair_reachable:
  assumes "2000 \<le> lag" "0 \<le> delay"
  shows "reachable_from no_timed (timed_step lag delay) ex_pair"
proof -
  have "reachable_from no_timed (timed_step lag delay) at_noon"
    by (rule reachable_start) (simp add: no_timed_def no_windows_def at_noon_def)
  then show ?thesis
    unfolding ex_pair_def
    by (intro reach_timed) (use assms in \<open>auto simp: t_run_simps new_window_def Let_def split: if_splits\<close>)
qed

text \<open>A round of beats takes two seconds at most.\<close>

lemma beat_round_reachable:
  assumes "reachable_from no_timed (timed_step lag delay) ts" "clock ts \<le> t"
    and "\<And>w. windows (lsys ts) w \<noteq> None \<Longrightarrow> t \<le> beaten ts w + lag \<and> posted ts w = []"
  shows "reachable_from no_timed (timed_step lag delay) (t_receive ''a'' (t_beat ''b'' (t_wait t ts)))"
  by (intro reach_timed(3,4,6)) (use assms in simp_all)

lemma ex_crashed_reachable: "reachable_from no_timed (timed_step 2100 500) ex_crashed"
proof -
  have "reachable_from no_timed (timed_step 2100 500) (t_crash ''a'' ex_pair)"
    by (intro reach_timed(5) ex_pair_reachable) simp_all
  then show ?thesis
    unfolding ex_crashed_def beats_of.simps
    by (intro reach_timed(6) beat_round_reachable) (simp_all add: ex_pair_eq ex_lock_def t_run_simps split: if_splits)
qed

lemma ex_recovered_reachable: "reachable_from no_timed (timed_step 2100 500) ex_recovered"
proof -
  have "reachable_from no_timed (timed_step 2100 500) (t_crash ''a'' ex_pair)"
    by (intro reach_timed(5) ex_pair_reachable) simp_all
  then show ?thesis
    unfolding ex_recovered_def beats_of.simps
    by (intro beat_round_reachable) (simp_all add: ex_pair_eq ex_lock_def t_run_simps split: if_splits)
qed

lemma ex_throttled_reachable: "reachable_from no_timed (timed_step 60000 500) ex_throttled"
proof -
  have "reachable_from no_timed (timed_step 60000 500) ex_pair" by (rule ex_pair_reachable) simp_all
  then show ?thesis
    unfolding ex_throttled_def beats_of.simps
    by (intro beat_round_reachable) (simp_all add: ex_pair_eq ex_lock_def t_run_simps split: if_splits)
qed

text \<open>Without punctual beats two windows own the session, although nothing is under way.\<close>

lemma throttled_owners:
  "delivered (lsys ex_throttled)"
  "\<exists>lk. windows (lsys ex_throttled) ''a'' = Some lk \<and> ''s'' \<in> owned lk"
  "\<exists>lk. windows (lsys ex_throttled) ''b'' = Some lk \<and> ''s'' \<in> owned lk"
  by (simp_all add: ex_throttled_eq delivered_def two_fields ex_lock_def)

end
