(* ===== verification/Desk.thy ===== *)
theory Desk
  imports LockProgress TerminalViews ViewFacts Reload
begin

text \<open>
  Every window of the browser at once: its terminals in its panels (\<open>TerminalViews\<close>, over any reachable store), its session lock
  (\<open>SessionLock\<close>) and the hook \<open>useSessionOwned\<close> of \<open>hooks/useTerminal.ts\<close>, which decides whether a panel is covered by the
  overlay of \<open>TerminalView.tsx\<close>. Mounting a terminal claims its session; the lock's listeners set the state of the hooks,
  and pressing the overlay, which takes the focus, uncovers the window's panels at once (\<open>takeover_uncovers\<close>).
\<close>

section \<open>Hooks and listeners\<close>

text \<open>
  The state of \<open>useSessionOwned\<close> by container. A listener of a view sets it to \<open>owned.has(sessionId)\<close>; views without a
  session do not subscribe.
\<close>

type_synonym hooks = "nat \<Rightarrow> bool"

definition run_listeners :: "lock \<Rightarrow> (nat \<times> string option) list \<Rightarrow> hooks \<Rightarrow> hooks" where
  "run_listeners lk subs own c =
     (case map_of subs c of None \<Rightarrow> own c
      | Some so \<Rightarrow> if truthy so then ownsSession lk (the so) else own c)"

text \<open>The listeners are a set; what \<open>subscribeOwnership\<close> returns takes its listener out again.\<close>

definition subscribeOwnership :: "'v \<Rightarrow> 'v list \<Rightarrow> 'v list" where
  "subscribeOwnership cb ls = List.insert cb ls"

definition unsubscribeOwnership :: "'v \<Rightarrow> 'v list \<Rightarrow> 'v list" where
  "unsubscribeOwnership cb ls = filter (\<lambda>x. x \<noteq> cb) ls"

text \<open>
  The effects of one view that is new or has another session, in the order of the hooks: \<open>useTerminal\<close> claims the session,
  which may run the listeners; then \<open>useSessionOwned\<close> sets its state and subscribes.
\<close>

definition mount_view ::
    "string \<Rightarrow> nat \<times> string option \<Rightarrow> lock_system \<times> hooks \<times> (nat \<times> string option) list \<Rightarrow>
     lock_system \<times> hooks \<times> (nat \<times> string option) list" where
  "mount_view w v st =
     (case (v, st) of ((c, so), (sys, own, subs)) \<Rightarrow>
        if \<not> truthy so then (sys, own(c := True), subscribeOwnership (c, so) subs)
        else
          (case windows sys w of None \<Rightarrow> st
           | Some lk \<Rightarrow>
               let e = claimSession (the so) lk;
                   own1 = (if snd (snd e) then run_listeners (fst e) subs own else own)
               in (run_window w e sys, own1(c := ownsSession (fst e) (the so)), subscribeOwnership (c, so) subs)))"

text \<open>
  A commit: first the views that go, or get another session, unsubscribe, those that stay keep their subscription; then
  the new ones are mounted in order. (A view without a session is in the list too, but nothing listens for it.)
\<close>

definition mount_views ::
    "string \<Rightarrow> (nat \<times> string option) list \<Rightarrow> (nat \<times> string option) list \<Rightarrow> lock_system \<times> hooks \<Rightarrow>
     lock_system \<times> hooks \<times> (nat \<times> string option) list" where
  "mount_views w old new st =
     fold (mount_view w) (filter (\<lambda>v. v \<notin> set old) new)
       (fst st, snd st, fold unsubscribeOwnership (filter (\<lambda>v. v \<notin> set new) old) old)"

section \<open>The desk\<close>

record desk =
  desk_locks :: lock_system
  desk_screens :: "string \<Rightarrow> screen_state"
  desk_hooks :: "string \<Rightarrow> hooks"

definition new_screen :: screen_state where
  "new_screen = \<lparr>spage = empty_page, sviews = [], stheme = darkTerminalTheme, smobile = False\<rparr>"

definition no_desk :: "desk \<Rightarrow> bool" where
  "no_desk d \<longleftrightarrow> no_windows (desk_locks d) \<and> desk_screens d = (\<lambda>_. new_screen)"

text \<open>After a step of the lock the listeners have run in every window whose set of owned sessions changed.\<close>

definition hooks_after :: "lock_system \<Rightarrow> desk \<Rightarrow> string \<Rightarrow> hooks" where
  "hooks_after sys d w =
     (case (windows (desk_locks d) w, windows sys w) of
        (Some lk, Some lk') \<Rightarrow>
          if owned lk' = owned lk then desk_hooks d w
          else run_listeners lk' (sviews (desk_screens d w)) (desk_hooks d w)
      | _ \<Rightarrow> desk_hooks d w)"

definition screens_after :: "lock_system \<Rightarrow> desk \<Rightarrow> string \<Rightarrow> screen_state" where
  "screens_after sys d w =
     (if windows (desk_locks d) w = None \<or> windows sys w = None then new_screen else desk_screens d w)"

text \<open>
  \<open>main.tsx\<close>: a page subscribes the storage, starts its lock and renders the application, whose first screen has no
  panels (React's strict mode changes nothing in a production build).
\<close>

definition main_page :: "storage \<Rightarrow> string \<Rightarrow> bool \<Rightarrow> bool \<Rightarrow> int \<Rightarrow> browser \<times> (lock \<times> lock_msg list) \<times> screen_state" where
  "main_page st w isVisible hasChannel now =
     (open_page st, initSessionLock isVisible hasChannel now (fresh_lock w), new_screen)"

text \<open>
  A step of the lock in which no window releases a session (only \<open>disposeTerminal\<close> does, which the application never calls), or
  a commit of one window.
\<close>

inductive desk_step :: "xterm \<Rightarrow> (nat \<Rightarrow> nat) \<Rightarrow> desk \<Rightarrow> desk \<Rightarrow> bool" for env rnd where
  arbitrate: "lock_step (desk_locks d) sys \<Longrightarrow>
     (\<And>w lk lk'. windows (desk_locks d) w = Some lk \<Longrightarrow> windows sys w = Some lk' \<Longrightarrow> set (claimed lk) \<subseteq> set (claimed lk')) \<Longrightarrow>
     desk_step env rnd d \<lparr>desk_locks = sys, desk_screens = screens_after sys d, desk_hooks = hooks_after sys d\<rparr>"
| render: "windows (desk_locks d) w \<noteq> None \<Longrightarrow> screen_step env rnd (desk_screens d w) scr \<Longrightarrow>
     mount_views w (sviews (desk_screens d w)) (sviews scr) (desk_locks d, desk_hooks d w) = (sys, own, subs) \<Longrightarrow>
     desk_step env rnd d \<lparr>desk_locks = sys, desk_screens = (desk_screens d)(w := scr), desk_hooks = (desk_hooks d)(w := own)\<rparr>"

section \<open>Every hook tells what the lock says\<close>

definition hook_ok :: "lock \<Rightarrow> hooks \<Rightarrow> nat \<times> string option \<Rightarrow> bool" where
  "hook_ok lk own v \<longleftrightarrow>
     (if truthy (snd v) then the (snd v) \<in> set (claimed lk) \<and> own (fst v) = ownsSession lk (the (snd v)) else own (fst v))"

definition window_ok :: "desk \<Rightarrow> string \<Rightarrow> lock \<Rightarrow> bool" where
  "window_ok d w lk \<longleftrightarrow> (\<forall>v \<in> set (sviews (desk_screens d w)). hook_ok lk (desk_hooks d w) v)"

definition desk_ok :: "xterm \<Rightarrow> (nat \<Rightarrow> nat) \<Rightarrow> desk \<Rightarrow> bool" where
  "desk_ok env rnd d \<longleftrightarrow>
     (\<forall>w. reachable_from blank_screen (screen_step env rnd) (desk_screens d w)) \<and>
     (\<forall>w. distinct (map fst (sviews (desk_screens d w)))) \<and>
     (\<forall>w lk. windows (desk_locks d) w = Some lk \<longrightarrow> window_ok d w lk)"

lemma fold_unsubscribe: "fold unsubscribeOwnership xs ls = filter (\<lambda>v. v \<notin> set xs) ls"
  by (induction xs arbitrary: ls) (auto simp: unsubscribeOwnership_def intro: filter_cong)

lemma still_subscribed: "fold unsubscribeOwnership (filter (\<lambda>v. v \<notin> set new) old) old = filter (\<lambda>v. v \<in> set new) old"
  by (auto simp: fold_unsubscribe intro: filter_cong)

lemma subscribe_new: "c \<notin> fst ` set subs \<Longrightarrow> subscribeOwnership (c, so) subs = (c, so) # subs"
proof -
  assume "c \<notin> fst ` set subs"
  then have "(c, so) \<notin> set subs" by force
  then show ?thesis by (simp add: subscribeOwnership_def)
qed

lemma listeners_ok:
  assumes "distinct (map fst subs)" "\<forall>v \<in> set subs. hook_ok lk own v" "set (claimed lk) \<subseteq> set (claimed lk')"
  shows "\<forall>v \<in> set subs. hook_ok lk' (run_listeners lk' subs own) v"
proof
  fix v
  assume v: "v \<in> set subs"
  then have "map_of subs (fst v) = Some (snd v)" using assms(1) by simp
  then show "hook_ok lk' (run_listeners lk' subs own) v"
    using bspec [OF assms(2) v] assms(3) by (auto simp: hook_ok_def run_listeners_def)
qed

lemma unchanged_ok:
  assumes "\<forall>v \<in> set subs. hook_ok lk own v" "set (claimed lk) \<subseteq> set (claimed lk')" "owned lk' = owned lk"
  shows "\<forall>v \<in> set subs. hook_ok lk' own v"
proof
  fix v
  assume "v \<in> set subs"
  from bspec [OF assms(1) this] show "hook_ok lk' own v" using assms(2,3) by (auto simp: hook_ok_def ownsSession_def)
qed

lemma hook_ok_other: "fst v \<noteq> c \<Longrightarrow> hook_ok lk (own(c := b)) v = hook_ok lk own v"
  by (simp add: hook_ok_def)

text \<open>What claiming does to the window.\<close>

lemma claim_effect:
  assumes "lock_ok w lk"
  shows "set (claimed (fst (claimSession sid lk))) = insert sid (set (claimed lk))"
    "snd (snd (claimSession sid lk)) \<longleftrightarrow> owned (fst (claimSession sid lk)) \<noteq> owned lk"
proof -
  have fin: "finite (owned (lk\<lparr>claimed := claimed lk @ [sid]\<rparr>))" using lock_ok_finite [OF assms] by simp
  show "set (claimed (fst (claimSession sid lk))) = insert sid (set (claimed lk))"
    using fin by (auto simp: claimSession_def case_prod_beta recompute_fst)
  show "snd (snd (claimSession sid lk)) \<longleftrightarrow> owned (fst (claimSession sid lk)) \<noteq> owned lk"
    using recompute_notifies [OF fin] by (auto simp: claimSession_def case_prod_beta)
qed

definition mounting :: "string \<Rightarrow> lock_system \<times> hooks \<times> (nat \<times> string option) list \<Rightarrow> bool" where
  "mounting w st \<longleftrightarrow> (case st of (sys, own, subs) \<Rightarrow>
     sys_ok sys \<and> distinct (map fst subs) \<and> (\<exists>lk. windows sys w = Some lk \<and> (\<forall>v \<in> set subs. hook_ok lk own v)))"

lemma mount_view_ok:
  assumes "mounting w st" "fst v \<notin> fst ` set (snd (snd st))"
  shows "mounting w (mount_view w v st)"
    and "set (snd (snd (mount_view w v st))) = insert v (set (snd (snd st)))"
    and "lock_step\<^sup>*\<^sup>* (fst st) (fst (mount_view w v st))"
    and "u \<noteq> w \<Longrightarrow> windows (fst (mount_view w v st)) u = windows (fst st) u"
proof -
  obtain sys own subs c so where st: "st = (sys, own, subs)" and v: "v = (c, so)" by (cases st; cases v) auto
  obtain lk where ok: "sys_ok sys" "distinct (map fst subs)" and lk: "windows sys w = Some lk" "\<forall>v \<in> set subs. hook_ok lk own v"
    using assms(1) by (auto simp: mounting_def st)
  have c: "c \<notin> fst ` set subs" using assms(2) by (simp add: st v)
  have all: "mounting w (mount_view w v st) \<and> set (snd (snd (mount_view w v st))) = insert v (set (snd (snd st))) \<and>
    lock_step\<^sup>*\<^sup>* (fst st) (fst (mount_view w v st)) \<and> (u \<noteq> w \<longrightarrow> windows (fst (mount_view w v st)) u = windows (fst st) u)" for u
  proof (cases "truthy so")
    case False
    have "\<forall>x \<in> set subs. hook_ok lk (own(c := True)) x"
      using lk(2) c by (metis hook_ok_other image_eqI)
    then show ?thesis
      using False ok lk c by (simp add: mount_view_def st v mounting_def hook_ok_def subscribe_new)
  next
    case True
    let ?e = "claimSession (the so) lk"
    let ?own = "if snd (snd ?e) then run_listeners (fst ?e) subs own else own"
    have eq: "mount_view w v st = (run_window w ?e sys, ?own(c := ownsSession (fst ?e) (the so)), (c, so) # subs)"
      using True lk(1) c by (simp add: mount_view_def st v Let_def subscribe_new)
    have step: "lock_step sys (run_window w ?e sys)" by (rule lock_step.claim [OF lk(1)])
    note claim = claim_effect [OF sys_ok_lock [OF ok(1) lk(1)], of "the so"]
    have "\<forall>x \<in> set subs. hook_ok (fst ?e) ?own x"
      using listeners_ok [OF ok(2) lk(2), of "fst ?e"] unchanged_ok [OF lk(2), of "fst ?e"] claim by auto
    then have "\<forall>x \<in> set subs. hook_ok (fst ?e) (?own(c := ownsSession (fst ?e) (the so))) x"
      using c by (metis hook_ok_other image_eqI)
    moreover have "hook_ok (fst ?e) (?own(c := ownsSession (fst ?e) (the so))) (c, so)"
      using claim(1) True by (simp add: hook_ok_def)
    moreover have "windows (run_window w ?e sys) = (windows sys)(w \<mapsto> fst ?e)"
      by (simp add: run_window_def broadcast_def)
    moreover have "sys_ok (run_window w ?e sys)" by (rule sys_ok_step [OF step ok(1)])
    ultimately show ?thesis
      using ok(2) c step unfolding eq mounting_def by (simp add: st v)
  qed
  then show "mounting w (mount_view w v st)" "set (snd (snd (mount_view w v st))) = insert v (set (snd (snd st)))"
    "lock_step\<^sup>*\<^sup>* (fst st) (fst (mount_view w v st))" "u \<noteq> w \<Longrightarrow> windows (fst (mount_view w v st)) u = windows (fst st) u"
    by simp_all
qed

lemma mount_fold_ok:
  assumes "mounting w st" "distinct (map fst vs)" "fst ` set vs \<inter> fst ` set (snd (snd st)) = {}"
  shows "mounting w (fold (mount_view w) vs st) \<and> set (snd (snd (fold (mount_view w) vs st))) = set vs \<union> set (snd (snd st)) \<and>
    lock_step\<^sup>*\<^sup>* (fst st) (fst (fold (mount_view w) vs st)) \<and>
    (\<forall>u. u \<noteq> w \<longrightarrow> windows (fst (fold (mount_view w) vs st)) u = windows (fst st) u)"
  using assms
proof (induction vs arbitrary: st)
  case (Cons v vs)
  have v: "fst v \<notin> fst ` set (snd (snd st))" using Cons.prems(3) by auto
  note mount = mount_view_ok [OF Cons.prems(1) v]
  have "fst ` set vs \<inter> fst ` set (snd (snd (mount_view w v st))) = {}"
    using Cons.prems(2,3) unfolding mount(2) by auto
  then show ?case
    using Cons.IH [OF mount(1)] Cons.prems(2) mount(2-4) rtranclp_trans [OF mount(3)] by simp
qed simp

lemma screen_views_distinct: "screen_step env rnd scr scr' \<Longrightarrow> distinct (map fst (sviews scr'))"
proof (induction rule: screen_step.induct)
  case (1 w isMobile pv cont s theme)
  then show ?case using views_apart [OF 1(1-3)] by (simp add: commit_def apart_def)
qed

lemma desk_commit_ok:
  assumes ok: "desk_ok env rnd d" and sys: "sys_ok (desk_locks d)" and w: "windows (desk_locks d) w = Some lk"
    and scr: "screen_step env rnd (desk_screens d w) scr"
    and mount: "mount_views w (sviews (desk_screens d w)) (sviews scr) (desk_locks d, desk_hooks d w) = (sys', own, subs)"
  shows "desk_ok env rnd \<lparr>desk_locks = sys', desk_screens = (desk_screens d)(w := scr), desk_hooks = (desk_hooks d)(w := own)\<rparr>"
    "lock_step\<^sup>*\<^sup>* (desk_locks d) sys'"
proof -
  let ?old = "sviews (desk_screens d w)" and ?new = "sviews scr"
  let ?st = "(desk_locks d, desk_hooks d w, filter (\<lambda>v. v \<in> set ?new) ?old)"
  let ?vs = "filter (\<lambda>v. v \<notin> set ?old) ?new"
  have views: "distinct (map fst ?old)" "distinct (map fst ?new)"
    using ok screen_views_distinct [OF scr] by (simp_all add: desk_ok_def)
  have "window_ok d w lk" using ok w by (simp add: desk_ok_def)
  then have "mounting w ?st"
    using sys w views(1) by (simp add: mounting_def window_ok_def distinct_map_filter)
  moreover have "distinct (map fst ?vs)" using views(2) by (simp add: distinct_map_filter)
  moreover have "fst ` set ?vs \<inter> fst ` set (snd (snd ?st)) = {}"
    using views(2) by (auto simp: distinct_map inj_on_def)
  ultimately have fold: "mounting w (sys', own, subs)" "set subs = set ?vs \<union> {v \<in> set ?old. v \<in> set ?new}"
      "lock_step\<^sup>*\<^sup>* (desk_locks d) sys'" "\<And>u. u \<noteq> w \<Longrightarrow> windows sys' u = windows (desk_locks d) u"
    using mount_fold_ok [of w ?st ?vs] mount by (auto simp: mount_views_def still_subscribed)
  show "lock_step\<^sup>*\<^sup>* (desk_locks d) sys'" by (rule fold(3))
  have "set ?new \<subseteq> set subs" using fold(2) by auto
  then have mine: "\<forall>v \<in> set ?new. hook_ok lk' own v" if "windows sys' w = Some lk'" for lk'
    using fold(1) that by (auto simp: mounting_def)
  have "reachable_from blank_screen (screen_step env rnd) scr"
    using ok scr by (auto simp: desk_ok_def intro: reachable_step)
  then show "desk_ok env rnd \<lparr>desk_locks = sys', desk_screens = (desk_screens d)(w := scr), desk_hooks = (desk_hooks d)(w := own)\<rparr>"
    using ok mine views(2) fold(4) unfolding desk_ok_def window_ok_def by auto
qed

lemma new_screen_views [simp]: "sviews new_screen = []"
  by (simp add: new_screen_def)

lemma new_screen_reachable: "reachable_from blank_screen (screen_step env rnd) new_screen"
  by (rule reachable_start) (simp add: blank_screen_def new_screen_def)

lemma desk_arbitrate_ok:
  assumes ok: "desk_ok env rnd d"
    and grow: "\<And>w lk lk'. windows (desk_locks d) w = Some lk \<Longrightarrow> windows sys w = Some lk' \<Longrightarrow> set (claimed lk) \<subseteq> set (claimed lk')"
  shows "desk_ok env rnd \<lparr>desk_locks = sys, desk_screens = screens_after sys d, desk_hooks = hooks_after sys d\<rparr>"
proof -
  have "\<forall>v \<in> set (sviews (screens_after sys d w)). hook_ok lk' (hooks_after sys d w) v" if w: "windows sys w = Some lk'" for w lk'
  proof (cases "windows (desk_locks d) w")
    case None
    then show ?thesis by (simp add: screens_after_def)
  next
    case (Some lk)
    have views: "distinct (map fst (sviews (desk_screens d w)))" "\<forall>v \<in> set (sviews (desk_screens d w)). hook_ok lk (desk_hooks d w) v"
      using ok Some by (auto simp: desk_ok_def window_ok_def)
    show ?thesis
      using listeners_ok [OF views grow [OF Some w]] unchanged_ok [OF views(2) grow [OF Some w]] Some w
      by (simp add: screens_after_def hooks_after_def)
  qed
  then show ?thesis
    using ok new_screen_reachable
    by (auto simp: desk_ok_def window_ok_def screens_after_def)
qed

lemma no_desk_ok: "no_desk d \<Longrightarrow> desk_ok env rnd d"
  using new_screen_reachable by (simp add: no_desk_def no_windows_def desk_ok_def)

lemma desk_ok_step:
  assumes "desk_step env rnd d d'" "desk_ok env rnd d" "sys_ok (desk_locks d)"
  shows "desk_ok env rnd d'" "lock_step\<^sup>*\<^sup>* (desk_locks d) (desk_locks d')"
proof -
  have "desk_ok env rnd d' \<and> lock_step\<^sup>*\<^sup>* (desk_locks d) (desk_locks d')"
    using assms(1)
  proof cases
    case (arbitrate sys)
    then show ?thesis using desk_arbitrate_ok [OF assms(2) arbitrate(3)] by simp
  next
    case (render w scr sys own subs)
    then obtain lk where "windows (desk_locks d) w = Some lk" by blast
    then show ?thesis using desk_commit_ok [OF assms(2,3) _ render(3,4)] render(1) by simp
  qed
  then show "desk_ok env rnd d'" "lock_step\<^sup>*\<^sup>* (desk_locks d) (desk_locks d')" by simp_all
qed

interpretation desk: refining_system no_windows lock_step sys_ok no_desk "desk_step env rnd" "desk_ok env rnd" desk_locks
  for env rnd
proof
  show "desk_ok env rnd d \<and> no_windows (desk_locks d)" if "no_desk d" for d
    using that no_desk_ok by (simp add: no_desk_def)
qed (use desk_ok_step in blast)+

lemma reachable_desk:
  assumes "reachable_from no_desk (desk_step env rnd) d"
  shows "desk_ok env rnd d" "reachable_windows (desk_locks d)"
  using desk.conc.reachable_inv [OF assms] by (simp_all add: reachable_windows_def)

text \<open>The overlay of a panel tells whether its window is the one that owns the session.\<close>

lemma panel_hook:
  assumes "reachable_from no_desk (desk_step env rnd) d" "windows (desk_locks d) w = Some lk"
    and "(c, so) \<in> set (sviews (desk_screens d w))"
  shows "desk_hooks d w c = useSessionOwned so lk" "truthy so \<Longrightarrow> the so \<in> set (claimed lk)"
proof -
  have "hook_ok lk (desk_hooks d w) (c, so)"
    using reachable_desk(1) [OF assms(1)] assms(2,3) unfolding desk_ok_def window_ok_def by blast
  then show "desk_hooks d w c = useSessionOwned so lk" "truthy so \<Longrightarrow> the so \<in> set (claimed lk)"
    by (auto simp: hook_ok_def useSessionOwned_def split: if_splits)
qed

text \<open>The overlay offers to take the session over.\<close>

fun takeover_mark :: "ui_action view \<Rightarrow> unit list" where
  "takeover_mark (Elem t a st hs cs) = (if \<exists>h \<in> set hs. OnTakeFocus \<in> set (snd (snd h)) then [()] else [])"
| "takeover_mark _ = []"

lemma takeover_offered:
  "collect takeover_mark (TerminalView ui isMobile so isOwned v) = (if truthy so \<and> \<not> isOwned then [()] else [])"
  by (simp add: TerminalView_def)

text \<open>A page that \<open>main.tsx\<close> starts is a start of the store, an opened window of the lock and a blank screen.\<close>

lemma main_page_starts:
  assumes "main_page st w isVisible True now = (b, (lk, msgs), scr)" "new_window sys w"
  shows "start_world (page_world b)" "persistenceWired b" "subscribers b = 1" "blank_screen scr"
    "lock_step sys (run_window w (lk, msgs, False) (sys\<lparr>inboxes := (inboxes sys)(w := [])\<rparr>))"
proof -
  have eq: "b = open_page st" "initSessionLock isVisible True now (fresh_lock w) = (lk, msgs)" "scr = new_screen"
    using assms(1) by (simp_all add: main_page_def)
  show "start_world (page_world b)" "persistenceWired b" "subscribers b = 1"
    by (simp_all add: eq(1) open_page_start) (simp_all add: open_page_def wireLayoutPersistence_def)
  show "blank_screen scr" by (simp add: eq(3) blank_screen_def new_screen_def)
  show "lock_step sys (run_window w (lk, msgs, False) (sys\<lparr>inboxes := (inboxes sys)(w := [])\<rparr>))"
    by (rule lock_step.open_window [OF assms(2) eq(2)])
qed

section \<open>Two windows that show the same session\<close>

definition arbitrated :: "(lock_system \<Rightarrow> lock_system) \<Rightarrow> desk \<Rightarrow> desk" where
  "arbitrated f d = (let sys = f (desk_locks d)
     in \<lparr>desk_locks = sys, desk_screens = screens_after sys d, desk_hooks = hooks_after sys d\<rparr>)"

definition rendered :: "string \<Rightarrow> screen_state \<Rightarrow> desk \<Rightarrow> desk" where
  "rendered w scr d =
     (case mount_views w (sviews (desk_screens d w)) (sviews scr) (desk_locks d, desk_hooks d w) of (sys, own, subs) \<Rightarrow>
        \<lparr>desk_locks = sys, desk_screens = (desk_screens d)(w := scr), desk_hooks = (desk_hooks d)(w := own)\<rparr>)"

definition empty_desk :: desk where
  "empty_desk = \<lparr>desk_locks = \<lparr>windows = \<lambda>_. None, inboxes = \<lambda>_. []\<rparr>, desk_screens = \<lambda>_. new_screen, desk_hooks = \<lambda>_ _. True\<rparr>"

definition ex_both :: desk where
  "ex_both = rendered ''b'' ex_screen_one (arbitrated (do_open 2 ''b'')
     (rendered ''a'' ex_screen_one (arbitrated (do_open 1 ''a'') empty_desk)))"

definition ex_desk :: desk where
  "ex_desk = arbitrated (do_deliver 5 ''a'') (arbitrated (do_deliver 5 ''b'') (arbitrated (do_deliver 4 ''a'')
     (arbitrated (do_deliver 4 ''a'') ex_both)))"

lemma arbitrated_locks [simp]: "desk_locks (arbitrated f d) = f (desk_locks d)"
  by (simp add: arbitrated_def Let_def)

lemma rendered_one:
  assumes "sviews (desk_screens d w) = []" "sviews scr = [(c, Some sid)]" "sid \<noteq> []"
  shows "desk_locks (rendered w scr d) = do_claim sid w (desk_locks d)"
    "desk_screens (rendered w scr d) = (desk_screens d)(w := scr)"
  using assms by (auto simp: rendered_def mount_views_def mount_view_def do_claim_def Let_def truthy_def subscribeOwnership_def split: option.split)

lemma reach_desk:
  assumes "reachable_from no_desk (desk_step env rnd) d"
  shows "windows (desk_locks d) w = Some lk \<Longrightarrow> inboxes (desk_locks d) w = m # ms \<Longrightarrow>
      reachable_from no_desk (desk_step env rnd) (arbitrated (do_deliver now w) d)"
    and "new_window (desk_locks d) w \<Longrightarrow> reachable_from no_desk (desk_step env rnd) (arbitrated (do_open now w) d)"
    and "windows (desk_locks d) w \<noteq> None \<Longrightarrow> screen_step env rnd (desk_screens d w) scr \<Longrightarrow>
      reachable_from no_desk (desk_step env rnd) (rendered w scr d)"
proof -
  have ok: "sys_ok (desk_locks d)" by (rule reachable_sys_ok [OF reachable_desk(2) [OF assms]])
  note step = reachable_step [OF assms]
  show "reachable_from no_desk (desk_step env rnd) (arbitrated (do_deliver now w) d)"
    if w: "windows (desk_locks d) w = Some lk" "inboxes (desk_locks d) w = m # ms"
  proof -
    have sys: "do_deliver now w (desk_locks d) = run_window w (onmessage now m lk) ((desk_locks d)\<lparr>inboxes := (inboxes (desk_locks d))(w := ms)\<rparr>)"
      by (simp add: do_deliver_def w)
    show ?thesis
      unfolding arbitrated_def Let_def
    proof (rule step [OF desk_step.arbitrate])
      show "lock_step (desk_locks d) (do_deliver now w (desk_locks d))" unfolding sys by (rule lock_step.deliver [OF w])
      show "set (claimed l) \<subseteq> set (claimed l')"
        if "windows (desk_locks d) u = Some l" "windows (do_deliver now w (desk_locks d)) u = Some l'" for u l l'
        using that w onmessage_claimed [OF sys_ok_lock [OF ok w(1)]]
        by (auto simp: sys run_window_def broadcast_def split: if_splits)
    qed
  qed
  show "reachable_from no_desk (desk_step env rnd) (arbitrated (do_open now w) d)" if new: "new_window (desk_locks d) w"
  proof -
    obtain lk msgs where init: "initSessionLock True True now (fresh_lock w) = (lk, msgs)" by fastforce
    then have sys: "do_open now w (desk_locks d) = run_window w (lk, msgs, False) ((desk_locks d)\<lparr>inboxes := (inboxes (desk_locks d))(w := [])\<rparr>)"
      by (simp add: do_open_def)
    show ?thesis
      unfolding arbitrated_def Let_def
    proof (rule step [OF desk_step.arbitrate])
      show "lock_step (desk_locks d) (do_open now w (desk_locks d))" unfolding sys by (rule lock_step.open_window [OF new init])
      show "set (claimed l) \<subseteq> set (claimed l')"
        if "windows (desk_locks d) u = Some l" "windows (do_open now w (desk_locks d)) u = Some l'" for u l l'
        using that new by (auto simp: sys new_window_def run_window_def broadcast_def split: if_splits)
    qed
  qed
  show "reachable_from no_desk (desk_step env rnd) (rendered w scr d)"
    if "windows (desk_locks d) w \<noteq> None" "screen_step env rnd (desk_screens d w) scr"
    using step [OF desk_step.render [OF that]] by (auto simp: rendered_def split: prod.split)
qed

definition ex_claims :: lock_system where
  "ex_claims = do_claim ''s1'' ''b'' (do_open 2 ''b'' (do_claim ''s1'' ''a'' (do_open 1 ''a'' \<lparr>windows = \<lambda>_. None, inboxes = \<lambda>_. []\<rparr>)))"

lemma first_commit: "screen_step ex_xterm ex_rnd new_screen ex_screen_one"
proof -
  have view: "PanelLayout_view False (app ex_one) = Some (WholeTree (PLeaf \<lparr>leaf_id = ''leaf-1-7'', leaf_session = Some ''s1''\<rparr>))"
    by (simp add: PanelLayout_view_def active_layout_def layout_of_def ex_one_eq)
  have cont: "views_of (\<lambda>_. 0) (WholeTree (PLeaf \<lparr>leaf_id = ''leaf-1-7'', leaf_session = Some ''s1''\<rparr>)) = [(0, Some ''s1'')]"
    by (simp add: views_of_def shown_leaves_def)
  have "screen_step ex_xterm ex_rnd ex_blank ex_screen_one"
    using screen_step.intros [OF ex_reachable(1) view, of "\<lambda>_. 0" ex_blank ex_xterm darkTerminalTheme]
    by (simp add: cont ex_screen_one_def ex_blank_def empty_page_def shown_leaves_def)
  moreover have "new_screen = ex_blank" by (simp add: new_screen_def ex_blank_def)
  ultimately show ?thesis by simp
qed

lemma screens_after_same [simp]: "windows (desk_locks d) u \<noteq> None \<Longrightarrow> windows sys u \<noteq> None \<Longrightarrow> screens_after sys d u = desk_screens d u"
  "windows (desk_locks d) u = None \<Longrightarrow> screens_after sys d u = new_screen"
  by (auto simp: screens_after_def)

lemma arbitrated_screens: "desk_screens (arbitrated f d) = screens_after (f (desk_locks d)) d"
  by (simp add: arbitrated_def Let_def)

lemma ex_both_facts:
  "desk_locks ex_both = ex_claims" "reachable_from no_desk (desk_step ex_xterm ex_rnd) ex_both"
  "desk_screens ex_both ''a'' = ex_screen_one" "desk_screens ex_both ''b'' = ex_screen_one"
proof -
  let ?a = "arbitrated (do_open 1 ''a'') empty_desk"
  let ?ra = "rendered ''a'' ex_screen_one ?a"
  let ?b = "arbitrated (do_open 2 ''b'') ?ra"
  have start: "reachable_from no_desk (desk_step ex_xterm ex_rnd) empty_desk"
    by (rule reachable_start) (simp add: no_desk_def no_windows_def empty_desk_def)
  have none: "windows (desk_locks empty_desk) u = None" for u by (simp add: empty_desk_def)
  have a: "desk_screens ?a u = new_screen" for u using none by (simp add: arbitrated_screens)
  have ra: "desk_locks ?ra = do_claim ''s1'' ''a'' (do_open 1 ''a'' (desk_locks empty_desk))"
      "desk_screens ?ra = (desk_screens ?a)(''a'' := ex_screen_one)"
    using rendered_one [of ?a "''a''" ex_screen_one 0 "''s1''"] a by (simp_all add: ex_screens_eq)
  have reach_a: "reachable_from no_desk (desk_step ex_xterm ex_rnd) ?ra"
    by (intro reach_desk(3) reach_desk(2) start)
      (simp_all add: a first_commit, simp_all add: empty_desk_def new_window_def ex_run_simps)
  have b: "desk_screens ?b ''a'' = ex_screen_one" "desk_screens ?b ''b'' = new_screen"
    unfolding arbitrated_screens by (simp_all add: ra screens_after_def) (simp_all add: empty_desk_def ex_run_simps)
  show "desk_locks ex_both = ex_claims" "desk_screens ex_both ''a'' = ex_screen_one" "desk_screens ex_both ''b'' = ex_screen_one"
    using rendered_one [of ?b "''b''" ex_screen_one 0 "''s1''"] b
    by (simp_all add: ex_both_def ex_claims_def ex_screens_eq ra) (simp add: empty_desk_def)
  show "reachable_from no_desk (desk_step ex_xterm ex_rnd) ex_both"
    unfolding ex_both_def
    by (intro reach_desk(3) reach_desk(2) reach_a) (simp_all add: b first_commit ra, simp_all add: empty_desk_def new_window_def ex_run_simps)
qed

lemma ex_desk_locks:
  "desk_locks ex_desk = do_deliver 5 ''a'' (do_deliver 5 ''b'' (do_deliver 4 ''a'' (do_deliver 4 ''a'' ex_claims)))"
  by (simp add: ex_desk_def ex_both_facts)

lemma ex_desk_eq:
  "windows (desk_locks ex_desk) ''a'' = Some \<lparr>windowId = ''a'', focusTs = 1, claimed = [''s1''], owned = {},
       lock_peers = [(''b'', \<lparr>peer_focus = 2, peer_sessions = [''s1''], lastSeen = 5\<rparr>)],
       channel = True, heartbeatTimer = True, lock_initialized = True, lock_listeners = lock_events\<rparr>"
  "windows (desk_locks ex_desk) ''b'' = Some \<lparr>windowId = ''b'', focusTs = 2, claimed = [''s1''], owned = {''s1''},
       lock_peers = [(''a'', \<lparr>peer_focus = 1, peer_sessions = [''s1''], lastSeen = 5\<rparr>)],
       channel = True, heartbeatTimer = True, lock_initialized = True, lock_listeners = lock_events\<rparr>"
  "inboxes (desk_locks ex_desk) w = []" "w \<noteq> ''a'' \<Longrightarrow> w \<noteq> ''b'' \<Longrightarrow> windows (desk_locks ex_desk) w = None"
  unfolding ex_desk_locks ex_claims_def by (simp_all add: ex_run_simps)

lemma ex_desk_reachable: "reachable_from no_desk (desk_step ex_xterm ex_rnd) ex_desk"
proof -
  have 1: "windows ex_claims ''a'' \<noteq> None \<and> inboxes ex_claims ''a'' \<noteq> []"
    "windows (do_deliver 4 ''a'' ex_claims) ''a'' \<noteq> None \<and> inboxes (do_deliver 4 ''a'' ex_claims) ''a'' \<noteq> []"
    "windows (do_deliver 4 ''a'' (do_deliver 4 ''a'' ex_claims)) ''b'' \<noteq> None \<and>
       inboxes (do_deliver 4 ''a'' (do_deliver 4 ''a'' ex_claims)) ''b'' \<noteq> []"
    "windows (do_deliver 5 ''b'' (do_deliver 4 ''a'' (do_deliver 4 ''a'' ex_claims))) ''a'' \<noteq> None \<and>
       inboxes (do_deliver 5 ''b'' (do_deliver 4 ''a'' (do_deliver 4 ''a'' ex_claims))) ''a'' \<noteq> []"
    unfolding ex_claims_def by (simp_all add: ex_run_simps)
  have step: "reachable_from no_desk (desk_step ex_xterm ex_rnd) (arbitrated (do_deliver now w) d)"
    if "reachable_from no_desk (desk_step ex_xterm ex_rnd) d"
      "windows (desk_locks d) w \<noteq> None \<and> inboxes (desk_locks d) w \<noteq> []" for d w now
    using reach_desk(1) [OF that(1)] that(2) by (cases "inboxes (desk_locks d) w") auto
  show ?thesis
    unfolding ex_desk_def by (intro step ex_both_facts(2)) (simp_all only: arbitrated_locks ex_both_facts(1) 1 simp_thms)
qed

lemma ex_desk_screens:
  "sviews (desk_screens ex_desk ''a'') = [(0, Some ''s1'')]" "sviews (desk_screens ex_desk ''b'') = [(0, Some ''s1'')]"
proof -
  have keep: "desk_screens (arbitrated (do_deliver now w) d) u = desk_screens d u" if "windows (desk_locks d) u \<noteq> None" for now w d u
    using that by (auto simp: arbitrated_screens screens_after_def do_deliver_def run_window_def broadcast_def split: option.split list.split)
  have open_still: "windows (do_deliver now w sys) u \<noteq> None" if "windows sys u \<noteq> None" for now w sys u
    using that by (auto simp: do_deliver_def run_window_def broadcast_def split: option.split list.split)
  have "windows ex_claims ''a'' \<noteq> None" "windows ex_claims ''b'' \<noteq> None" unfolding ex_claims_def by (simp_all add: ex_run_simps)
  then show "sviews (desk_screens ex_desk ''a'') = [(0, Some ''s1'')]" "sviews (desk_screens ex_desk ''b'') = [(0, Some ''s1'')]"
    unfolding ex_desk_def by (simp_all only: keep open_still arbitrated_locks ex_both_facts ex_screens_eq not_False_eq_True)
qed

lemma ex_desk_settled: "delivered (desk_locks ex_desk)" "all_alive (desk_locks ex_desk)"
proof -
  show "delivered (desk_locks ex_desk)" by (simp add: delivered_def ex_desk_eq)
  show "all_alive (desk_locks ex_desk)"
    unfolding all_alive_def ex_desk_eq(3)
  proof (intro allI impI conjI ballI)
    fix w lk i
    assume w: "windows (desk_locks ex_desk) w = Some lk" "has_key i (lock_peers lk)"
    then have "w = ''a'' \<or> w = ''b''" using ex_desk_eq(4) [of w] by auto
    then show "windows (desk_locks ex_desk) i \<noteq> None"
      using w by (elim disjE) (auto simp: ex_desk_eq has_key_def split: if_splits)
  qed simp
qed

subsection \<open>Taking the session over\<close>

text \<open>A window that takes the focus after every other one it knows of owns all it claims.\<close>

lemma takeFocus_owns:
  assumes "lock_ok w lk" "\<And>i p. map_of (lock_peers lk) i = Some p \<Longrightarrow> peer_focus p < now"
  shows "owned (fst (takeFocus now lk)) = set (claimed lk)" "claimed (fst (takeFocus now lk)) = claimed lk"
  using assms by (force simp: takeFocus_def case_prod_beta recompute_fst lock_ok_def computeOwned_eq
      self_presence_def peersAsPresence_def peer_wins_def)+

text \<open>Pressing the overlay takes the focus: the window owns at once what it shows, and the overlay is gone.\<close>

lemma takeover_uncovers:
  assumes d: "reachable_from no_desk (desk_step env rnd) d" and w: "windows (desk_locks d) w = Some lk"
    and view: "(c, Some sid) \<in> set (sviews (desk_screens d w))" "sid \<noteq> []"
    and newest: "\<And>i p. map_of (lock_peers lk) i = Some p \<Longrightarrow> peer_focus p < now"
  shows "desk_step env rnd d (arbitrated (run_window w (takeFocus now lk)) d)"
    and "desk_hooks (arbitrated (run_window w (takeFocus now lk)) d) w c"
proof -
  let ?lk = "fst (takeFocus now lk)" and ?sys = "run_window w (takeFocus now lk) (desk_locks d)"
  have ok: "lock_ok w lk" by (rule sys_ok_lock [OF reachable_sys_ok [OF reachable_desk(2) [OF d]] w])
  note own = takeFocus_owns [OF ok newest]
  have wins: "windows ?sys = (windows (desk_locks d))(w \<mapsto> ?lk)" by (simp add: run_window_def broadcast_def)
  show "desk_step env rnd d (arbitrated (run_window w (takeFocus now lk)) d)"
    unfolding arbitrated_def Let_def
  proof (rule desk_step.arbitrate [OF lock_step.focus [OF w]])
    show "set (claimed l) \<subseteq> set (claimed l')" if "windows (desk_locks d) u = Some l" "windows ?sys u = Some l'" for u l l'
      using that w own(2) by (auto simp: wins split: if_splits)
  qed
  note hook = panel_hook [OF d w view(1)]
  have so: "truthy (Some sid)" using view(2) by (simp add: truthy_def)
  have sid: "sid \<in> owned ?lk" using hook(2) [OF so] own(1) by simp
  have "map_of (sviews (desk_screens d w)) c = Some (Some sid)"
    using reachable_desk(1) [OF d] view(1) by (simp add: desk_ok_def)
  then show "desk_hooks (arbitrated (run_window w (takeFocus now lk)) d) w c"
    using hook(1) so sid w
    by (auto simp: arbitrated_def hooks_after_def wins run_listeners_def useSessionOwned_def ownsSession_def Let_def)
qed

end
