(* ===== verification/Spec2Isabelle.thy ===== *)
theory Spec2Isabelle
  imports Theming LockProgress PanelSpec Widgets AppShell Attachment TerminalViews Clipboard ViewFacts Reload Messages PageEffects LockTiming Desk
begin

text \<open>
  A verification library for the web front end of mansio (\<open>src/frontend/src\<close>, TypeScript): terminals grouped in
  workspaces and shown in a tree of panels, each attached over a WebSocket to a tmux session of the server.

  \<^bold>\<open>The program's parts and the theories that model them\<close>

    \<^item> \<open>JsPrelude\<close>: what is used of JavaScript itself (truthiness, objects as association lists with the
      enumeration order of their keys, number rendering), the collections of hints, the locale
      \<open>invariant_system\<close> of transition systems with an invariant, and \<open>refining_system\<close>, a system seen as another one.
    \<^item> \<open>PanelLayout\<close>, \<open>PanelSplit\<close>: \<open>lib/panelLayout.ts\<close>, the tree of panels and every operation on it.
    \<^item> \<open>PanelPersistence\<close>: \<open>lib/panelPersistence.ts\<close> and the validator of saved trees, over parsed JSON.
    \<^item> \<open>AppState\<close>, \<open>AppStore\<close>: \<open>stores/appStore.ts\<close> and \<open>types/index.ts\<close>. The record \<open>world\<close> is the store's state, the
      idle tracker with the browser's timers, and the counter behind panel ids. An asynchronous action is
      split at its \<open>await\<close>s (\<open>_call\<close>, \<open>_response\<close>, \<open>_finish\<close>) and takes the server's replies, so that steps
      interleave as they do in a browser.
    \<^item> \<open>AppInvariant\<close>, \<open>AppTracker\<close>, \<open>AppReach\<close>, \<open>AppEffects\<close>, \<open>AppExample\<close>: the invariants of the store and of the tracker under
      every action, the step relation \<open>app_step\<close> and the reachable worlds, results of the actions in closed
      form, and a concrete run.
    \<^item> \<open>Reload\<close>: the store with its subscriber (\<open>main.tsx\<close>) and the storage that outlives its pages (\<open>browse_step\<close>).
    \<^item> \<open>SessionLock\<close>, \<open>LockProgress\<close>, \<open>LockTiming\<close>: \<open>lib/sessionLock.ts\<close>, which of several windows may hold a session: one
      window, any number of windows with the queues of the \<open>BroadcastChannel\<close> (\<open>lock_step\<close>), the end of every exchange, and
      the same windows with a clock (\<open>timed_step\<close>), which refine those without one.
    \<^item> \<open>DragDrop\<close>: \<open>lib/dropZone.ts\<close> and the drop handler of \<open>App.tsx\<close>. \<open>PanelSpec\<close>: the abstract board that the panel
      actions of the store refine (locale \<open>simulation\<close>).
    \<^item> \<open>Theming\<close>: \<open>lib/theme.ts\<close>, \<open>lib/contrast.ts\<close>, \<open>stores/themeStore.ts\<close> and the values of \<open>hooks/useEffectiveTheme.ts\<close>.
      \<open>PageEffects\<close>: that hook in every component and the document it writes to (\<open>theme_step\<close>), polling and visibility of \<open>App.tsx\<close>.
    \<^item> \<open>ApiClient\<close>: \<open>api/client.ts\<close> and \<open>api/upload.ts\<close>. \<open>Terminal\<close>: \<open>hooks/useTerminal.ts\<close>, one connection as a record of its
      instance and of the sockets, requests and timers the browser holds for it. \<open>Messages\<close>: what its sockets receive,
      written to the terminal and reported to the store.
    \<^item> \<open>AppShell\<close>: the rest of \<open>App.tsx\<close>, \<open>LoginForm.tsx\<close> and \<open>useMediaQuery.ts\<close>. \<open>Widgets\<close>: the decisions of the React
      components \<open>PanelLayout\<close>, \<open>PanelLeaf\<close>, \<open>TabBar\<close>, \<open>Sidebar\<close>, \<open>ToastContainer\<close>, \<open>TerminalView\<close>, \<open>MobileInputBar\<close> and \<open>shiftEnter.ts\<close>.
    \<^item> \<open>Attachment\<close>: the lock and the terminals of all windows composed: a terminal follows the verdicts of its window's lock
      and claims the session when it is mounted. \<open>TerminalViews\<close>: the rest of \<open>useTerminal.ts\<close> and the effects of
      \<open>TerminalView.tsx\<close>, the cached terminal elements moving between the containers of the panels, composed with the store
      (\<open>screen_step\<close>: a commit of any reachable world). \<open>Clipboard\<close>: its text encodings and the sequence OSC 52.
    \<^item> \<open>Desk\<close>: all of it together, every window with its lock, its terminals in the panels of its store and the hook
      \<open>useSessionOwned\<close> behind the overlay (\<open>desk_step\<close>), and the page that \<open>main.tsx\<close> starts (\<open>main_page\<close>).
    \<^item> \<open>Styles\<close>, \<open>Views\<close>: what \<open>App.tsx\<close> and every component return, element by element, one definition per style object and one
      per component or part of it, over the store, the component's own state and the callbacks it is given (\<open>ui_action\<close>).
      \<open>ViewFacts\<close>: reading these trees, and where an event in them goes.

  The components interact as in the code: the store calls the panel tree and the persistence; a terminal asks the
  lock whether this window owns its session (\<open>owns\<close>), is told of changes (\<open>ownership_changed\<close>) and tells the store of
  output (\<open>markSessionOutput\<close>); the widgets call the store, the terminal and the uploads.

  \<^bold>\<open>What is shown\<close>

    \<^item> Store: every reachable world has well-formed layouts, a focused panel in each, an active session that is
      what the focused panel shows, no leaked timer, and no action that throws a \<open>TypeError\<close>; marks of unread
      output appear only after a background burst has gone idle; the effect of every user action on every branch.
    \<^item> Panels: splitting, removing and validating trees; a reload brings the layouts back; all sequences
      of panel actions refine the board.
    \<^item> Lock: once messages are delivered at most one window owns a session, and exactly the one focused last when nobody
      is remembered who crashed; deliveries end in every order and lead to such a state; with beats and messages on time no
      open window is dropped, and twelve seconds after a crash the session has its owner.
    \<^item> Terminal: one live socket and no standstill while the window keeps its session, at most one pending
      reconnect with bounded delay, no activity while another window owns the session, composed text sent once; among
      all windows at most one socket of a session; text sent and copied back is the same text.
    \<^item> Screen: after every commit each panel holds its session's terminal and nothing else; the panels drawn are the leaves of
      the layout with the accent on the focused one; presses and clicks reach the handler they are aimed at only;
      every button has a name; the page shows one theme; of all windows the overlay covers a session in those that do not own it.
    \<^item> Shell and widgets: signing in, uploads, toasts, phone input, drop targets, sizes fed back by the resize library.

  A property that fails is stated as it is: \<open>deleteSession_late\<close>, \<open>ownership_lost_during_request\<close>, the last parts of
  \<open>login_reply_effect\<close>, \<open>mobile_send_effect\<close>, \<open>throttled_window_shares_session\<close>, \<open>drop_targets_agree\<close>, and of \<open>panel_press\<close> the part on the overlay.

  \<^bold>\<open>Conventions and bounds\<close>

  No definition uses fuel: recursion is structural or has a measure (the validator: the size of the value).
  \<open>None\<close> is \<open>null\<close> or \<open>undefined\<close>; an exception is \<open>Throws\<close>, \<open>Inl\<close> or \<open>None\<close>. \<open>Math.random\<close>, the clock, server replies,
  \<open>JSON.parse\<close> and \<open>JSON.stringify\<close> are parameters; a round trip through storage assumes that parsing what was
  stringified gives the value back. Doubles (panel sizes, pointer coordinates, widths, delays before rounding)
  are rationals, so rounding errors are not covered. Splitting a panel assumes that the two new random
  ids are not in use (\<open>fresh_split\<close>); ids of windows are assumed new. In \<open>lock_step\<close> a heartbeat drops only windows that are
  gone: \<open>timed_step\<close> has no such condition, and \<open>heartbeats_keep_open_windows\<close> shows it when intervals are late by \<open>slack\<close> and
  messages by \<open>delay\<close> at most, together up to four seconds, the six of the timeout less one beat. Strings are lists of 8-bit
  characters; labels with other characters are written out.

  \<^bold>\<open>Not modelled\<close>

  React's reconciliation (a commit takes the components' results), what the browser makes of styles, xterm and its
  addons (that opening a terminal appends its element is an assumption), the browser's copy command, the drag and resize
  libraries (their elements are elements like others, their callbacks are the events); the Go server, tmux and the
  database (their replies are parameters); the text of JSON; runs of two windows that save their layouts under the
  same key, of which the last one wins (\<open>last_window_wins\<close>); a component that misses a change of the system's theme between its first render
  and its effects; a page that comes back from the back-forward cache after \<open>pagehide\<close>; the counter of panel ids when
  \<open>init\<close> throws half way. \<open>Terminal\<close> follows one instance: a session mounted again after its disposal has another
  one. Steady runs of a terminal leave out the time between the start and the end of a closing handshake, in which a
  pending reconnect may open a second socket. \<open>Attachment\<close> leaves out terminals that are disposed and changes of
  ownership during a ticket request, which can put two windows on one session. Style sheets,
  tests, build and deployment files have no logic of their own.
\<close>

section \<open>The store in every reachable world\<close>

text \<open>
  C1: in every reachable world each workspace with a layout has a well-formed one (splits have at
  least two children and one size per child, no two nodes share an id), it shows no session twice,
  and its recorded focus names one of its leaves.
\<close>

theorem reachable_layout_consistent:
  assumes "reachable_world rnd w" "layout_of (app w) wid = Some t"
  shows "arity_ok t \<and> distinct (node_ids t) \<and> distinct (listVisibleSessionIds t) \<and>
    (\<exists>f. focus_of (app w) wid = Some f \<and> findLeafById t f \<noteq> None)"
  using reachable_store [OF assms(1)] layouts_okD [OF store_okD(1), of "app w" wid t] assms(2)
  by (auto simp: layout_of_def focus_of_def tree_ok_def findLeafById_None)

theorem reachable_layout_consistent_witness:
  "arity_ok ex_closed_tree \<and>
    (\<exists>f. focus_of (app ex_two) ''w1'' = Some f \<and> findLeafById ex_closed_tree f \<noteq> None)"
  using reachable_layout_consistent [OF ex_reachable(3), of "''w1''" ex_closed_tree]
  by (simp add: ex_two_eq layout_of_def)

text \<open>
  C2: whenever the active workspace has a layout, \<open>activeSessionId\<close> is the session of its focused
  leaf, after every action, response and timer in any order.
\<close>

theorem reachable_active_session:
  assumes "reachable_world rnd w" "active_layout (app w) = Some (wid, t)"
  shows "\<exists>f l. focus_of (app w) wid = Some f \<and> findLeafById t f = Some l \<and>
    activeSessionId (app w) = leaf_session l"
  using reachable_focus [OF assms] by blast

theorem reachable_active_session_witness:
  "\<exists>f l. focus_of (app ex_two) ''w1'' = Some f \<and> findLeafById ex_closed_tree f = Some l \<and>
    activeSessionId (app ex_two) = leaf_session l"
  by (rule reachable_active_session [OF ex_reachable(3)])
    (simp add: ex_two_eq active_layout_def layout_of_def)



text \<open>
  C4: a session becomes unread only when the idle timer of that session fires, after a burst of at
  least 500 ms whose last output lies 1500 ms before the due time, while the session is not visible in the
  active workspace or the document is hidden. No other action marks a session unread.
\<close>

theorem unread_only_after_idle_burst:
  assumes "reachable_world rnd w" "app_step rnd w w'"
    and "sessionUnread (app w') x" "\<not> sessionUnread (app w) x"
  shows "\<exists>doc h p b. w' = fire_timer doc h w \<and> map_of (timers (track w)) h = Some p \<and> tm_session p = x \<and>
    map_of (busyTrack (track w)) x = Some b \<and> tm_due p = lastByteAt b + 1500 \<and>
    500 \<le> lastByteAt b - startedAt b \<and>
    (\<not> isSessionVisibleInActiveWorkspace (app w) x \<or> doc = Hidden)"
proof -
  obtain doc h where f: "w' = fire_timer doc h w"
    using step_new_unread [OF assms(2-4)] by blast
  then obtain p where p: "map_of (timers (track w)) h = Some p"
    using assms(3,4) fire_timer_None by fastforce
  have "sessionUnread (app (fire_timer doc h w)) x" using assms(3) f by simp
  from fire_timer_new_unread [OF reachable_tracker [OF assms(1)] p assms(4) this]
  obtain b where "x = tm_session p" "map_of (busyTrack (track w)) x = Some b"
    "tm_due p = lastByteAt b + 1500" "500 \<le> lastByteAt b - startedAt b"
    "\<not> isSessionVisibleInActiveWorkspace (app w) x \<or> doc = Hidden"
    by (auto simp: IDLE_MS_def MIN_BUSY_MS_def)
  with f p show ?thesis by (intro exI [of _ doc] exI [of _ h] exI [of _ p] exI [of _ b]) simp
qed

theorem unread_only_after_idle_burst_witness:
  "\<exists>doc h p. ex_unread = fire_timer doc h ex_busy \<and> map_of (timers (track ex_busy)) h = Some p \<and>
    tm_session p = ''s9'' \<and> tm_due p = 2400"
  using unread_only_after_idle_burst [OF ex_later_reachable(2) ex_later_reachable(3) ex_unread_eq(2,3)]
  by (auto simp: ex_busy_eq split: if_splits)



text \<open>
  C6: no timer leaks: in every reachable world a pending timer belongs to a session whose burst is
  being tracked and is due 1500 ms after its last output, and a session has at most one.
\<close>

theorem no_leaked_timers:
  assumes "reachable_world rnd w" "map_of (timers (track w)) h = Some p"
  shows "(\<exists>b. map_of (busyTrack (track w)) (tm_session p) = Some b \<and> tm_due p = lastByteAt b + 1500) \<and>
    (\<forall>h' p'. map_of (timers (track w)) h' = Some p' \<and> tm_session p' = tm_session p \<longrightarrow> h' = h)"
  using tracker_okD(1) [OF reachable_tracker [OF assms(1)]] assms(2)
  by (auto simp: IDLE_MS_def) (metis option.inject)

theorem no_leaked_timers_witness:
  "\<exists>b. map_of (busyTrack (track ex_busy)) ''s9'' = Some b \<and> (2400::int) = lastByteAt b + 1500"
  using no_leaked_timers [OF ex_later_reachable(2), of 2 "\<lparr>tm_session = ''s9'', tm_due = 2400\<rparr>"]
  by (simp add: ex_busy_eq)


section \<open>One live connection per session across windows\<close>




section \<open>The windows settle\<close>

text \<open>
  C8: When only the channel acts, the exchange of messages ends in every order of deliveries, from every
  reachable state: answering a newcomer never starts an endless exchange of greetings, and a state with
  every message delivered is reached.
\<close>

theorem lock_deliveries_terminate:
  assumes "reachable_windows sys"
  shows "(\<forall>f. f 0 = sys \<longrightarrow> (\<exists>i. \<not> deliver_step (f i) (f (Suc i)))) \<and>
    (\<exists>sys'. deliver_step\<^sup>*\<^sup>* sys sys' \<and> reachable_windows sys' \<and> delivered sys') \<and>
    (\<not> delivered sys \<longrightarrow> (\<exists>sys'. deliver_step sys sys'))"
  using deliveries_end [OF assms] undelivered_step by blast

theorem lock_deliveries_terminate_witness:
  "\<not> delivered ex_undelivered \<and> (\<exists>sys'. deliver_step ex_undelivered sys') \<and>
   (\<exists>sys'. deliver_step\<^sup>*\<^sup>* ex_undelivered sys' \<and> delivered sys')"
proof -
  have "''a'' \<in> dom (windows ex_undelivered)" using ex_undelivered_eq(1) by simp
  then have "\<not> delivered ex_undelivered" using ex_undelivered_eq(2) unfolding delivered_def domIff by blast
  then show ?thesis
    using lock_deliveries_terminate [OF ex_undelivered_reachable, THEN conjunct2] by (elim conjE exE) blast
qed



section \<open>The windows in time\<close>

text \<open>
  C10: A heartbeat never drops a window that is there: as long as the two-second intervals are late by \<open>slack\<close> at most,
  messages are under way for \<open>delay\<close> at most, and both together are at most four seconds, no open window is ever stale
  for another, and the windows with their clock take only steps of the windows without one, so that all that is shown of
  those holds. Such windows never block: time can always pass without any of them leaving.
\<close>

theorem heartbeats_keep_open_windows:
  assumes "0 \<le> slack" "0 \<le> delay" "slack + delay \<le> 4000"
    and "reachable_from no_timed (timed_step (HEARTBEAT_MS + slack) delay) ts"
  shows "reachable_windows (lsys ts) \<and>
    (\<forall>w v lk. windows (lsys ts) w = Some lk \<and> windows (lsys ts) v \<noteq> None \<longrightarrow> v \<notin> set (stale_peers (clock ts) lk)) \<and>
    (1 \<le> delay \<longrightarrow> (\<exists>ts'. (timed_step (HEARTBEAT_MS + slack) delay)\<^sup>*\<^sup>* ts ts' \<and> clock ts' = clock ts + 1 \<and>
       dom (windows (lsys ts')) = dom (windows (lsys ts))))"
proof -
  note time = on_time_beats [OF assms(1-3)]
  have "1 \<le> HEARTBEAT_MS + slack" using assms(1) by (simp add: HEARTBEAT_MS_def)
  then have "1 \<le> delay \<Longrightarrow> \<exists>ts'. (timed_step (HEARTBEAT_MS + slack) delay)\<^sup>*\<^sup>* ts ts' \<and> clock ts' = clock ts + 1 \<and>
      dom (windows (lsys ts')) = dom (windows (lsys ts))"
    by (rule clock_advances [OF time assms(4)])
  then show ?thesis using reachable_timed(2) [OF time assms(4)] timed_open_not_stale [OF time assms(4)] by blast
qed

theorem heartbeats_keep_open_windows_witness:
  "reachable_windows (lsys ex_crashed) \<and> (\<exists>ts'. (timed_step 2100 500)\<^sup>*\<^sup>* ex_crashed ts' \<and> clock ts' = 8701)"
  using heartbeats_keep_open_windows [of 100 500 ex_crashed] ex_crashed_reachable
  by (auto simp: HEARTBEAT_MS_def ex_crashed_eq two_fields)




section \<open>All windows and their panels\<close>



section \<open>What the panels promise\<close>

text \<open>
  C14: Any sequence of panel actions on the active workspace (assigning, focusing, splitting, closing, resizing,
  showing a session) refines the same sequence of steps of a board, which knows neither trees nor sizes nor how
  ids are made: a row of slots and a cursor, no session in two slots; the active session is always what the slot under the
  cursor shows; and where no new slot is needed the board allows nothing but what the store does next.
\<close>

theorem panels_refine_board:
  assumes "op_ready rnd w" "runs (op_step rnd) ops w w'"
  shows "runs board_step ops (board_of (app w)) (board_of (app w')) \<and>
    board_ok (board_of (app w')) \<and>
    map_of (slots (board_of (app w'))) (cursor (board_of (app w'))) = Some (activeSessionId (app w')) \<and>
    (\<forall>opn w'' b. op_step rnd opn w' w'' \<and> board_step opn (board_of (app w')) b \<and> (\<forall>p d pl. opn \<noteq> Split p d pl) \<and>
       (\<forall>p. opn = Close p \<longrightarrow> slot_ids (board_of (app w')) \<noteq> [p]) \<longrightarrow> b = board_of (app w''))"
proof -
  note run = panels.run_simulates [OF assms]
  have "board_ok (board_of (app w'))"
    using boards.run_view_aok [OF assms(1) ready_board_ok [OF assms(1)] assms(2)] .
  then show ?thesis using run board_active [of rnd w'] board_decides [of rnd w'] by blast
qed

theorem panels_refine_board_witness:
  "board_of (app ex_two) = \<lparr>slots = [(''leaf-1-7'', Some ''s1''), (''leaf-2-7'', Some ''s2'')], cursor = ''leaf-2-7''\<rparr> \<and>
   runs board_step [Focus ''leaf-1-7'', Close ''leaf-2-7''] (board_of (app ex_two))
     (board_of (app (do_op ex_rnd (Close ''leaf-2-7'') (do_op ex_rnd (Focus ''leaf-1-7'') ex_two))))"
proof -
  have "op_ready ex_rnd ex_two"
    using ex_reachable(3) by (simp add: op_ready_def ex_two_eq active_layout_def layout_of_def)
  moreover have "runs (op_step ex_rnd) [Focus ''leaf-1-7'', Close ''leaf-2-7''] ex_two
      (do_op ex_rnd (Close ''leaf-2-7'') (do_op ex_rnd (Focus ''leaf-1-7'') ex_two))"
    by (simp add: op_step_def)
  ultimately have "runs board_step [Focus ''leaf-1-7'', Close ''leaf-2-7''] (board_of (app ex_two))
     (board_of (app (do_op ex_rnd (Close ''leaf-2-7'') (do_op ex_rnd (Focus ''leaf-1-7'') ex_two))))"
    using panels_refine_board by blast
  moreover have "board_of (app ex_two) =
      \<lparr>slots = [(''leaf-1-7'', Some ''s1''), (''leaf-2-7'', Some ''s2'')], cursor = ''leaf-2-7''\<rparr>"
    by (simp add: board_of_def ex_two_eq ex_closed_tree_def active_layout_def layout_of_def focus_of_def)
  ultimately show ?thesis by blast
qed

section \<open>What the user's actions do\<close>





text \<open>
  C17: closing a panel removes exactly its leaf: the other leaves keep their order and sessions, and a
  focus on another panel stays there. Closing the only panel leaves one empty leaf. The session the
  panel showed is no longer visible, listed, or announced by a toast.
\<close>

theorem closePanel_effect:
  assumes "reachable_world rnd w" "active_layout (app w) = Some (wid, t)"
    and "findLeafById t panelId = Some leaf"
  shows "\<exists>w' t' f. closePanel_finish rnd panelId (leaf_session leaf) w = Done w' \<and>
    layout_of (app w') wid = Some t' \<and> focus_of (app w') wid = Some f \<and> f \<in> set (leaf_ids t') \<and>
    (if leaf_ids t = [panelId] then \<exists>i. t' = PLeaf \<lparr>leaf_id = i, leaf_session = None\<rparr>
     else listLeaves t' = [l \<leftarrow> listLeaves t. leaf_id l \<noteq> panelId] \<and> arity_ok t' \<and> sizes_ok t' \<and>
       (focus_of (app w) wid \<noteq> Some panelId \<longrightarrow> focus_of (app w') wid = focus_of (app w) wid)) \<and>
    (\<forall>sid. leaf_session leaf = Some sid \<and> sid \<noteq> [] \<longrightarrow>
       sid \<notin> set (listVisibleSessionIds t') \<and> (\<forall>x \<in> set (sessions_of (app w') wid). s_id x \<noteq> sid) \<and>
       (\<forall>x \<in> set (toasts (app w')). t_sessionId x \<noteq> sid))"
  by (rule closePanel_result [OF reachable_store [OF assms(1)] assms(2,3)])

theorem closePanel_effect_witness:
  "\<exists>w' t'. closePanel_finish ex_rnd ''leaf-2-7'' (Some ''s2'') ex_two = Done w' \<and>
    layout_of (app w') ''w1'' = Some t' \<and> map leaf_id (listLeaves t') = [''leaf-1-7'']"
  using closePanel_effect [OF ex_reachable(3), of "''w1''" ex_closed_tree "''leaf-2-7''"
      "\<lparr>leaf_id = ''leaf-2-7'', leaf_session = Some ''s2''\<rparr>"]
  by (auto simp: ex_two_eq active_layout_def layout_of_def ex_closed_tree_def leaf_ids_simps)





text \<open>
  C20: Deleting a workspace leaves nothing of it: no entry, layout, focus or session list, and for each of its sessions no
  activity, toast, tracked burst or pending timer; the other workspaces keep theirs. The first workspace that is left
  becomes the active one, also when the deleted one was in the background.
\<close>

theorem deleteWorkspace_effect:
  assumes "reachable_world rnd w" "workspaces (app w) = xs @ gone # ys" "ws_id gone = wid"
    and "\<forall>x \<in> set (xs @ ys). ws_id x \<noteq> wid"
  shows "\<exists>w'. deleteWorkspace wid (Resolved b) w = Done w' \<and> workspaces (app w') = xs @ ys \<and>
    layout_of (app w') = (layout_of (app w))(wid := None) \<and> focus_of (app w') = (focus_of (app w))(wid := None) \<and>
    activeWorkspaceId (app w') = (case xs @ ys of [] \<Rightarrow> None | x # _ \<Rightarrow> Some (ws_id x)) \<and>
    (\<forall>s \<in> set (sessions_of (app w) wid). map_of (sessionActivity (app w')) (s_id s) = None \<and>
      (\<forall>t \<in> set (toasts (app w')). t_sessionId t \<noteq> s_id s) \<and> map_of (busyTrack (track w')) (s_id s) = None \<and>
      (\<forall>h p. map_of (timers (track w')) h = Some p \<longrightarrow> tm_session p \<noteq> s_id s)) \<and>
    sessions_of (app w') wid = [] \<and> (\<forall>k. k \<noteq> wid \<longrightarrow> sessions_of (app w') k = sessions_of (app w) k)"
proof -
  let ?gone = "map s_id (sessions_of (app w) wid)"
  let ?w = "outcome_state (deleteWorkspace wid (Resolved b) w)"
  note f = deleteWorkspace_fields [of wid b w] and ts = deleteWorkspace_toasts [of wid b w]
  have left: "filter (\<lambda>x. ws_id x \<noteq> wid) (workspaces (app w)) = xs @ ys"
    using assms(3,4) by (simp add: assms(2) filter_id_conv)
  have "tm_session p \<notin> set ?gone" if "map_of (timers (track ?w)) h = Some p" for h p
    using fold_cancel_timers [OF reachable_tracker [OF assms(1)] that [unfolded f(4)]] by blast
  then have gone: "\<forall>s \<in> set (sessions_of (app w) wid). map_of (sessionActivity (app ?w)) (s_id s) = None \<and>
      (\<forall>t \<in> set (toasts (app ?w)). t_sessionId t \<noteq> s_id s) \<and> map_of (busyTrack (track ?w)) (s_id s) = None \<and>
      (\<forall>h p. map_of (timers (track ?w)) h = Some p \<longrightarrow> tm_session p \<noteq> s_id s)"
    unfolding f(4,5) ts by (auto simp: map_of_fold_obj_del fold_cancel_tracked)
  show ?thesis
    by (rule exI [of _ ?w], intro conjI gone f(1))
      (simp_all add: f(2,3,6-8) left layout_of_def focus_of_def sessions_of_def fun_eq_iff)
qed

theorem deleteWorkspace_effect_witness:
  "\<exists>w'. deleteWorkspace ''w1'' (Resolved True) ex_other = Done w' \<and> activeWorkspaceId (app w') = Some ''w2'' \<and>
    layout_of (app w') ''w1'' = None"
proof -
  have wss: "workspaces (app ex_other) = [] @ ex_workspace # [ex_workspace\<lparr>ws_id := ''w2''\<rparr>]"
    by (simp add: ex_other_def createWorkspace_def createLeaf_None with_app_def ex_two_eq)
  show ?thesis
    using deleteWorkspace_effect [OF ex_other_reachable wss, of "''w1''" True] by (auto simp: ex_workspace_def)
qed



section \<open>Terminal connections\<close>



text \<open>
  C23: Whatever happens to a terminal, in any order, at most one reconnect is pending, it is the one
  whose handle the instance holds (so that clearing the handle cancels it), and its delay is between 400 ms
  and 12 s: the floor of 250 ms the code takes the maximum with is never reached.
\<close>

theorem reconnect_backoff_bounds:
  assumes "reachable_from is_new term_step c"
  shows "length (reconnects c) \<le> 1 \<and>
    (\<forall>(t, delay) \<in> set (reconnects c). reconnectTimer c = Some t \<and> 400 \<le> delay \<and> delay \<le> 12000)"
  using reachable_conn_ok(2) [OF assms] by (auto simp: reconnect_ok_def)

theorem reconnect_backoff_bounds_witness:
  "map snd (reconnects ex_retry) = [500] \<and> length (reconnects ex_retry) \<le> 1"
  using reconnect_backoff_bounds [OF steady_reachable_term [OF ex_conn_reachable(3)]] ex_retry_reconnects by blast



text \<open>
  C25: The same loss with a ticket request in flight does not hold: the reply opens a socket although
  another window owns the session, since the code asks for ownership before the request only.
\<close>

theorem ownership_lost_during_request:
  assumes "cached c" "requestWebSocketTicket res \<noteq> None"
  shows "\<not> owns (ticket_reply r res (ownership_changed False c)) \<and>
    live (ticket_reply r res (ownership_changed False c)) (nextSock c)"
  using lose_session_race [OF assms] by blast

theorem ownership_lost_during_request_witness:
  "requests ex_mounted = 1 \<and> live (ticket_reply 0 ex_ticket (ownership_changed False ex_mounted)) 0"
  using ownership_lost_during_request [of ex_mounted ex_ticket 0]
  by (simp add: ex_mounted_eq ex_ticket_ok new_conn_def)

text \<open>
  C26: Text composed with an input method reaches the shell exactly once: what xterm reports while composing
  and within 50 ms of the end is dropped, the final text is sent by the end of the composition, and what
  is typed afterwards is sent as usual.
\<close>

theorem composition_sent_once:
  assumes "inst_ws c = Some h" "socks c h = SOpen" "txt \<noteq> []"
    and "\<forall>x \<in> set echoes. snd x < now + 50" "now + 50 \<le> later"
  shows "outbox (onData key later (type_inputs echoes (compositionend txt now (type_inputs jamo (compositionstart c)))))
    = outbox c @ [(h, Data txt), (h, Data key)]"
proof -
  have jamo: "type_inputs jamo (compositionstart c) = compositionstart c"
    by (rule composing_inputs) (simp add: compositionstart_def)
  have echo: "type_inputs echoes (compositionend txt now d) = compositionend txt now d" for d
    by (rule suppressed_inputs) (use assms(4) in \<open>simp add: compositionend_def Let_def\<close>)
  show ?thesis
    unfolding jamo echo using assms(1-3,5)
    by (simp add: compositionend_def compositionstart_def onData_def send_frame_open Let_def)
qed

theorem composition_sent_once_witness:
  "outbox (onData ''x'' 160 (type_inputs [(''han'', 120)] (compositionend ''han'' 100
     (type_inputs [(''h'', 90), (''ha'', 95)] (compositionstart ex_linked)))))
   = [(0, Data ''han''), (0, Data ''x'')]"
  using composition_sent_once [of ex_linked 0 "''han''" "[(''han'', 120)]" 100 160 "''x''" "[(''h'', 90), (''ha'', 95)]"]
  by (simp add: ex_linked_eq new_conn_def)

text \<open>
  C27: Whatever panels are split, closed, moved, refilled or shown on a phone, after every commit each panel's
  container holds the terminal of the panel's session and nothing else, and an empty panel's container holds nothing; no
  terminal is in two places. A terminal shown has its input listeners bound exactly once however often it moved,
  the current theme, and an input field that is locked exactly on a phone. The one thing taken from xterm is that opening a
  terminal appends its element to the container.
\<close>

theorem terminals_in_their_panels:
  assumes "xterm_appends env" "reachable_from blank_screen (screen_step env rnd) s"
  shows "(\<forall>(c, sid) \<in> set (sviews s). childNodes (spage s) c = (if truthy sid then [the sid] else [])) \<and>
    (\<forall>(c, sid) \<in> set (sviews s). truthy sid \<longrightarrow> (\<exists>inst. map_of (instances (spage s)) (the sid) = Some inst \<and>
       bindings inst = 1 \<and> optionsTheme inst = stheme s \<and>
       (\<forall>ta. textarea inst = Some ta \<longrightarrow> (has_key ''readonly'' ta \<longleftrightarrow> smobile s)))) \<and>
    (\<forall>sid c d. sid \<in> set (childNodes (spage s) c) \<and> sid \<in> set (childNodes (spage s) d) \<longrightarrow> c = d)"
proof -
  have ok: "screen_ok s" by (rule reachable_screen [OF assms])
  then have page: "page_ok (spage s)" and shown: "\<And>v. v \<in> set (sviews s) \<Longrightarrow> showing (stheme s) (smobile s) (spage s) v"
    by (auto simp: screen_ok_def)
  have "childNodes (spage s) c = (if truthy sid then [the sid] else [])" if "(c, sid) \<in> set (sviews s)" for c sid
    using shown [OF that] by (simp add: showing_def sess_list_def)
  moreover have "\<exists>inst. map_of (instances (spage s)) (the sid) = Some inst \<and>
       bindings inst = 1 \<and> optionsTheme inst = stheme s \<and>
       (\<forall>ta. textarea inst = Some ta \<longrightarrow> (has_key ''readonly'' ta \<longleftrightarrow> smobile s))"
    if "(c, sid) \<in> set (sviews s)" "truthy sid" for c sid
    using shown [OF that(1)] that(2) page_okD(4) [OF page] by (auto simp: showing_def sess_list_def fits_def inst_ok_def)
  moreover have "c = d" if "sid \<in> set (childNodes (spage s) c)" "sid \<in> set (childNodes (spage s) d)" for sid c d
    using that page_okD(1) [OF page, of sid] by (metis option.inject)
  ultimately show ?thesis by blast
qed

theorem terminals_in_their_panels_witness:
  "childNodes (spage ex_screen_two) 2 = [''s1''] \<and> childNodes (spage ex_screen_two) 3 = [''s2''] \<and>
   childNodes (spage ex_screen_two) 0 = [] \<and> repainted (spage ex_screen_two) = [''s1'']"
  using terminals_in_their_panels [OF _ ex_screens_reachable]
  by (simp add: ex_screens_eq xterm_appends_def ex_xterm_def)

text \<open>
  C28: Text survives the way out and back: what a program gets when text is typed or pasted (the UTF-8 bytes \<open>sendString\<close>
  sends) and puts on the clipboard through OSC 52, for any selection name, arrives there as the same text, surrogate
  pairs included, unless it starts with a byte order mark.
\<close>

theorem copied_text_survives:
  assumes "\<forall>c \<in> set cs. scalar c" "cs = [] \<or> hd cs \<noteq> 0xFEFF" "59 \<notin> set tgt"
  shows "osc52 True (tgt @ 59 # base64 (map unat (sendString_bytes (utf16 cs)))) = (True, Some (utf16 cs))"
proof -
  let ?bs = "concat (map utf8_char cs)"
  note bytes = utf8_bytes [OF assms(1)]
  have "map unat (sendString_bytes (utf16 cs)) = ?bs"
    unfolding sendString_bytes_def text_encode_utf16 [OF assms(1)] by (rule unat_bytes [OF bytes])
  moreover have "base64 ?bs \<noteq> [63]" using base64_chars [OF bytes] by auto
  ultimately show ?thesis
    using assms(3) text_decode_utf8 [OF assms(1,2)] atob_base64 [OF bytes]
    by (simp add: osc52_def osc52_payload_split Let_def)
qed

theorem copied_text_survives_witness:
  "osc52 True ([99, 59] @ base64 (map unat (sendString_bytes [104, 0x4F60, 0xD83D, 0xDE00]))) =
     (True, Some [104, 0x4F60, 0xD83D, 0xDE00])"
  using copied_text_survives [of "[104, 0x4F60, 0x1F600]" "[99]"]
  by (simp add: utf16_def scalar_def high_surrogate_def low_surrogate_def)

section \<open>What is on the screen\<close>

text \<open>
  C29: The screen shows the layout: in every reachable state a desktop window draws one panel for each leaf of the tree of
  the active workspace, in the order of the tree and each with one container for its terminal, with one separator
  less than panels, and the accent border is around exactly one of them, the focused one; a phone draws the
  focused panel alone.
\<close>

theorem panels_on_screen:
  assumes "reachable_world rnd w" "active_layout (app w) = Some (wid, t)"
  shows "\<exists>f l. focus_of (app w) wid = Some f \<and> leaf_id l = f \<and> l \<in> set (listLeaves t) \<and>
    PanelLayout_view False (app w) = Some (WholeTree t) \<and> PanelLayout_view True (app w) = Some (SinglePanel l) \<and>
    (let desktop = PanelLayout (uiFor eff) u False (app w) (WholeTree t);
         phone = PanelLayout (uiFor eff) u True (app w) (SinglePanel l)
     in concat (map (collect leaf_mark) desktop) = leaf_ids t \<and>
        length (concat (map (collect container_mark) desktop)) = length (leaf_ids t) \<and>
        Suc (length (concat (map (collect (is_tag ''Separator'')) desktop))) = length (leaf_ids t) \<and>
        concat (map (collect (accent_mark (uiFor eff))) desktop) = [f] \<and>
        concat (map (collect leaf_mark) phone) = [f] \<and> concat (map (collect container_mark) phone) = [()] \<and>
        concat (map (collect (is_tag ''Separator'')) phone) = [])"
proof -
  obtain f l where f: "focus_of (app w) wid = Some f" "findLeafById t f = Some l" "panel_ok t" "f \<noteq> []"
    using reachable_focus [OF assms] by blast
  then have l: "l \<in> set (listLeaves t)" "leaf_id l = f" by (auto simp: findLeafById_eq find_Some_iff)
  have t: "arity_ok t" "distinct (leaf_ids t)"
    using f(3) by (auto simp: panel_ok_def tree_ok_def intro: tree_ok_leaf_ids)
  have wid: "activeWorkspaceId (app w) = Some wid" "truthy (activeWorkspaceId (app w))"
    using active_layoutD [OF assms(2)] by (auto simp: truthy_def)
  have "panel_isFocused (app w) = (\<lambda>k. leaf_id l = leaf_id k)"
    using wid f(1) l(2) by (auto simp: panel_isFocused_def)
  then have "collect (accent_mark (uiFor eff)) (PanelNodeRenderer (uiFor eff) u (app w) t) = [f]"
    using panels_drawn(3) [OF accent_visible, of eff u "app w" t] one_named [of leaf_id "listLeaves t" l] t(2) l
    by (simp add: leaf_ids_def)
  moreover have "PanelLayout_view True (app w) = Some (SinglePanel l)" "PanelLayout_view False (app w) = Some (WholeTree t)"
    using f assms(2) by (simp_all add: PanelLayout_view_def truthy_def Let_def)
  ultimately show ?thesis
    using f(1) l separators_drawn [OF t(1), of "uiFor eff" u "app w"] panels_drawn(1,2) [of "uiFor eff" u "app w" t]
    by (auto simp: PanelLayout_def Let_def leaf_ids_def)
qed

theorem panels_on_screen_witness:
  "concat (map (collect leaf_mark) (PanelLayout (uiFor DarkTheme) ex_ui False (app ex_two) (WholeTree ex_closed_tree))) =
     [''leaf-1-7'', ''leaf-2-7''] \<and>
   concat (map (collect (accent_mark (uiFor DarkTheme))) (PanelLayout (uiFor DarkTheme) ex_ui False (app ex_two) (WholeTree ex_closed_tree))) =
     [''leaf-2-7'']"
proof -
  have "active_layout (app ex_two) = Some (''w1'', ex_closed_tree)" "focus_of (app ex_two) ''w1'' = Some ''leaf-2-7''"
    by (simp_all add: ex_two_eq active_layout_def layout_of_def focus_of_def)
  with panels_on_screen [OF ex_reachable(3) this(1), of DarkTheme ex_ui] show ?thesis
    by (auto simp: Let_def leaf_ids_def ex_closed_tree_def)
qed

text \<open>
  C30: A press goes where it was aimed, and nowhere else: in a panel it focuses the panel, except on the overlay of a
  session that another window holds, where it only takes the focus over, and on the toolbar of the panel.
\<close>

theorem panel_press:
  assumes "on_path p (PanelLeaf ui u m h d s node)"
  shows "fires ''onMouseDown'' p (PanelLeaf ui u m h d s node) =
    (if truthy (leaf_session node) \<and> \<not> leafOwned u (leaf_id node) \<and> take 2 p = [0, 1] then ([OnTakeFocus], True)
     else if \<not> h \<and> leafHovered u (leaf_id node) \<and> take 1 p = [1] then ([], True)
     else ([OnFocusPanel (leaf_id node)], False))"
  using press_PanelLeaf [OF assms] by (simp add: paused_view_def)

theorem panel_press_witness:
  "fires ''onMouseDown'' [0, 1, 2] (PanelLeaf darkUI ex_ui False False False (app ex_two) \<lparr>leaf_id = ''leaf-2-7'', leaf_session = Some ''s2''\<rparr>)
     = ([OnTakeFocus], True) \<and>
   fires ''onMouseDown'' [0, 0] (PanelLeaf darkUI ex_ui False False False (app ex_two) \<lparr>leaf_id = ''leaf-1-7'', leaf_session = Some ''s1''\<rparr>)
     = ([OnFocusPanel ''leaf-1-7''], False)"
proof -
  have "on_path [0, 1, 2] (PanelLeaf darkUI ex_ui False False False (app ex_two) \<lparr>leaf_id = ''leaf-2-7'', leaf_session = Some ''s2''\<rparr>)"
    "on_path [0, 0] (PanelLeaf darkUI ex_ui False False False (app ex_two) \<lparr>leaf_id = ''leaf-1-7'', leaf_session = Some ''s1''\<rparr>)"
    by (simp_all add: PanelLeaf_def TerminalView_def ex_ui_def truthy_def Let_def)
  then show ?thesis
    using panel_press by (simp add: ex_ui_def truthy_def)
qed

text \<open>
  C31: A control nested in something clickable does its own work only: the cross of a tab closes it and neither selects it nor
  starts a drag, while the rest of the tab selects it; the field that renames a workspace does not open it, while the rest of
  its row does; and the cross of a toast dismisses it without going to its session. The drag library is taken to leave
  clicks alone.
\<close>

theorem nested_controls:
  assumes "''onClick'' \<notin> fst ` set (tabListeners u (s_id (tab_session tv)))" "on_path p (DraggableTab ui u tv)"
    and "on_path q (WorkspaceRow ui sb r)" "on_path k (ToastItem ui h t)"
  shows "fires ''onClick'' p (DraggableTab ui u tv) =
      (if inside ''button'' p (DraggableTab ui u tv) then ([OnCloseTab (s_id (tab_session tv))], True)
       else ([OnSelectTab (s_id (tab_session tv))], False)) \<and>
    fires ''onPointerDown'' p (DraggableTab ui u tv) =
      (if inside ''button'' p (DraggableTab ui u tv) then ([], True)
       else own_handler ''onPointerDown'' (tabListeners u (s_id (tab_session tv)))) \<and>
    fires ''onClick'' q (WorkspaceRow ui sb r) =
      (if inside ''input'' q (WorkspaceRow ui sb r) then ([], True) else ([OnOpenWorkspace (ws_id (row_workspace r))], False)) \<and>
    fires ''onClick'' k (ToastItem ui h t) =
      (if inside ''button'' k (ToastItem ui h t) then ([OnToastDismiss (t_id t)], True) else ([OnToastClick (t_id t)], False))"
  using tab_events [OF assms(1,2)] row_events [OF assms(3)] toast_events [OF assms(4)] by blast

theorem nested_controls_witness:
  "fires ''onClick'' [2] (DraggableTab darkUI ex_ui ex_tab) = ([OnCloseTab ''s1''], True) \<and>
   fires ''onPointerDown'' [2, 0] (DraggableTab darkUI ex_ui ex_tab) = ([], True)"
proof -
  have "''onClick'' \<notin> fst ` set (tabListeners ex_ui (s_id (tab_session ex_tab)))" by (simp add: ex_ui_def)
  note tab = nested_controls [OF this _, where q = "[]" and k = "[]"]
  have "on_path [2] (DraggableTab darkUI ex_ui ex_tab)" "on_path [2, 0] (DraggableTab darkUI ex_ui ex_tab)"
    "inside ''button'' [2] (DraggableTab darkUI ex_ui ex_tab)" "inside ''button'' [2, 0] (DraggableTab darkUI ex_ui ex_tab)"
    "s_id (tab_session ex_tab) = ''s1''"
    by (simp_all add: DraggableTab_def ex_tab_def ex_session_def Let_def)
  then show ?thesis using tab by simp
qed


section \<open>Layouts across a reload\<close>

text \<open>
  C33: A reload brings the panels back: after any run of any number of page lives in one window, with a storage that takes
  writes and other code writing under other keys, start-up gives every workspace the server still lists the very tree it
  had, without the sessions that ended meanwhile, and its focused panel, as long as a session shown there is
  alive. \<open>JSON.parse\<close> is only assumed to invert \<open>JSON.stringify\<close> on the document last written.
\<close>

theorem reload_restores:
  assumes "reachable_from new_browser (browse_step rnd stringify) b" "layout_of (app (page_world b)) wid = Some t"
    and "\<And>out. layouts_to_save (app (page_world b)) (obj_keys (layoutByWorkspace (app (page_world b)))) [] = Some out \<Longrightarrow>
      stringify (layouts_file out) \<noteq> [] \<and> parse (stringify (layouts_file out)) = Some (layouts_file out)"
    and "init rnd lw nw ls ns (loadLayouts parse (page_storage b)) (page_world (open_page (page_storage b))) = Done w'"
    and "wid \<in> ws_id ` set (workspaces (app w'))" "liveIds = set (map s_id (sessions_of (app w') wid))"
    and "listVisibleSessionIds (map_leaves (keep_sessions liveIds) t) \<noteq> []"
  shows "layout_of (app w') wid = Some (map_leaves (keep_sessions liveIds) t) \<and>
    focus_of (app w') wid = focus_of (app (page_world b)) wid \<and>
    (set (listVisibleSessionIds t) \<subseteq> liveIds \<longrightarrow> layout_of (app w') wid = Some t)"
proof -
  let ?s = "app (page_world b)"
  note ok = reachable_browser(1) [OF assms(1)] reachable_store [OF reachable_browser(2) [OF assms(1)]]
  obtain f where f: "focus_of ?s wid = Some f" "f \<in> set (leaf_ids t)"
    using layouts_okD(5) [OF store_okD(1) [OF ok(2)], of wid t] assms(2) by (auto simp: layout_of_def focus_of_def)
  have saved: "map_of (loadLayouts parse (page_storage b)) wid = Some \<lparr>pl_layout = t, pl_focused = f\<rparr>"
    using load_up_to_date [OF ok assms(2,3), of wid] assms(2) f(1) by simp
  obtain c1 t' f' c2 where at: "init_layout rnd (map_of (loadLayouts parse (page_storage b)) wid)
        (known_sessions (sessions (app w')) wid) c1 = Some (t', f', c2)"
      "layout_of (app w') wid = Some t'" "focus_of (app w') wid = Some f'"
    using init_Done [OF assms(4)] init_layouts_at assms(5) unfolding layout_of_def focus_of_def by blast
  have live: "liveIds = set (map s_id (known_sessions (sessions (app w')) wid))"
    using assms(6) by (simp add: known_sessions_def sessions_of_def)
  have "t' = map_leaves (keep_sessions liveIds) t \<and> f' = f"
    using init_layout_restored [OF at(1) [unfolded saved] f(2)] assms(7) unfolding live by blast
  then show ?thesis using at f(1) keep_all_sessions [of t liveIds] by simp
qed

theorem reload_restores_witness:
  "\<exists>w'. init ex_rnd (Resolved [ex_workspace]) Rejected (\<lambda>_. Resolved [ex_session ''s1'', ex_session ''s2'']) Rejected
     (loadLayouts (\<lambda>_. Some (layouts_file ex_page_file)) (page_storage (ex_page (\<lambda>_. ''doc'')))) initial_world = Done w' \<and>
   layout_of (app w') ''w1'' = Some ex_closed_tree \<and> focus_of (app w') ''w1'' = Some ''leaf-2-7''"
proof -
  let ?b = "ex_page (\<lambda>_. ''doc'')"
  obtain w' where w': "init ex_rnd (Resolved [ex_workspace]) Rejected (\<lambda>_. Resolved [ex_session ''s1'', ex_session ''s2'']) Rejected
     (loadLayouts (\<lambda>_. Some (layouts_file ex_page_file)) (page_storage ?b)) initial_world = Done w'"
      "workspaces (app w') = [ex_workspace]" "sessions_of (app w') ''w1'' = [ex_session ''s1'', ex_session ''s2'']"
    using ex_page_restarts [OF ex_page_saved_ok] by blast
  have tree: "listVisibleSessionIds (map_leaves (keep_sessions {''s1'', ''s2''}) ex_closed_tree) \<noteq> []"
      "map_leaves (keep_sessions {''s1'', ''s2''}) ex_closed_tree = ex_closed_tree"
    by (subst keep_all_sessions; simp add: ex_tree_visible)+
  have ids: "''w1'' \<in> ws_id ` set (workspaces (app w'))" "{''s1'', ''s2''} = set (map s_id (sessions_of (app w') ''w1''))"
    using w'(2,3) by (simp_all add: ex_session_def ex_workspace_def)
  have page: "layout_of (app (page_world ?b)) ''w1'' = Some ex_closed_tree" "page_world (open_page st) = initial_world" for st
    by (simp_all add: ex_page_facts open_page_def wireLayoutPersistence_def)
  have "layout_of (app w') ''w1'' = Some ex_closed_tree \<and> focus_of (app w') ''w1'' = focus_of (app ex_two) ''w1''"
    using reload_restores [OF ex_page_reachable page(1) _ _ ids tree(1), unfolded page(2), OF _ w'(1)]
    by (simp add: ex_page_facts tree(2))
  then show ?thesis using w'(1) by (simp add: ex_two_eq focus_of_def)
qed

text \<open>
  C34: whatever text the storage holds, every layout \<open>loadLayouts\<close> returns has splits of at least two
  children with one size per child; a missing or blocked storage, an empty entry and unparsable text give
  no layouts.
\<close>

theorem loadLayouts_wellformed:
  "(\<forall>wid e. map_of (loadLayouts parse st) wid = Some e \<longrightarrow> arity_ok (pl_layout e)) \<and>
   loadLayouts parse NoStorage = [] \<and> loadLayouts parse Blocked = [] \<and>
   (map_of m layout_key = None \<or> map_of m layout_key = Some [] \<or> parse (the (map_of m layout_key)) = None \<longrightarrow>
      loadLayouts parse (Working f m) = [])"
  using loadLayouts_arity [of parse st] by (auto simp: loadLayouts_def Let_def split: option.split)

theorem loadLayouts_wellformed_witness:
  "loadLayouts (\<lambda>_. None) (Working True [(layout_key, ''{'')]) = []"
  using loadLayouts_wellformed [of "\<lambda>_. None" NoStorage "[(layout_key, ''{'')]" True] by simp


section \<open>Signing in and the application's shell\<close>



section \<open>Components\<close>



text \<open>
  C37: Dropping files pastes the paths of those the server took, in the order of the files, each followed by a
  space, shows the error of the last one that failed or none, and leaves no upload shown as running.
\<close>

theorem drop_uploads_effect:
  assumes "truthy sid" "files \<noteq> []"
  shows "onDrop shown native True sid files v =
    v\<lparr>fileDragging := False, uploadingName := None,
      errorMsg := (case filter (\<lambda>f. upload_ok (snd f) = None) files of [] \<Rightarrow> None
        | fs \<Rightarrow> Some (upload_error native (snd (last fs)))),
      pasted := pasted v @ map (\<lambda>x. shown (jprop x ''path'') @ '' '') (List.map_filter (\<lambda>f. upload_ok (snd f)) files)\<rparr>"
  using assms by (simp add: onDrop_def upload_loop Let_def split: list.splits)

theorem drop_uploads_effect_witness:
  "pasted (onDrop json_string ''failed'' True (Some ''s'')
     [(''a'', Response 200 (Some (JObject [(''path'', JString ''/tmp/a'')]))), (''b'', NetworkError)]
     \<lparr>uploadingName = None, errorMsg = None, fileDragging = True, pasted = []\<rparr>) = [''/tmp/a '']"
  using drop_uploads_effect [of "Some ''s''"
      "[(''a'', Response 200 (Some (JObject [(''path'', JString ''/tmp/a'')]))), (''b'', NetworkError)]" json_string "''failed''"
      "\<lparr>uploadingName = None, errorMsg = None, fileDragging = True, pasted = []\<rparr>"]
  by (simp add: upload_ok_def uploadFile_def res_ok_def jprop_def json_string_def map_filter_simps)


section \<open>Dragging a tab\<close>

text \<open>
  C38: dropping a tab on an edge of another panel puts a split in the panel's place, in a column for the top and
  bottom edges and in a row for the sides, with a new panel on the side of the drop that shows the session and
  nothing else does; the target keeps its session, every other panel its place, the new panel is focused and
  the session becomes active.
\<close>

theorem drop_on_edge:
  assumes "reachable_world rnd w" "fresh_split rnd w" "active_layout (app w) = Some (wid, t)"
    and "listLeaves t = xs @ target # ys" "leaf_session target \<noteq> Some sid" "sid \<noteq> []" "zone \<noteq> CenterZone"
    and "w' = handleDragEnd rnd \<lparr>ev_type = ''tab'', ev_sessionId = Some sid,
        ev_over = Some (Some (leaf_id target), Some zone)\<rparr> w"
    and "dropped = (\<lambda>i j. move_session (subst_node (leaf_id target)
        (PSplit j (if zone = TopZone \<or> zone = BottomZone then Column else Row) [50, 50]
          (if zone = TopZone \<or> zone = LeftZone then [PLeaf \<lparr>leaf_id = i, leaf_session = None\<rparr>, PLeaf target]
           else [PLeaf target, PLeaf \<lparr>leaf_id = i, leaf_session = None\<rparr>])) t) sid i)"
  shows "\<exists>i j. layout_of (app w') wid = Some (dropped i j) \<and> focus_of (app w') wid = Some i \<and>
    activeSessionId (app w') = Some sid \<and>
    map leaf_id (listLeaves (dropped i j)) = map leaf_id xs @
      (if zone = TopZone \<or> zone = LeftZone then [i, leaf_id target] else [leaf_id target, i]) @ map leaf_id ys \<and>
    map leaf_id [l \<leftarrow> listLeaves (dropped i j). leaf_session l = Some sid] = [i] \<and>
    target \<in> set (listLeaves (dropped i j))"
proof -
  note result = drop_edge_result [OF assms(1-6) _ assms(8) refl]
  show ?thesis
    using assms(7) result [of Column Before] result [of Column After] result [of Row Before] result [of Row After]
    by (cases zone) (simp_all add: assms(9) split_replacement_def pair_leaves_def)
qed

theorem drop_on_edge_witness:
  "\<exists>t' i. layout_of (app (handleDragEnd ex_rnd \<lparr>ev_type = ''tab'', ev_sessionId = Some ''s2'',
      ev_over = Some (Some ''leaf-1-7'', Some LeftZone)\<rparr> ex_one)) ''w1'' = Some t' \<and>
    map leaf_id (listLeaves t') = [i, ''leaf-1-7'']"
  using drop_on_edge [OF ex_reachable(1) ex_fresh, of "''w1''"
      "PLeaf \<lparr>leaf_id = ''leaf-1-7'', leaf_session = Some ''s1''\<rparr>" "[]"
      "\<lparr>leaf_id = ''leaf-1-7'', leaf_session = Some ''s1''\<rparr>" "[]" "''s2''" LeftZone, OF _ _ _ _ _ refl refl]
  by (force simp: ex_one_eq active_layout_def layout_of_def)

section \<open>Themes\<close>

text \<open>
  C39: both terminal palettes are readable: the foreground and each of the sixteen ANSI colours has a
  WCAG contrast ratio of at least 4.5 against the palette's background, for the exact real-valued ratio.
\<close>

theorem terminal_palettes_readable:
  "list_all (\<lambda>c. 4.5 \<le> contrastRatio c (tt_background (terminalThemeFor t))) (text_colours (terminalThemeFor t))"
proof -
  have "list_all (\<lambda>c. contrast_check 45 c (tt_background (terminalThemeFor t))) (text_colours (terminalThemeFor t))"
    using palettes_checked by (cases t) (simp_all add: terminalThemeFor_def)
  then show ?thesis
    using contrast_check_sound [of 45] by (force simp: list_all_iff)
qed


text \<open>
  C40: The page shows one theme: whatever modes are chosen, whenever the system's theme changes and whichever components come
  and go, all of them work with the same theme (the chosen one, or the system's), and as long as there is one, the
  document's color scheme, its \<open>data-theme\<close> attribute and its \<open>theme-color\<close> say the same; and a storage that takes
  writes holds the mode in use.
\<close>

theorem page_shows_one_theme:
  assumes "reachable_from fresh_themed_page theme_step tp" "systemThemes tp \<noteq> []"
    and "eff = effectiveTheme (tmode tp) (readSystemTheme (light_query tp))"
  shows "(\<forall>(i, sys) \<in> set (systemThemes tp). effectiveTheme (tmode tp) sys = eff) \<and>
    colorScheme (tdoc tp) = Some (theme_name eff) \<and> dataTheme (tdoc tp) = Some (theme_name eff) \<and>
    map_of (metas (tdoc tp)) ''theme-color'' = Some (ui_metaThemeColor (uiFor eff)) \<and>
    (\<forall>m. tstorage tp = Working False m \<longrightarrow> loadMode (tstorage tp) = tmode tp)"
  using themed.reachable_inv [OF assms(1)] assms(2,3)
  by (auto simp: theme_ok_def doc_shows_def stored_mode_ok_def page_theme_def)

theorem page_shows_one_theme_witness:
  "colorScheme (tdoc ex_themed) = Some ''light'' \<and> map_of (metas (tdoc ex_themed)) ''theme-color'' = Some ''#f6f8fa''"
  using page_shows_one_theme [OF ex_themed_reachable ex_themed_eq(4) refl]
  by (simp add: ex_themed_eq readSystemTheme_def effectiveTheme_def uiFor_def lightUI_def)

section \<open>Further facts\<close>

text \<open>
  At most five toasts are shown, and at most one per session.
\<close>

lemma reachable_toasts:
  assumes "reachable_world rnd w"
  shows "length (toasts (app w)) \<le> 5 \<and> distinct (map t_sessionId (toasts (app w)))"
  using store_okD(3) [OF reachable_store [OF assms]] by (simp add: toasts_ok_def MAX_TOASTS_def)

text \<open>
  \<open>clearWorkspaceVisibleUnread\<close>, run when the window becomes visible, leaves no session that is
  visible in the active workspace unread or announced by a toast, and stops their idle timers;
  the marks of all other sessions stay.
\<close>

lemma clearWorkspaceVisibleUnread_effect:
  assumes "reachable_world rnd w" "active_layout (app w) = Some (wid, t)"
    and "w' = clearWorkspaceVisibleUnread w"
  shows "(\<forall>x. sessionUnread (app w') x \<longleftrightarrow>
      sessionUnread (app w) x \<and> \<not> isSessionVisibleInActiveWorkspace (app w) x) \<and>
    toasts (app w') = [y \<leftarrow> toasts (app w). \<not> isSessionVisibleInActiveWorkspace (app w) (t_sessionId y)] \<and>
    (\<forall>h p. map_of (timers (track w')) h = Some p \<longrightarrow>
       \<not> isSessionVisibleInActiveWorkspace (app w) (tm_session p))"
proof -
  have vis: "isSessionVisibleInActiveWorkspace (app w) x \<longleftrightarrow> x \<in> set (listVisibleSessionIds t)" for x
    using active_layoutD [OF assms(2)] findLeafBySessionId_None [of t x]
    by (auto simp: isSessionVisibleInActiveWorkspace_def layout_of_def)
  show ?thesis
    using clear_visible_result [OF reachable_tracker [OF assms(1)] assms(2)]
    unfolding vis assms(3) by blast
qed

text \<open>
  A workspace is marked unread exactly when one of its listed sessions is.
\<close>

lemma workspaceUnread_iff:
  "workspaceUnread s wid \<longleftrightarrow> (\<exists>x \<in> set (sessions_of s wid). sessionUnread s (s_id x))"
  by (cases "map_of (sessions s) wid") (auto simp: workspaceUnread_def sessions_of_def any_unread_iff)

text \<open>
  The tree operations return the object they were given exactly when they change nothing, which
  is what the store's \<open>===\<close> tests rely on.
\<close>

lemma unchanged_object:
  "(snd (setLeafSession t i s) \<longleftrightarrow> fst (setLeafSession t i s) \<noteq> t) \<and>
   (snd (detachSession t sid) \<longleftrightarrow> fst (detachSession t sid) \<noteq> t) \<and>
   (snd (pruneSessionIds t V) \<longleftrightarrow> fst (pruneSessionIds t V) \<noteq> t) \<and>
   (snd (setSplitSizes t i sizes) \<longleftrightarrow> fst (setSplitSizes t i sizes) \<noteq> t)"
  by (simp add: rewrite_fresh_iff setSplitSizes_eq)

text \<open>
  Splitting a leaf and then removing the new leaf gives the original tree back, sizes included,
  when the new ids are fresh.
\<close>

lemma split_then_remove:
  assumes "tree_ok t" "sizes_ok t" "splitLeaf rnd t i d p None c = (Some (t', new), c')"
    and "new \<notin> set (node_ids t)" "fst (nextPanelId rnd ''split'' (c + 1)) \<notin> set (node_ids t)"
  shows "removeLeaf t' new = Some t"
proof (cases "findLeafById t i")
  case None
  then show ?thesis using assms(3) by (simp add: splitLeaf_None)
next
  case (Some target)
  note i = tree_ok_findLeaf [OF assms(1) Some]
  have "leaf_id target \<noteq> new" using i(1,2) assms(4) by (auto simp: set_node_ids)
  with assms i show ?thesis
    using splitLeaf_eq [OF Some, of rnd d p c] Some
    by (auto simp: Let_def tree_ok_def intro!: remove_split dest: distinct_leaf_ids)
qed

text \<open>
  A poll replaces the cached list of the polled workspace by the server's exactly when some
  displayed field (id, title, directory, update time) differs, and otherwise leaves the world, and so
  every subscriber, alone.
\<close>

lemma poll_effect:
  "pollActive_response wid (Resolved l) w =
     (if map (\<lambda>x. (s_id x, s_title x, s_cwd x, s_updatedAt x)) (sessions_of (app w) wid) =
         map (\<lambda>x. (s_id x, s_title x, s_cwd x, s_updatedAt x)) l
      then Done w
      else Done (w\<lparr>app := (app w)\<lparr>sessions := obj_set wid l (sessions (app w))\<rparr>\<rparr>))"
  using sessionsEqual_iff [of "sessions_of (app w) wid" l]
  by (simp add: pollActive_response_def with_app_def shown_fields_def [abs_def])

text \<open>
  Two generated panel ids are equal only when they were generated with the same prefix at the
  same count, whatever the random suffixes: within one page load no id is generated twice.
\<close>

lemma panel_ids_unique:
  assumes "CHR ''-'' \<notin> set p" "CHR ''-'' \<notin> set q"
    and "fst (nextPanelId rnd p c) = fst (nextPanelId rnd' q c')"
  shows "p = q \<and> c = c'"
  using assms by (rule nextPanelId_inject)

text \<open>
  The validator accepts the JSON of a layout exactly when every split of it has at least two
  children and one size per child, and reading that JSON back gives the layout.
\<close>

lemma validator_roundtrip:
  "(isValidPanelNode (json_of_node t) \<longleftrightarrow> arity_ok t) \<and> as_node (json_of_node t) = t"
  by (simp add: valid_json_of_node as_node_json_of_node)

text \<open>
  The arbitration is symmetric: if every window of a list with different ids arbitrates against
  all the others, each session that one of them wants is owned by exactly one.
\<close>

lemma computeOwned_exactly_one:
  assumes "distinct (map pres_window ps)" "p \<in> set ps" "sid \<in> set (pres_sessions p)"
  shows "\<exists>!q. q \<in> set ps \<and> sid \<in> computeOwned q (filter (\<lambda>r. r \<noteq> q) ps)"
proof -
  let ?S = "{q \<in> set ps. sid \<in> set (pres_sessions q)}"
  have inj: "inj_on pres_window (set ps)" using assms(1) by (simp add: distinct_map)
  then have "inj_on pres_window ?S" by (rule inj_on_subset) auto
  then obtain q where q: "q \<in> ?S" "\<forall>r \<in> ?S. r \<noteq> q \<longrightarrow> peer_wins q r"
    using strongest_exists [of ?S] assms(2,3) by auto
  have own: "sid \<in> computeOwned r (filter (\<lambda>x. x \<noteq> r) ps) \<longleftrightarrow> r = q" if "r \<in> ?S" for r
    using that q by (auto simp: computeOwned_eq dest: peer_wins_trans)
  have "r \<in> ?S" if "r \<in> set ps" "sid \<in> computeOwned r (filter (\<lambda>x. x \<noteq> r) ps)" for r
    using that by (simp add: computeOwned_eq)
  then show ?thesis using own q(1) by blast
qed

text \<open>
  A heartbeat announces the window, forgets every peer silent for more than six seconds and
  only those, and what the window owns is the arbitration over the peers that are left, so the
  sessions of a crashed window become available.
\<close>

lemma heartbeat_effect:
  assumes "reachable_windows sys" "windows sys w = Some lk"
  shows "\<exists>lk' n. heartbeat now lk = (lk', [Presence w (focusTs lk) (claimed lk)], n) \<and>
    (\<forall>i. map_of (lock_peers lk') i = (case map_of (lock_peers lk) i of None \<Rightarrow> None
       | Some p \<Rightarrow> if lastSeen p < now - 6000 then None else Some p)) \<and>
    owned lk' = {sid \<in> set (claimed lk). \<forall>i p. map_of (lock_peers lk') i = Some p \<and> sid \<in> set (peer_sessions p) \<longrightarrow>
      \<not> (peer_focus p > focusTs lk \<or> (peer_focus p = focusTs lk \<and> i > w))}"
proof -
  have ok: "lock_ok w lk" using sys_ok_lock [OF reachable_sys_ok [OF assms(1)] assms(2)] .
  obtain lk' ms n where h: "heartbeat now lk = (lk', ms, n)" by (cases "heartbeat now lk")
  have ok': "lock_ok w lk'" using lock_ok_heartbeat [OF ok, of now] by (simp add: h)
  have msgs: "ms = [Presence w (focusTs lk) (claimed lk)]" "focusTs lk' = focusTs lk" "claimed lk' = claimed lk"
    using h ok by (auto simp: heartbeat_def Let_def case_prod_beta recompute_fst lock_ok_def postPresence_def
        split: if_splits)
  have stale: "i \<in> set (stale_peers now lk) \<longleftrightarrow> (\<exists>p. map_of (lock_peers lk) i = Some p \<and> lastSeen p < now - 6000)" for i
    using ok by (force simp: stale_peers_def STALE_MS_def lock_ok_def)
  have recs: "map_of (lock_peers lk') i = (case map_of (lock_peers lk) i of None \<Rightarrow> None
       | Some p \<Rightarrow> if lastSeen p < now - 6000 then None else Some p)" for i
    using peers_ops(4) [OF ok, of now] stale [of i] by (auto simp: h split: option.split)
  have "(i, p) \<in> set (lock_peers lk') \<longleftrightarrow> map_of (lock_peers lk') i = Some p" for i p
    using ok' by (simp add: lock_ok_def)
  then have "owned lk' = {sid \<in> set (claimed lk). \<forall>i p. map_of (lock_peers lk') i = Some p \<and> sid \<in> set (peer_sessions p) \<longrightarrow>
      \<not> (peer_focus p > focusTs lk \<or> (peer_focus p = focusTs lk \<and> i > w))}"
    using ok' msgs by (force simp: lock_ok_def computeOwned_eq self_presence_def peersAsPresence_def peer_wins_def)
  with h msgs(1) recs show ?thesis by blast
qed

text \<open>
  The zone of a pointer is the center exactly inside the inner half of the panel, and otherwise
  names an edge no farther away than any other edge.
\<close>

lemma dropZone_nearest:
  "(case classifyDropZone x y of
      CenterZone \<Rightarrow> 1/4 \<le> x \<and> x \<le> 3/4 \<and> 1/4 \<le> y \<and> y \<le> 3/4
    | TopZone \<Rightarrow> \<not> (1/4 \<le> x \<and> x \<le> 3/4 \<and> 1/4 \<le> y \<and> y \<le> 3/4) \<and> y \<le> 1 - y \<and> y \<le> x \<and> y \<le> 1 - x
    | BottomZone \<Rightarrow> \<not> (1/4 \<le> x \<and> x \<le> 3/4 \<and> 1/4 \<le> y \<and> y \<le> 3/4) \<and> 1 - y \<le> y \<and> 1 - y \<le> x \<and> 1 - y \<le> 1 - x
    | LeftZone \<Rightarrow> \<not> (1/4 \<le> x \<and> x \<le> 3/4 \<and> 1/4 \<le> y \<and> y \<le> 3/4) \<and> x \<le> y \<and> x \<le> 1 - y \<and> x \<le> 1 - x
    | RightZone \<Rightarrow> \<not> (1/4 \<le> x \<and> x \<le> 3/4 \<and> 1/4 \<le> y \<and> y \<le> 3/4) \<and> 1 - x \<le> y \<and> 1 - x \<le> 1 - y \<and> 1 - x \<le> x)"
  by (auto simp: classifyDropZone_def Let_def min_def)

text \<open>
  The mode button cycles through all three modes; a mode set while the storage works is the mode
  the next page load starts with, and anything else in the storage, or no storage, means system.
\<close>

lemma theme_mode_roundtrip:
  "(nextThemeMode (nextThemeMode (nextThemeMode md)) = md \<and>
      {md, nextThemeMode md, nextThemeMode (nextThemeMode md)} = {SystemMode, LightMode, DarkMode}) \<and>
   setMode md (Working False m) = (md, Working False (obj_set theme_key (mode_name md) m)) \<and>
   loadMode (snd (setMode md (Working False m))) = md \<and>
   loadMode NoStorage = SystemMode \<and> loadMode Blocked = SystemMode \<and>
   loadMode (Working f [(theme_key, ''sepia'')]) = SystemMode"
  by (cases md) (auto simp: nextThemeMode_def setMode_def saveMode_def loadMode_def read_mode_def theme_key_def)

text \<open>
  From the starting screen, the check of the log-in leads to the application exactly when the server
  says no password is to be set up and answers the workspace list with any status but 401; a failure of the
  network leaves the starting screen, and an unset password or a 401 leads to the log-in form for it.
\<close>

lemma sign_in_decision:
  assumes "authState sh = AuthLoading" "request res = Some data" "data \<noteq> JNull"
  shows "app_screen i (checkAuth res testRes sh) =
    (if \<exists>v. jprop data ''needsSetup'' = Some v \<and> json_truthy v then LoginScreen True
     else case testRes of
       NetworkError \<Rightarrow> StartingScreen
     | Response st body \<Rightarrow> if st = 401 then LoginScreen False else if i then MainScreen else LoadingScreen) \<and>
    (starts_init i (checkAuth res testRes sh) \<longleftrightarrow> authState (checkAuth res testRes sh) = Authenticated \<and> \<not> i)"
  using assms by (auto simp: checkAuth_def app_screen_def starts_init_def split: option.splits fetch_result.splits)

text \<open>
  When another window takes the session and no ticket request is in flight, the socket is closed and
  let go, and until the session comes back no event opens a socket, requests a ticket or schedules a
  reconnect: the two windows do not fight over the terminal.
\<close>

lemma paused_terminal_stays_paused:
  assumes "reachable_from is_new steady_step c" "cached c" "requests c = 0"
    and "elsewhere_step\<^sup>*\<^sup>* (ownership_changed False c) c'"
  shows "inst_ws (ownership_changed False c) = None \<and> (\<forall>h. \<not> live c' h) \<and> requests c' = 0 \<and> reconnects c' = []"
proof -
  note ok = reachable_conn_ok(1) [OF assms(1)] reachable_conn_ok(2) [OF steady_reachable_term [OF assms(1)]]
  have "paused c'"
    by (rule paused.run_inv [OF assms(4) lose_session_paused(1) [OF ok assms(2,3)]])
  then show ?thesis
    using lose_session_paused(2) [OF ok assms(2,3)] by (simp add: paused_def)
qed

text \<open>
  The panel group echoes the sizes it was given without changing the store, and a resize writes exactly
  the sizes reported for the children, in their order, into that split and no other node.
\<close>

lemma panel_resize_feedback:
  assumes "active_layout (app w) = Some (wid, t)" "distinct (map node_id cs)" "length sz = length cs"
  shows "handleLayoutChanged (defaultLayout cs sz) (PSplit i d sz cs) w = w \<and>
    (new_sizes next cs \<noteq> sz \<longrightarrow>
      layout_of (app (handleLayoutChanged next (PSplit i d sz cs) w)) wid = Some (resize i (new_sizes next cs) t))"
  using assms active_layoutD [OF assms(1)]
  by (simp add: handleLayoutChanged_eq new_sizes_default resizeSplit_def setSplitSizes_eq layout_of_def Let_def
      del: handleLayoutChanged.simps)

text \<open>
  Enter in the phone's input box sends the text and a carriage return as one frame on an open connection and
  empties the box; on any other connection nothing is sent and the text is lost, because the
  result of \<open>sendToTerminal\<close> is not looked at.
\<close>

lemma mobile_send_effect:
  assumes "truthy sid" "cached c"
  shows "snd (onKeyDown ''Enter'' False sid txt c) = [] \<and>
    (\<forall>h. inst_ws c = Some h \<and> socks c h = SOpen \<longrightarrow>
      outbox (fst (onKeyDown ''Enter'' False sid txt c)) = outbox c @ [(h, Data (txt @ [char_of (13::nat)]))]) \<and>
    (wsState c \<noteq> Some SOpen \<longrightarrow> fst (onKeyDown ''Enter'' False sid txt c) = c)"
  using assms by (simp add: onKeyDown_def handleSend_def sendToTerminal_eq sendToTerminal_closed)

text \<open>
  reconciling a valid saved layout with the live sessions keeps every panel, keeps exactly the
  visible sessions that are live, and focuses an existing panel: the saved one if it still exists,
  the first one otherwise.
\<close>

lemma reconcile_effect:
  assumes "arity_ok (pl_layout saved)" "[] \<notin> set (listVisibleSessionIds (pl_layout saved))"
  shows "\<exists>r. reconcileLayout saved V = Some r \<and> leaf_ids (pl_layout r) = leaf_ids (pl_layout saved) \<and>
    listVisibleSessionIds (pl_layout r) = [s \<leftarrow> listVisibleSessionIds (pl_layout saved). s \<in> V] \<and>
    pl_focused r = (if pl_focused saved \<in> set (leaf_ids (pl_layout saved)) then pl_focused saved
                    else hd (leaf_ids (pl_layout saved)))"
proof -
  let ?t = "map_leaves (keep_sessions V) (pl_layout saved)"
  have "filter (\<lambda>x. x = [] \<or> x \<in> V) (listVisibleSessionIds (pl_layout saved)) =
      filter (\<lambda>s. s \<in> V) (listVisibleSessionIds (pl_layout saved))"
    using assms(2) by (intro filter_cong) auto
  then have vis: "listVisibleSessionIds ?t = [s \<leftarrow> listVisibleSessionIds (pl_layout saved). s \<in> V]"
    by (simp add: visible_prune)
  have "arity_ok ?t" using assms(1) by simp
  then have "firstLeaf ?t = Some (hd (listLeaves ?t))" "listLeaves ?t \<noteq> []"
    by (rule firstLeaf_hd, rule arity_ok_leaves)
  moreover from this(2) have "leaf_id (hd (listLeaves ?t)) = hd (leaf_ids ?t)"
    unfolding leaf_ids_def by (rule list.map_sel(1) [symmetric])
  ultimately show ?thesis
    using vis findLeafById_None [of ?t "pl_focused saved"]
    by (auto simp: reconcileLayout_def Let_def pruneSessionIds_eq simp del: prune.rewrite_shape(1))
qed

text \<open>
  removing a leaf removes it and nothing else, in order; the result is absent exactly when every
  leaf had that id; what is left has no split with fewer than two children, and the sizes of every
  split add up to 100, even if those of the original did not.
\<close>

lemma removeLeaf_correct:
  "(case removeLeaf t x of
      None \<Rightarrow> \<forall>l \<in> set (listLeaves t). leaf_id l = x
    | Some r \<Rightarrow> listLeaves r = [l \<leftarrow> listLeaves t. leaf_id l \<noteq> x] \<and> listLeaves r \<noteq> [] \<and>
        arity_ok r \<and> sizes_ok r)"
  using removeLeaf_None [of t x] removeLeaf_Some_leaves [of t x] removeLeaf_normal [of t x]
    removeLeaf_nonempty [of t x]
  by (auto split: option.split)

text \<open>
  \<open>assignSession\<close> (dropping a session on a panel) shows the session in that panel and in no other,
  leaves every other panel as it was, focuses the panel and makes the session active.
\<close>

lemma assignSession_effect:
  assumes "reachable_world rnd w" "active_layout (app w) = Some (wid, t)" "panelId \<in> set (leaf_ids t)"
    and "w' = assignSession panelId sid w"
  shows "\<exists>t'. layout_of (app w') wid = Some t' \<and> focus_of (app w') wid = Some panelId \<and>
    activeSessionId (app w') = Some sid \<and> \<not> sessionUnread (app w') sid \<and>
    listLeaves t' = map (\<lambda>l. if leaf_id l = panelId then l\<lparr>leaf_session := Some sid\<rparr>
       else if leaf_session l = Some sid then l\<lparr>leaf_session := None\<rparr> else l) (listLeaves t) \<and>
    map leaf_id [l \<leftarrow> listLeaves t'. leaf_session l = Some sid] = [panelId]"
proof -
  let ?t' = "move_session t sid panelId"
  have ok: "panel_ok t" using reachable_focus [OF assms(1,2)] by blast
  have found: "findLeafById t panelId \<noteq> None" using assms(3) findLeafById_None by blast
  have w': "w' = (cancel sid w)\<lparr>app := (app w)\<lparr>
      layoutByWorkspace := obj_set wid ?t' (layoutByWorkspace (app w)),
      focusedPanelByWorkspace := obj_set wid panelId (focusedPanelByWorkspace (app w)),
      activeSessionId := deriveActiveSession (Some ?t') (Some panelId),
      activeSessionByWorkspace := obj_set wid sid (activeSessionByWorkspace (app w)),
      sessionActivity := clear_unread sid (sessionActivity (app w)),
      toasts := drop_toasts sid (toasts (app w))\<rparr>\<rparr>"
    using assms(2,4) found by (simp add: assignSession_def Let_def move_session_def)
  have "panelId \<noteq> []" using ok assms(3) by (auto simp: panel_ok_def)
  then have "deriveActiveSession (Some ?t') (Some panelId) = Some sid"
    using assms(3) by (rule derive_move)
  moreover have "map leaf_id [l \<leftarrow> listLeaves ?t'. leaf_session l = Some sid] = [panelId]"
    unfolding only_leaf_move [OF assms(3)]
    using tree_ok_leaf_ids [of t] ok assms(3)
    by (simp add: panel_ok_def leaf_ids_of_one)
  ultimately show ?thesis
    by (simp add: w' layout_of_def focus_of_def unread_simps) (simp add: listLeaves_move)
qed

text \<open>
  once its messages are delivered a window knows the current focus time and wanted sessions of
  every other open window, however the two joined: the reply to a newcomer completes the exchange.
\<close>

lemma lock_presence_converges:
  assumes "reachable_windows sys" "delivered sys"
    and "windows sys w = Some lkw" "windows sys v = Some lkv" "w \<noteq> v"
  shows "\<exists>p. map_of (lock_peers lkw) v = Some p \<and> peer_focus p = focusTs lkv \<and> peer_sessions p = claimed lkv"
  using delivered_knows [OF reachable_sys_ok [OF assms(1)] assms(2-)] .

text \<open>
  What lies over what: in the terminal side nothing is above layer 20, where the drop zones of a panel lie while a tab is
  dragged, over the panel's toolbar, the overlay of a lost session and the upload messages (15 and less); the workspace
  drawer of a phone, its backdrop and the context menu lie at 999 and 1000 above it, the drawer over the backdrop, and the toasts
  at 1100 above everything.
\<close>

lemma overlays_in_order:
  "between 10 20 (TerminalPanel ui u isMobile showMenuButton s pv) \<and>
   collect layer (PanelLeaf ui u isMobile h d s node) =
     collect layer (PanelLeaf ui (u\<lparr>dndActive := False\<rparr>) isMobile h d s node) @ (if dndActive u then replicate 5 20 else []) \<and>
   between 10 15 (PanelLeaf ui (u\<lparr>dndActive := False\<rparr>) isMobile h d s node) \<and>
   list_all (between 999 1000) (SidebarSide ui mode isMobile w sh s sb) \<and>
   take 2 (layers (SidebarSide ui mode True w (sh\<lparr>mobileSidebarOpen := True\<rparr>) s sb)) = [999, 1000] \<and>
   layers (ToastContainer ui u s) = (if toasts s = [] then [] else [1100])"
proof -
  have "between 999 1000 (Sidebar ui mode closable s sb)" for closable
    by (rule between_mono [OF between_Sidebar]) simp_all
  then have "list_all (between 999 1000) (SidebarSide ui mode isMobile w sh s sb)"
    by (simp add: SidebarSide_def sidebar_column_def divider_style_def backdrop_style_def drawer_style_def)
  moreover have "take 2 (layers (SidebarSide ui mode True w (sh\<lparr>mobileSidebarOpen := True\<rparr>) s sb)) = [999, 1000]"
    by (simp add: SidebarSide_def backdrop_style_def drawer_style_def numeral_2_eq_2)
  ultimately show ?thesis
    by (intro conjI between_TerminalPanel zones_on_top layers_ToastContainer)
qed

text \<open>
  what the store's subscriber writes to a working \<open>localStorage\<close> is what the next start-up loads:
  every workspace's layout with its focused panel, and nothing else. \<open>JSON.parse\<close> is only assumed
  to invert \<open>JSON.stringify\<close> on the document written.
\<close>

lemma save_then_load:
  assumes "reachable_world rnd w"
    and "\<And>out. layouts_to_save (app w) (obj_keys (layoutByWorkspace (app w))) [] = Some out \<Longrightarrow>
      stringify (layouts_file out) \<noteq> [] \<and> parse (stringify (layouts_file out)) = Some (layouts_file out)"
  shows "\<exists>st. persist_subscriber stringify sameLayouts False (app w) (Working False m) = Done st \<and>
    (\<forall>wid. map_of (loadLayouts parse st) wid =
      map_option (\<lambda>t. \<lparr>pl_layout = t, pl_focused = the (focus_of (app w) wid)\<rparr>) (layout_of (app w) wid))"
proof -
  note ok = reachable_store [OF assms(1)]
  obtain out where out: "layouts_to_save (app w) (obj_keys (layoutByWorkspace (app w))) [] = Some out"
    using layouts_to_save_all [OF ok] by metis
  have "map_of (loadLayouts parse (saveLayouts stringify out (Working False m))) wid =
      map_option (\<lambda>t. \<lparr>pl_layout = t, pl_focused = the (focus_of (app w) wid)\<rparr>) (layout_of (app w) wid)"
    for wid
    using load_saved_state [OF ok out] assms(2) [OF out] by blast
  then show ?thesis by (auto simp: persist_subscriber_def out)
qed

text \<open>
  \<open>setActiveSession\<close> in a workspace with a layout makes the session active and visible, focuses a
  leaf that shows it, and clears its unread mark, its toasts and its idle tracking; the panels keep
  their identities, and a session that was already visible is not moved.
\<close>

lemma setActiveSession_effect:
  assumes "reachable_world rnd w" "active_layout (app w) = Some (wid, t)"
  shows "\<exists>w' t' f l. setActiveSession sid w = Done w' \<and> layout_of (app w') wid = Some t' \<and>
    focus_of (app w') wid = Some f \<and> findLeafById t' f = Some l \<and> leaf_session l = Some sid \<and>
    activeSessionId (app w') = Some sid \<and> leaf_ids t' = leaf_ids t \<and>
    (sid \<in> set (listVisibleSessionIds t) \<longrightarrow> t' = t) \<and>
    \<not> sessionUnread (app w') sid \<and> (\<forall>x \<in> set (toasts (app w')). t_sessionId x \<noteq> sid) \<and>
    map_of (busyTrack (track w')) sid = None"
proof -
  obtain t' f where eq: "setActiveSession sid w = Done ((cancel sid w)\<lparr>app := (app w)\<lparr>
        activeSessionId := Some sid,
        activeSessionByWorkspace := obj_set wid sid (activeSessionByWorkspace (app w)),
        layoutByWorkspace := obj_set wid t' (layoutByWorkspace (app w)),
        focusedPanelByWorkspace := obj_set wid f (focusedPanelByWorkspace (app w)),
        sessionActivity := clear_unread sid (sessionActivity (app w)),
        toasts := drop_toasts sid (toasts (app w))\<rparr>\<rparr>)" (is "_ = Done ?w'")
    and t': "f \<in> set (leaf_ids t')" "deriveActiveSession (Some t') (Some f) = Some sid"
      "t' = (if sid \<in> set (listVisibleSessionIds t) then t else move_session t sid f)"
    using setActiveSession_layout [OF reachable_store [OF assms(1)] assms(2)] by blast
  obtain l where l: "findLeafById t' f = Some l"
    using t'(1) findLeafById_None [of t' f] by auto
  then have "leaf_session l = Some sid"
    using t'(2) by (auto simp: deriveActiveSession_def split: if_splits)
  moreover have "leaf_ids t' = leaf_ids t" using t'(3) by simp
  moreover have "\<not> sessionUnread (app ?w') sid" by (simp add: unread_simps)
  ultimately show ?thesis
    using l t'(3)
    by (intro exI [of _ ?w'] exI [of _ t'] exI [of _ f] exI [of _ l])
      (simp add: eq layout_of_def focus_of_def drop_toasts_eq cancel_def cancel_fields)
qed

text \<open>
  and no session is orphaned: when the messages are delivered and no window remembers a crashed
  one, every session some open window wants is owned by exactly one.
\<close>

lemma lock_exactly_one_owner:
  assumes "reachable_windows sys" "delivered sys"
    and "\<And>w lk i. windows sys w = Some lk \<Longrightarrow> has_key i (lock_peers lk) \<Longrightarrow> windows sys i \<noteq> None"
    and "windows sys u = Some lku" "sid \<in> set (claimed lku)"
  shows "\<exists>!w. \<exists>lk. windows sys w = Some lk \<and> ownsSession lk sid"
proof -
  note ok = reachable_sys_ok [OF assms(1)]
  have "\<exists>w lk. windows sys w = Some lk \<and> sid \<in> owned lk"
    by (rule owner_exists [OF ok assms(2) reachable_finite [OF assms(1)] _ assms(4,5)]) (rule assms(3))
  then obtain w lk where w: "windows sys w = Some lk" "sid \<in> owned lk" by blast
  have "v = w" if "windows sys v = Some lkv" "sid \<in> owned lkv" for v lkv
    using single_owner [OF ok assms(2) w(1) that(1)] w(2) that(2) by blast
  with w show ?thesis unfolding ownsSession_def by blast
qed

text \<open>
  a window that takes focus later than every peer it knows owns everything it wants, tells its
  listeners exactly when that changes what it owns, and announces the new focus time.
\<close>

lemma takeFocus_wins:
  assumes "reachable_windows sys" "windows sys w = Some lk"
    and "\<And>i p. map_of (lock_peers lk) i = Some p \<Longrightarrow> peer_focus p < now"
  shows "\<exists>lk' n. takeFocus now lk = (lk', [Presence w now (claimed lk)], n) \<and>
    owned lk' = set (claimed lk) \<and> (n \<longleftrightarrow> owned lk' \<noteq> owned lk)"
proof -
  have ok: "lock_ok w lk" using sys_ok_lock [OF reachable_sys_ok [OF assms(1)] assms(2)] .
  have "owned (fst (takeFocus now lk)) = set (claimed lk)"
    using ok assms(3) by (force simp: takeFocus_def case_prod_beta recompute_fst lock_ok_def computeOwned_eq
        self_presence_def peersAsPresence_def peer_wins_def)
  moreover have "finite (owned lk)" using ok by (rule lock_ok_finite)
  ultimately show ?thesis
    using ok recompute_notifies [of "lk\<lparr>focusTs := now\<rparr>"]
    by (cases "takeFocus now lk")
      (auto simp: takeFocus_def case_prod_beta recompute_fst postPresence_def lock_ok_def)
qed

text \<open>
  Clicking a toast shows its session: its workspace becomes the active one, loaded from the server when it was
  not, a panel of that workspace shows the session and is focused, its unread mark is gone and
  no toast of it is left.
\<close>

lemma toast_click_effect:
  assumes "reachable_world rnd w" "t_workspaceId t \<noteq> []" "r = Resolved sess"
    and "Some (t_workspaceId t) = activeWorkspaceId (app w) \<Longrightarrow> active_layout (app w) \<noteq> None"
  shows "\<exists>w' t' f l. toast_click rnd (activeWorkspaceId (app w)) t r w = Done w' \<and>
    activeWorkspaceId (app w') = Some (t_workspaceId t) \<and> activeSessionId (app w') = Some (t_sessionId t) \<and>
    layout_of (app w') (t_workspaceId t) = Some t' \<and> focus_of (app w') (t_workspaceId t) = Some f \<and>
    findLeafById t' f = Some l \<and> leaf_session l = Some (t_sessionId t) \<and>
    \<not> sessionUnread (app w') (t_sessionId t) \<and> (\<forall>x \<in> set (toasts (app w')). t_sessionId x \<noteq> t_sessionId t)"
proof -
  obtain w1 t1 where w1: "store_ok (app w1)" "active_layout (app w1) = Some (t_workspaceId t, t1)"
    and click: "toast_click rnd (activeWorkspaceId (app w)) t r w =
      (case setActiveSession (t_sessionId t) w1 of
         Throws e w2 \<Rightarrow> Throws e w2 | Done w2 \<Rightarrow> Done (dismissToast (t_id t) w2))"
    by (rule toast_switch [OF reachable_store [OF assms(1)] assms(2-4)])
  obtain t' f where eq: "setActiveSession (t_sessionId t) w1 = Done ((cancel (t_sessionId t) w1)\<lparr>app := (app w1)\<lparr>
        activeSessionId := Some (t_sessionId t),
        activeSessionByWorkspace := obj_set (t_workspaceId t) (t_sessionId t) (activeSessionByWorkspace (app w1)),
        layoutByWorkspace := obj_set (t_workspaceId t) t' (layoutByWorkspace (app w1)),
        focusedPanelByWorkspace := obj_set (t_workspaceId t) f (focusedPanelByWorkspace (app w1)),
        sessionActivity := clear_unread (t_sessionId t) (sessionActivity (app w1)),
        toasts := drop_toasts (t_sessionId t) (toasts (app w1))\<rparr>\<rparr>)" (is "_ = Done ?w2")
    and t': "f \<in> set (leaf_ids t')" "deriveActiveSession (Some t') (Some f) = Some (t_sessionId t)"
    using setActiveSession_layout [OF w1] by blast
  obtain l where l: "findLeafById t' f = Some l" using t'(1) findLeafById_None [of t' f] by auto
  then have "leaf_session l = Some (t_sessionId t)"
    using t'(2) by (auto simp: deriveActiveSession_def split: if_splits)
  moreover have "\<not> sessionUnread (app ?w2) (t_sessionId t)" by (simp add: unread_simps)
  moreover have "\<forall>x \<in> set (toasts (app (dismissToast (t_id t) ?w2))). t_sessionId x \<noteq> t_sessionId t"
    using dismissToast_keeps(6) [of "t_id t" ?w2] by (auto simp: drop_toasts_eq)
  ultimately show ?thesis
    using l active_layoutD [OF w1(2)]
    by (intro exI [of _ "dismissToast (t_id t) ?w2"] exI [of _ t'] exI [of _ f] exI [of _ l])
      (simp add: click eq, simp add: layout_of_def focus_of_def)
qed

text \<open>
  However the sidebar is dragged and whatever else happens, its width stays between 140 and 400, a
  frame is pending only during a drag, and with a storage that takes writes the dismissal of the
  permission banner is what the storage remembers.
\<close>

lemma shell_invariant:
  assumes "reachable_from shell_start shell_step sh"
  shows "140 \<le> sidebarPanelWidth False inner sh \<and> sidebarPanelWidth False inner sh \<le> 400 \<and>
    (rafPending sh \<longrightarrow> dragging sh) \<and>
    (\<forall>m. localItems sh = Working False m \<longrightarrow> permDismissed sh = read_dismissed (localItems sh))"
  using shell.reachable_inv [OF assms] by (auto simp: shell_ok_def sidebarPanelWidth_def read_dismissed_def)

end
